(* ===== verification/Prelude.thy ===== *)
theory Prelude
  imports Main "HOL-Library.Word" "HOL-Library.Char_ord" "HOL-Library.List_Lexorder"
begin

text \<open>
  Shared vocabulary of the development: byte strings, machine integers, the collections of
  simplification rules the component theories fill, generic lemmas on lists, and the
  interface every text encoding implements.

  A C++ \<^verbatim>\<open>std::string\<close> is a sequence of bytes. HOL's \<^typ>\<open>char\<close> has exactly 256 values,
  so \<^typ>\<open>string\<close> is used for it; \<open>ord\<close> reads a byte as the code reads an
  \<^verbatim>\<open>unsigned char\<close> that is promoted to an integer.
\<close>

unbundle bit_operations_syntax

subsection \<open>Types and abbreviations\<close>

type_synonym u64 = "64 word"
type_synonym u32 = "32 word"

abbreviation ord :: "char \<Rightarrow> nat" where
  "ord c \<equiv> of_char c"

abbreviation NUL :: char where
  "NUL \<equiv> CHR 0x00"

abbreviation LF :: char where
  "LF \<equiv> CHR 0x0A"

abbreviation CR :: char where
  "CR \<equiv> CHR 0x0D"

subsection \<open>Collections of rules\<close>

named_theorems codec_simps \<open>equations about the text encodings\<close>
named_theorems byte_simps \<open>facts about bytes read as numbers\<close>
named_theorems str_simps \<open>equations about the std::string operations\<close>

subsection \<open>Bytes\<close>

lemma ord_less [simp]: "ord c < 256"
  by (simp add: of_char_def)

lemma ord_le [simp]: "ord c \<le> 255"
  using ord_less [of c] by linarith

lemma ord_eq_iff [simp]: "ord c = ord d \<longleftrightarrow> c = d"
  by (metis char_of_char)

lemma ord_char_of: "n < 256 \<Longrightarrow> ord (char_of n) = n"
  by simp

lemma char_of_eq_iff: "n < 256 \<Longrightarrow> char_of n = c \<longleftrightarrow> n = ord c"
  by auto

lemma nibbles [byte_simps]: "ord c div 16 * 16 + ord c mod 16 = ord c"
  by simp

lemma drop_bit_4_nat [byte_simps]: "drop_bit 4 (n::nat) = n div 16"
  by (simp add: drop_bit_eq_div)

lemma and_15_nat [byte_simps]: "(n::nat) AND 15 = n mod 16"
  using take_bit_eq_mask [of 4 n] by (simp add: mask_eq_exp_minus_1 take_bit_eq_mod)

lemma all_less_16: "(\<forall>n<(16::nat). P n) \<longleftrightarrow> (\<forall>n \<in> set [0..<16]. P n)"
  by auto

subsection \<open>64-bit words\<close>

lemma unat_u64_less: "unat (w :: u64) < 2 ^ 64"
  using unsigned_less [of w, where ?'a = nat] by simp

lemma unat_of_nat_u64: "n < 2 ^ 64 \<Longrightarrow> unat (of_nat n :: u64) = n"
  by (simp add: unat_of_nat)

lemma unat_pred_u64: "w \<noteq> 0 \<Longrightarrow> unat (w - 1 :: u64) = unat w - 1"
  by (simp add: unat_minus_one)

lemma unat_diff_u64: "(a :: u64) \<le> b \<Longrightarrow> unat (b - a) = unat b - unat a"
  by (simp add: unat_sub)

lemma unat_add_u64: "unat a + unat b < 2 ^ 64 \<Longrightarrow> unat (a + b :: u64) = unat a + unat b"
  by (simp add: unat_word_ariths)

lemma unat_pos_u64: "w \<noteq> 0 \<longleftrightarrow> 0 < unat (w :: u64)"
  by (simp add: unat_gt_0)

lemmas u64_arith = unat_u64_less unat_of_nat_u64 unat_pred_u64 unat_diff_u64 unat_add_u64

subsection \<open>Codecs\<close>

text \<open>
  A codec is an encoder and a partial decoder that undoes it on a domain. URL escaping,
  Base64, the decimal printer and the bundle frame all have this shape; what the clients use (injectivity, and
  that a decoded image is the original) is proved once here.
\<close>

locale codec =
  fixes enc :: "'a \<Rightarrow> 'b" and dec :: "'b \<Rightarrow> 'a option" and dom :: "'a \<Rightarrow> bool"
  assumes dec_enc: "dom x \<Longrightarrow> dec (enc x) = Some x"
begin

lemma enc_eq_iff: "dom x \<Longrightarrow> dom y \<Longrightarrow> enc x = enc y \<longleftrightarrow> x = y"
  by (metis dec_enc option.inject)

lemma enc_inj_on: "inj_on enc {x. dom x}"
  by (auto intro!: inj_onI simp: enc_eq_iff)

lemma dec_of_image: "dom x \<Longrightarrow> y = enc x \<Longrightarrow> dec y = Some x"
  by (simp add: dec_enc)

end

subsection \<open>Keyed stores\<close>

text \<open>
  A store of values under keys: what \<^verbatim>\<open>std::unordered_map\<close> gives the metadata table, the sessions, the
  login attempts and the logger registry. The clients use it through \<open>find\<close>, \<open>put\<close> and \<open>del\<close> alone.
\<close>

locale keyed_store =
  fixes find :: "'s \<Rightarrow> 'k \<Rightarrow> 'v option" and put :: "'k \<Rightarrow> 'v \<Rightarrow> 's \<Rightarrow> 's" and del :: "'k \<Rightarrow> 's \<Rightarrow> 's"
    and inv :: "'s \<Rightarrow> bool"
  assumes find_put: "inv s \<Longrightarrow> find (put k v s) k' = (if k' = k then Some v else find s k')"
    and find_del: "inv s \<Longrightarrow> find (del k s) k' = (if k' = k then None else find s k')"
    and inv_put: "inv s \<Longrightarrow> inv (put k v s)"
    and inv_del: "inv s \<Longrightarrow> inv (del k s)"
begin

definition view :: "'s \<Rightarrow> 'k \<Rightarrow> 'v option" where
  "view s = find s"

lemma view_put: "inv s \<Longrightarrow> view (put k v s) = (view s)(k \<mapsto> v)"
  by (simp add: fun_eq_iff view_def find_put)

lemma view_del: "inv s \<Longrightarrow> view (del k s) = (view s)(k := None)"
  by (simp add: fun_eq_iff view_def find_del)

lemma del_put_view: "inv s \<Longrightarrow> view s k = None \<Longrightarrow> view (del k (put k v s)) = view s"
  by (simp add: view_del view_put inv_put fun_upd_idem)

lemma put_other: "inv s \<Longrightarrow> k' \<noteq> k \<Longrightarrow> view (put k v s) k' = view s k'"
  by (simp add: view_put)

end

text \<open>
  An \<^verbatim>\<open>std::unordered_map\<close> is kept as the list of its entries. The order of iteration, which the
  standard leaves open, is not the order of this list: code that iterates takes it as a parameter.
\<close>

type_synonym ('k, 'v) hash_map = "('k \<times> 'v) list"

definition hm_find :: "('k, 'v) hash_map \<Rightarrow> 'k \<Rightarrow> 'v option" where
  "hm_find m k = map_of m k"

definition hm_erase :: "'k \<Rightarrow> ('k, 'v) hash_map \<Rightarrow> ('k, 'v) hash_map" where
  "hm_erase k m = filter (\<lambda>e. fst e \<noteq> k) m"

definition hm_assign :: "'k \<Rightarrow> 'v \<Rightarrow> ('k, 'v) hash_map \<Rightarrow> ('k, 'v) hash_map" where
  "hm_assign k v m = hm_erase k m @ [(k, v)]"

definition hm_ok :: "('k, 'v) hash_map \<Rightarrow> bool" where
  "hm_ok m \<longleftrightarrow> distinct (map fst m)"

lemma map_of_filter_ne: "map_of (filter (\<lambda>e. fst e \<noteq> k) m) k' = (if k' = k then None else map_of m k')"
  by (induction m) auto

lemma hm_ok_erase: "hm_ok m \<Longrightarrow> hm_ok (hm_erase k m)"
  by (induction m) (auto simp: hm_ok_def hm_erase_def)

interpretation hm: keyed_store hm_find hm_assign hm_erase hm_ok
proof unfold_locales
  fix m :: "('k, 'v) hash_map" and k k' v
  assume ok: "hm_ok m"
  show "hm_find (hm_assign k v m) k' = (if k' = k then Some v else hm_find m k')"
    by (auto simp: hm_find_def hm_assign_def hm_erase_def map_add_def map_of_filter_ne split: option.split)
  show "hm_find (hm_erase k m) k' = (if k' = k then None else hm_find m k')"
    by (simp add: hm_find_def hm_erase_def map_of_filter_ne)
  show "hm_ok (hm_assign k v m)"
    using hm_ok_erase [OF ok, of k] by (auto simp: hm_ok_def hm_assign_def hm_erase_def)
  show "hm_ok (hm_erase k m)" by (rule hm_ok_erase [OF ok])
qed

end
