(* ===== verification/Effects.thy ===== *)
theory Effects
  imports Prelude "HOL-Library.State_Monad"
begin

text \<open>
  Effects. Code that calls the operating system or changes the state of the server is a
  computation of \<^verbatim>\<open>HOL-Library.State_Monad\<close>; the do-blocks of the component theories follow
  the statements of the source. This theory adds reading and changing a part of the state, and
  two ways of reasoning: Hoare triples over computations, and relations between the state
  before and after a computation, which compose whenever they are reflexive and transitive.
\<close>

definition gets :: "('s \<Rightarrow> 'a) \<Rightarrow> ('s, 'a) state" where
  "gets f = State (\<lambda>s. (f s, s))"

definition modify :: "('s \<Rightarrow> 's) \<Rightarrow> ('s, unit) state" where
  "modify f = State (\<lambda>s. ((), f s))"

abbreviation skip :: "('s, unit) state" where
  "skip \<equiv> State_Monad.return ()"

abbreviation give :: "'a \<Rightarrow> ('s, 'a) state" where
  "give \<equiv> State_Monad.return"

definition result :: "('s, 'a) state \<Rightarrow> 's \<Rightarrow> 'a" where
  "result m s = fst (run_state m s)"

definition final :: "('s, 'a) state \<Rightarrow> 's \<Rightarrow> 's" where
  "final m s = snd (run_state m s)"

lemma run_gets [simp]: "run_state (gets f) s = (f s, s)"
  by (simp add: gets_def)

lemma run_modify [simp]: "run_state (modify f) s = ((), f s)"
  by (simp add: modify_def)

lemma run_result_final: "run_state m s = (result m s, final m s)"
  by (simp add: result_def final_def)

subsection \<open>Triples\<close>

definition valid :: "('s \<Rightarrow> bool) \<Rightarrow> ('s, 'a) state \<Rightarrow> ('a \<Rightarrow> 's \<Rightarrow> bool) \<Rightarrow> bool" where
  "valid P m Q \<longleftrightarrow> (\<forall>s. P s \<longrightarrow> Q (result m s) (final m s))"

named_theorems triples \<open>triples of the operations\<close>

lemma validI: "(\<And>s a t. P s \<Longrightarrow> run_state m s = (a, t) \<Longrightarrow> Q a t) \<Longrightarrow> valid P m Q"
  by (simp add: valid_def result_def final_def)

lemma validD: "valid P m Q \<Longrightarrow> P s \<Longrightarrow> run_state m s = (a, t) \<Longrightarrow> Q a t"
  by (auto simp: valid_def result_def final_def)

lemma valid_return: "(\<And>s. P s \<Longrightarrow> Q a s) \<Longrightarrow> valid P (give a) Q"
  by (simp add: valid_def result_def final_def)

lemma valid_gets: "(\<And>s. P s \<Longrightarrow> Q (f s) s) \<Longrightarrow> valid P (gets f) Q"
  by (simp add: valid_def result_def final_def)

lemma valid_modify: "(\<And>s. P s \<Longrightarrow> Q () (f s)) \<Longrightarrow> valid P (modify f) Q"
  by (simp add: valid_def result_def final_def)

lemma valid_bind:
  "valid P m R \<Longrightarrow> (\<And>a. valid (R a) (f a) Q) \<Longrightarrow> valid P (State_Monad.bind m f) Q"
  by (auto simp: valid_def result_def final_def split: prod.splits)

lemma valid_if:
  "(b \<Longrightarrow> valid P m Q) \<Longrightarrow> (\<not> b \<Longrightarrow> valid P n Q) \<Longrightarrow> valid P (if b then m else n) Q"
  by simp

lemma valid_conseq:
  "valid P' m Q' \<Longrightarrow> (\<And>s. P s \<Longrightarrow> P' s) \<Longrightarrow> (\<And>a s. Q' a s \<Longrightarrow> Q a s) \<Longrightarrow> valid P m Q"
  by (simp add: valid_def)

lemma valid_conj: "valid P m Q \<Longrightarrow> valid P m R \<Longrightarrow> valid P m (\<lambda>a s. Q a s \<and> R a s)"
  by (simp add: valid_def)

subsection \<open>Relations between the states before and after\<close>

locale effect_relation =
  fixes R :: "'s \<Rightarrow> 's \<Rightarrow> bool"
  assumes refl: "R s s"
    and trans: "R s t \<Longrightarrow> R t u \<Longrightarrow> R s u"
begin

lemma rel_return: "state_io_rel R (give a)"
  by (simp add: state_io_rel_def refl)

lemma rel_gets: "state_io_rel R (gets f)"
  by (simp add: state_io_rel_def refl)

lemma rel_modify: "(\<And>s. R s (f s)) \<Longrightarrow> state_io_rel R (modify f)"
  by (simp add: state_io_rel_def)

lemma rel_bind:
  "state_io_rel R m \<Longrightarrow> (\<And>a. state_io_rel R (f a)) \<Longrightarrow> state_io_rel R (State_Monad.bind m f)"
  unfolding state_io_rel_def by (simp add: split_beta) (blast intro: trans)

lemma rel_if:
  "state_io_rel R m \<Longrightarrow> state_io_rel R n \<Longrightarrow> state_io_rel R (if b then m else n)"
  by simp

lemma rel_option:
  "state_io_rel R m \<Longrightarrow> (\<And>x. state_io_rel R (f x)) \<Longrightarrow>
     state_io_rel R (case z of None \<Rightarrow> m | Some x \<Rightarrow> f x)"
  by (cases z) simp_all

lemma rel_prod: "(\<And>x y. state_io_rel R (f x y)) \<Longrightarrow> state_io_rel R (case z of (x, y) \<Rightarrow> f x y)"
  by (cases z) simp

lemma rel_sum:
  "(\<And>x. state_io_rel R (f x)) \<Longrightarrow> (\<And>y. state_io_rel R (g y)) \<Longrightarrow>
     state_io_rel R (case z of Inl x \<Rightarrow> f x | Inr y \<Rightarrow> g y)"
  by (cases z) simp_all

lemma rel_let: "(\<And>x. state_io_rel R (f x)) \<Longrightarrow> state_io_rel R (let x = z in f x)"
  by simp

lemma rel_final: "state_io_rel R m \<Longrightarrow> R s (final m s)"
  by (simp add: state_io_rel_def final_def)

lemmas rel_rules = rel_return rel_gets rel_bind rel_if rel_option rel_prod rel_sum rel_let

end

end
