(* ===== verification/Cpp_String.thy ===== *)
theory Cpp_String
  imports Prelude
begin

text \<open>
  The operations of the C++ standard library on \<^verbatim>\<open>std::string\<close> that the program uses:
  searching, substrings, C strings, and decimal numbers as \<^verbatim>\<open>std::to_string\<close> prints them and
  \<^verbatim>\<open>std::from_chars\<close> reads them. \<^verbatim>\<open>npos\<close> is \<open>None\<close>. The calls of the program
  never pass \<^verbatim>\<open>substr\<close> a position beyond the end, so that it does not throw.
\<close>

subsection \<open>Searching and cutting\<close>

definition find_char :: "char \<Rightarrow> string \<Rightarrow> nat \<Rightarrow> nat option" where
  "find_char c s pos =
     (let k = length (takeWhile (\<lambda>x. x \<noteq> c) (drop pos s))
      in if pos + k < length s then Some (pos + k) else None)"

definition substr :: "string \<Rightarrow> nat \<Rightarrow> nat \<Rightarrow> string" where
  "substr s pos len = take len (drop pos s)"

definition starts_with :: "string \<Rightarrow> string \<Rightarrow> bool" where
  "starts_with s prefix \<longleftrightarrow> take (length prefix) s = prefix"

fun str_find :: "string \<Rightarrow> string \<Rightarrow> nat option" where
  "str_find [] needle = (if needle = [] then Some 0 else None)"
| "str_find (c # cs) needle =
     (if starts_with (c # cs) needle then Some 0 else map_option Suc (str_find cs needle))"

text \<open>Reading a \<^verbatim>\<open>std::string\<close> through \<^verbatim>\<open>c_str()\<close> stops at the first NUL byte.\<close>

definition c_str :: "string \<Rightarrow> string" where
  "c_str s = takeWhile (\<lambda>c. c \<noteq> NUL) s"

lemma length_takeWhile_neq: "length (takeWhile (\<lambda>x. x \<noteq> c) t) < length t \<longleftrightarrow> c \<in> set t"
  by (induction t) auto

lemma find_char_conv:
  "find_char c s pos =
     (if c \<in> set (drop pos s) then Some (pos + length (takeWhile (\<lambda>x. x \<noteq> c) (drop pos s))) else None)"
  using length_takeWhile_neq [of c "drop pos s"] by (auto simp: find_char_def Let_def)

lemma find_char_None: "find_char c s pos = None \<longleftrightarrow> c \<notin> set (drop pos s)"
  by (simp add: find_char_conv)

lemma takeWhile_neq_append: "c \<notin> set a \<Longrightarrow> takeWhile (\<lambda>x. x \<noteq> c) (a @ c # b) = a"
  by (induction a) auto

lemma find_char_0_Some:
  "find_char c s 0 = Some i \<longleftrightarrow> (\<exists>a b. s = a @ c # b \<and> c \<notin> set a \<and> i = length a)"
proof
  assume "find_char c s 0 = Some i"
  then have c: "c \<in> set s" and i: "i = length (takeWhile (\<lambda>x. x \<noteq> c) s)"
    by (simp_all add: find_char_conv split: if_splits)
  from c obtain a b where s: "s = a @ c # b" and a: "c \<notin> set a" by (meson split_list_first)
  with i have "i = length a" by (simp add: takeWhile_neq_append)
  with s a show "\<exists>a b. s = a @ c # b \<and> c \<notin> set a \<and> i = length a" by blast
next
  assume "\<exists>a b. s = a @ c # b \<and> c \<notin> set a \<and> i = length a"
  then show "find_char c s 0 = Some i" by (auto simp: find_char_conv takeWhile_neq_append)
qed

lemma find_char_0_append [str_simps]:
  "c \<notin> set a \<Longrightarrow> find_char c (a @ c # b) 0 = Some (length a)"
  by (auto simp: find_char_0_Some)

lemma find_char_0_Nil [str_simps]: "c \<notin> set s \<Longrightarrow> find_char c s 0 = None"
  by (simp add: find_char_None)

lemma starts_with_append [str_simps, simp]: "starts_with (p @ s) p"
  by (simp add: starts_with_def)

lemma starts_with_iff: "starts_with s p \<longleftrightarrow> (\<exists>t. s = p @ t)"
  by (metis append_eq_conv_conj append_take_drop_id starts_with_def)

lemma str_find_Some: "str_find s n = Some i \<Longrightarrow> i \<le> length s \<and> take (length n) (drop i s) = n"
proof (induction s arbitrary: i)
  case (Cons c cs)
  then show ?case by (cases i) (auto simp: starts_with_def split: if_splits)
qed (auto split: if_splits)

lemma c_str_id [str_simps]: "NUL \<notin> set s \<Longrightarrow> c_str s = s"
  by (auto simp: c_str_def takeWhile_eq_all_conv)

lemma c_str_no_NUL [simp]: "NUL \<notin> set (c_str s)"
  by (auto simp: c_str_def dest: set_takeWhileD)

subsection \<open>Decimal numbers\<close>

definition is_digit :: "char \<Rightarrow> bool" where
  "is_digit c \<longleftrightarrow> CHR ''0'' \<le> c \<and> c \<le> CHR ''9''"

definition digit_value :: "char \<Rightarrow> nat" where
  "digit_value c = ord c - ord (CHR ''0'')"

definition dec_value :: "string \<Rightarrow> nat" where
  "dec_value ds = foldl (\<lambda>v c. v * 10 + digit_value c) 0 ds"

definition digit :: "nat \<Rightarrow> char" where
  "digit n = char_of (ord (CHR ''0'') + n)"

fun to_dec :: "nat \<Rightarrow> string" where
  "to_dec n = (if n < 10 then [digit n] else to_dec (n div 10) @ [digit (n mod 10)])"

declare to_dec.simps [simp del]

definition to_dec_int :: "int \<Rightarrow> string" where
  "to_dec_int i = (if i < 0 then CHR ''-'' # to_dec (nat (- i)) else to_dec (nat i))"

lemma ord_digit: "n < 10 \<Longrightarrow> ord (digit n) = 48 + n"
  by (simp add: digit_def)

lemma digit_is_digit: "n < 10 \<Longrightarrow> is_digit (digit n)"
  by (simp add: is_digit_def less_eq_char_def ord_digit)

lemma digit_value_digit: "n < 10 \<Longrightarrow> digit_value (digit n) = n"
  by (simp add: digit_value_def ord_digit)

lemma digit_value_less: "is_digit c \<Longrightarrow> digit_value c < 10"
  by (auto simp: is_digit_def digit_value_def less_eq_char_def)

lemma dec_value_snoc: "dec_value (ds @ [d]) = dec_value ds * 10 + digit_value d"
  by (simp add: dec_value_def)

lemma dec_value_to_dec [str_simps]: "dec_value (to_dec n) = n"
proof (induction n rule: to_dec.induct)
  case (1 n)
  show ?case
  proof (cases "n < 10")
    case True
    then show ?thesis by (simp add: to_dec.simps [of n] dec_value_def digit_value_digit)
  next
    case False
    with "1.IH" show ?thesis
      by (simp add: to_dec.simps [of n] dec_value_snoc digit_value_digit)
  qed
qed

lemma to_dec_digits: "list_all is_digit (to_dec n)"
proof (induction n rule: to_dec.induct)
  case (1 n)
  then show ?case
    by (cases "n < 10") (simp_all add: to_dec.simps [of n] digit_is_digit)
qed

lemma to_dec_nonempty [str_simps]: "to_dec n \<noteq> []"
  by (subst to_dec.simps) simp

lemma to_dec_no: "\<not> is_digit c \<Longrightarrow> c \<notin> set (to_dec n)"
  using to_dec_digits [of n] by (auto simp: list_all_iff)

lemma to_dec_eq_iff: "to_dec m = to_dec n \<longleftrightarrow> m = n"
  by (metis dec_value_to_dec)

subsection \<open>std::from_chars on an unsigned type\<close>

text \<open>
  \<^verbatim>\<open>from_chars\<close> takes the longest digit prefix, with no sign, blank or prefix accepted. No digit
  is \<^verbatim>\<open>invalid_argument\<close>; a value the type cannot hold is \<^verbatim>\<open>result_out_of_range\<close>. The result
  carries the text after the digits, which is what the code compares with the end. The width of
  the type is the bound \<open>limit\<close>.
\<close>

datatype errc = invalid_argument | result_out_of_range

definition from_chars :: "nat \<Rightarrow> string \<Rightarrow> errc + (nat \<times> string)" where
  "from_chars limit s =
     (let ds = takeWhile is_digit s
      in if ds = [] then Inl invalid_argument
         else if limit \<le> dec_value ds then Inl result_out_of_range
         else Inr (dec_value ds, dropWhile is_digit s))"

lemma all_digits_split:
  "list_all is_digit s \<Longrightarrow> takeWhile is_digit s = s \<and> dropWhile is_digit s = []"
  by (induction s) auto

lemma from_chars_to_dec [str_simps]:
  "n < limit \<Longrightarrow> from_chars limit (to_dec n) = Inr (n, [])"
proof -
  note tw = all_digits_split [OF to_dec_digits [of n], THEN conjunct1]
  note dw = all_digits_split [OF to_dec_digits [of n], THEN conjunct2]
  show "n < limit \<Longrightarrow> ?thesis"
    unfolding from_chars_def Let_def tw dw by (simp add: str_simps)
qed

interpretation decimal: codec to_dec "\<lambda>s. case from_chars (2 ^ 64) s of Inr (n, []) \<Rightarrow> Some n | _ \<Rightarrow> None"
  "\<lambda>n. n < 2 ^ 64"
  by unfold_locales (simp add: from_chars_to_dec)

lemma from_chars_Inr_iff:
  "from_chars limit s = Inr (n, []) \<longleftrightarrow>
     s \<noteq> [] \<and> list_all is_digit s \<and> dec_value s = n \<and> n < limit"
proof (cases "list_all is_digit s")
  case True
  note tw = all_digits_split [OF True, THEN conjunct1]
  note dw = all_digits_split [OF True, THEN conjunct2]
  show ?thesis unfolding from_chars_def Let_def tw dw using True by auto
next
  case False
  then have "dropWhile is_digit s \<noteq> []" by (simp add: list_all_iff)
  then show ?thesis using False by (auto simp: from_chars_def Let_def)
qed

end
