(* ===== verification/Url.thy ===== *)
theory Url
  imports Prelude
begin

text \<open>
  The percent-encoding helpers of \<^verbatim>\<open>src/server/Util.hpp\<close>: \<open>FromHex\<close>, \<open>UrlDecode\<close> and
  \<open>UrlEncode\<close>. An out-parameter is part of the result: \<open>UrlDecode\<close> returns its
  \<^verbatim>\<open>bool\<close> and what it leaves in \<^verbatim>\<open>*output\<close>, also on the failing branches. The null
  checks on out-parameters have no counterpart: no caller passes a null pointer.
\<close>

subsection \<open>FromHex\<close>

definition FromHex :: "char \<Rightarrow> nat option" where
  "FromHex input =
     (if CHR ''A'' \<le> input \<and> input \<le> CHR ''F'' then Some (ord input - ord (CHR ''A'') + 10)
      else if CHR ''a'' \<le> input \<and> input \<le> CHR ''f'' then Some (ord input - ord (CHR ''a'') + 10)
      else if CHR ''0'' \<le> input \<and> input \<le> CHR ''9'' then Some (ord input - ord (CHR ''0''))
      else None)"

lemma FromHex_less: "FromHex c = Some n \<Longrightarrow> n < 16"
  by (auto simp: FromHex_def less_eq_char_def split: if_splits)

subsection \<open>UrlDecode\<close>

fun UrlDecode_loop :: "string \<Rightarrow> string \<Rightarrow> bool \<times> string" where
  "UrlDecode_loop output [] = (True, output)"
| "UrlDecode_loop output (c # cs) =
     (if c \<noteq> CHR ''%'' then UrlDecode_loop (output @ [c]) cs
      else case cs of
        h # l # rest \<Rightarrow>
          (case (FromHex h, FromHex l) of
             (Some high, Some low) \<Rightarrow>
               (let decoded = char_of (high * 16 + low)
                in if decoded = NUL then (False, output)
                   else UrlDecode_loop (output @ [decoded]) rest)
           | _ \<Rightarrow> (False, output))
      | _ \<Rightarrow> (False, output))"

definition UrlDecode :: "string \<Rightarrow> bool \<times> string" where
  "UrlDecode input = UrlDecode_loop [] input"

subsection \<open>UrlEncode\<close>

definition hex_upper :: string where
  "hex_upper = ''0123456789ABCDEF''"

definition unreserved :: "char \<Rightarrow> bool" where
  "unreserved ch \<longleftrightarrow>
     CHR ''A'' \<le> ch \<and> ch \<le> CHR ''Z'' \<or> CHR ''a'' \<le> ch \<and> ch \<le> CHR ''z'' \<or>
     CHR ''0'' \<le> ch \<and> ch \<le> CHR ''9'' \<or> ch = CHR ''-'' \<or> ch = CHR ''_'' \<or> ch = CHR ''.'' \<or>
     ch = CHR ''~''"

fun UrlEncode :: "string \<Rightarrow> bool \<Rightarrow> string" where
  "UrlEncode [] preserve_slash = []"
| "UrlEncode (ch # rest) preserve_slash =
     (if unreserved ch \<or> preserve_slash \<and> ch = CHR ''/'' then [ch]
      else [CHR ''%'', hex_upper ! drop_bit 4 (ord ch), hex_upper ! (ord ch AND 15)]) @
     UrlEncode rest preserve_slash"

subsection \<open>The decoder undoes the encoder\<close>

lemma FromHex_hex_upper [codec_simps]: "n < 16 \<Longrightarrow> FromHex (hex_upper ! n) = Some n"
proof -
  have "\<forall>n<16. FromHex (hex_upper ! n) = Some n"
    unfolding all_less_16 by code_simp
  then show "n < 16 \<Longrightarrow> ?thesis" by simp
qed

lemma unreserved_not_percent: "unreserved c \<Longrightarrow> c \<noteq> CHR ''%''"
  by (auto simp: unreserved_def less_eq_char_def)

lemma unreserved_not_NUL: "unreserved c \<Longrightarrow> c \<noteq> NUL"
  by (auto simp: unreserved_def less_eq_char_def)

lemma UrlDecode_loop_escaped [codec_simps]:
  "UrlDecode_loop out (CHR ''%'' # hex_upper ! drop_bit 4 (ord c) # hex_upper ! (ord c AND 15) # rest) =
     (if c = NUL then (False, out) else UrlDecode_loop (out @ [c]) rest)"
proof -
  have "ord c div 16 < 16" by (simp add: less_mult_imp_div_less)
  moreover have "char_of (ord c div 16 * 16 + ord c mod 16) = c" by simp
  ultimately show ?thesis
    by (simp add: codec_simps byte_simps Let_def del: div_mult_mod_eq)
qed

lemma UrlDecode_loop_encode:
  "UrlDecode_loop out (UrlEncode s p) =
     (if NUL \<in> set s then (False, out @ takeWhile (\<lambda>c. c \<noteq> NUL) s) else (True, out @ s))"
proof (induction s arbitrary: out)
  case Nil
  show ?case by simp
next
  case (Cons c s)
  show ?case
  proof (cases "unreserved c \<or> p \<and> c = CHR ''/''")
    case True
    then have "c \<noteq> CHR ''%''" and "c \<noteq> NUL"
      by (auto dest: unreserved_not_percent unreserved_not_NUL)
    with True show ?thesis by (simp add: Cons.IH)
  next
    case False
    then show ?thesis
      by (simp only: UrlEncode.simps if_False append.simps UrlDecode_loop_escaped Cons.IH)
         simp
  qed
qed

subsection \<open>What the encoder emits\<close>

text \<open>
  The bytes an encoded string may hold: the unreserved ones, the escape sign, and \<^verbatim>\<open>/\<close> where
  the caller keeps slashes. None of them ends a header line or an HTML attribute.
\<close>

definition url_safe :: "bool \<Rightarrow> char \<Rightarrow> bool" where
  "url_safe preserve_slash c \<longleftrightarrow>
     unreserved c \<or> c = CHR ''%'' \<or> preserve_slash \<and> c = CHR ''/''"

lemma hex_upper_unreserved: "n < 16 \<Longrightarrow> unreserved (hex_upper ! n)"
proof -
  have "\<forall>n<16. unreserved (hex_upper ! n)"
    unfolding all_less_16 by code_simp
  then show "n < 16 \<Longrightarrow> ?thesis" by simp
qed

lemma UrlEncode_safe: "c \<in> set (UrlEncode s p) \<Longrightarrow> url_safe p c"
proof (induction s)
  case (Cons x s)
  have "ord x div 16 < 16" by (simp add: less_mult_imp_div_less)
  with Cons show ?case
    by (auto simp: url_safe_def byte_simps hex_upper_unreserved split: if_splits)
qed simp

definition special_bytes :: "char set" where
  "special_bytes = {CR, LF, NUL, CHR 0x22, CHR 0x27, CHR ''<'', CHR ''>'', CHR ''&'', CHR '' '', CHR '';''}"

lemma url_safe_not_special: "url_safe p c \<Longrightarrow> c \<notin> special_bytes"
  by (auto simp: special_bytes_def url_safe_def unreserved_def less_eq_char_def)

lemma length_UrlEncode: "length s \<le> length (UrlEncode s p) \<and> length (UrlEncode s p) \<le> 3 * length s"
  by (induction s) auto

subsection \<open>What the decoder accepts\<close>

text \<open>
  The accepted texts as a grammar: plain bytes, and \<^verbatim>\<open>%\<close> followed by two hexadecimal digits
  that do not spell the NUL byte. \<open>pct_text t s\<close> says that \<open>t\<close> spells \<open>s\<close>.
\<close>

inductive pct_text :: "string \<Rightarrow> string \<Rightarrow> bool" where
  pct_nil: "pct_text [] []"
| pct_plain: "c \<noteq> CHR ''%'' \<Longrightarrow> pct_text t s \<Longrightarrow> pct_text (c # t) (c # s)"
| pct_escape: "FromHex h = Some a \<Longrightarrow> FromHex l = Some b \<Longrightarrow> c = char_of (a * 16 + b) \<Longrightarrow> c \<noteq> NUL \<Longrightarrow>
     pct_text t s \<Longrightarrow> pct_text (CHR ''%'' # h # l # t) (c # s)"

lemma pct_text_decodes: "pct_text t s \<Longrightarrow> UrlDecode_loop out t = (True, out @ s)"
  by (induction arbitrary: out rule: pct_text.induct) (auto simp: Let_def)

lemma decoded_pct_text: "UrlDecode_loop out t = (True, r) \<Longrightarrow> \<exists>s. r = out @ s \<and> pct_text t s"
proof (induction out t arbitrary: r rule: UrlDecode_loop.induct)
  case (1 out)
  then show ?case by (auto intro: pct_text.intros)
next
  case (2 out c cs)
  show ?case
  proof (cases "c = CHR ''%''")
    case False
    with "2.prems" "2.IH"(1) obtain s where "r = (out @ [c]) @ s" "pct_text cs s"
      by fastforce
    with False show ?thesis by (auto intro: pct_text.intros)
  next
    case True
    from True "2.prems" obtain h l rest a b where
      cs: "cs = h # l # rest" and hex: "FromHex h = Some a" "FromHex l = Some b"
      and nz: "char_of (a * 16 + b) \<noteq> NUL"
      and rec: "UrlDecode_loop (out @ [char_of (a * 16 + b)]) rest = (True, r)"
      by (auto simp: Let_def split: list.splits option.splits if_splits)
    from "2.IH"(2) [OF _ cs refl refl hex refl nz rec] True
    obtain s where "r = (out @ [char_of (a * 16 + b)]) @ s" "pct_text rest s" by auto
    with True cs hex nz show ?thesis by (auto intro: pct_escape)
  qed
qed

lemma UrlDecode_iff_pct_text: "UrlDecode t = (True, s) \<longleftrightarrow> pct_text t s"
  by (auto simp: UrlDecode_def pct_text_decodes dest: decoded_pct_text)

lemma pct_text_NUL: "pct_text t s \<Longrightarrow> NUL \<notin> set t \<Longrightarrow> NUL \<notin> set s"
  by (induction rule: pct_text.induct) auto

lemma pct_text_length: "pct_text t s \<Longrightarrow> length s \<le> length t"
  by (induction rule: pct_text.induct) auto

lemma UrlDecode_no_NUL: "UrlDecode t = (True, s) \<Longrightarrow> NUL \<notin> set t \<Longrightarrow> NUL \<notin> set s"
  using UrlDecode_iff_pct_text pct_text_NUL by blast

subsection \<open>The encoding as a codec\<close>

definition url_decoded :: "string \<Rightarrow> string option" where
  "url_decoded t = (case UrlDecode t of (ok, out) \<Rightarrow> if ok then Some out else None)"

interpretation url: codec "\<lambda>s. UrlEncode s p" url_decoded "\<lambda>s. NUL \<notin> set s" for p
  by unfold_locales (simp add: url_decoded_def UrlDecode_def UrlDecode_loop_encode)

subsection \<open>Properties\<close>

text \<open>C39. Decoding an encoded string gives the string back, with or without slashes kept, unless
  it holds a NUL byte; then the decoder refuses it, with the bytes before the NUL as output.\<close>

theorem url_decode_encode:
  "UrlDecode (UrlEncode s p) =
     (if NUL \<in> set s then (False, takeWhile (\<lambda>c. c \<noteq> NUL) s) else (True, s))"
  by (simp add: UrlDecode_def UrlDecode_loop_encode)

text \<open>An encoded string holds only unreserved bytes, escape signs and, where slashes are kept,
  slashes: it holds no control byte, quote, angle bracket, ampersand or semicolon, so it can be put
  into a header value or an HTML attribute as it is.\<close>

theorem url_encode_alphabet:
  "set (UrlEncode s p) \<subseteq> Collect (url_safe p) \<and>
   set (UrlEncode s p) \<inter> special_bytes = {}"
proof
  show "set (UrlEncode s p) \<subseteq> Collect (url_safe p)"
    by (auto dest: UrlEncode_safe)
  show "set (UrlEncode s p) \<inter> special_bytes = {}"
    by (auto dest: UrlEncode_safe url_safe_not_special)
qed

text \<open>The decoder accepts exactly the texts of the percent grammar, and its output is what the
  text spells.\<close>

theorem url_decode_grammar: "UrlDecode t = (True, s) \<longleftrightarrow> pct_text t s"
  by (rule UrlDecode_iff_pct_text)

end
