(* ===== verification/Range.thy ===== *)
theory Range
  imports Cpp_String
begin

text \<open>
  \<^verbatim>\<open>src/server/Range.hpp\<close>: the parser of the HTTP \<^verbatim>\<open>Range\<close> header. All quantities are
  \<^verbatim>\<open>uint64_t\<close> in the code and \<^typ>\<open>u64\<close> here, so every subtraction and the final
  \<open>end - start + 1\<close> are the wrapping ones; that none of them wraps is proved, not assumed.
  The function is cut at its two accepting branches, \<open>suffix_range\<close> and \<open>explicit_range\<close>.
\<close>

datatype RangeStatus = IGNORE | PARTIAL | UNSATISFIABLE

record ByteRange =
  range_status :: RangeStatus
  range_offset :: u64
  range_length :: u64

definition ByteRange_default :: ByteRange where
  "ByteRange_default = \<lparr>range_status = IGNORE, range_offset = 0, range_length = 0\<rparr>"

definition ParseUnsigned :: "string \<Rightarrow> u64 option" where
  "ParseUnsigned txt =
     (if txt = [] then None
      else case from_chars (2 ^ 64) txt of
        Inl _ \<Rightarrow> None
      | Inr (v, rest) \<Rightarrow> if rest = [] then Some (of_nat v) else None)"

definition suffix_range :: "u64 \<Rightarrow> u64 \<Rightarrow> ByteRange" where
  "suffix_range suffix_length file_size =
     (if file_size = 0 \<or> suffix_length = 0
      then ByteRange_default\<lparr>range_status := UNSATISFIABLE\<rparr>
      else let n = (if suffix_length \<ge> file_size then file_size else suffix_length)
           in ByteRange_default\<lparr>range_status := PARTIAL, range_length := n,
                                range_offset := file_size - n\<rparr>)"

definition explicit_range :: "u64 \<Rightarrow> u64 \<Rightarrow> u64 \<Rightarrow> ByteRange" where
  "explicit_range start end_v file_size =
     (if start > end_v then ByteRange_default\<lparr>range_status := UNSATISFIABLE\<rparr>
      else let last = (if end_v \<ge> file_size then file_size - 1 else end_v)
           in ByteRange_default\<lparr>range_status := PARTIAL, range_offset := start,
                                range_length := last - start + 1\<rparr>)"

definition resolve_range :: "string \<Rightarrow> string \<Rightarrow> u64 \<Rightarrow> ByteRange" where
  "resolve_range start_text end_text file_size =
     (if start_text = [] then
        (case ParseUnsigned end_text of
           None \<Rightarrow> ByteRange_default
         | Some suffix_length \<Rightarrow> suffix_range suffix_length file_size)
      else
        (case ParseUnsigned start_text of
           None \<Rightarrow> ByteRange_default
         | Some start \<Rightarrow>
             if file_size = 0 \<or> start \<ge> file_size
             then ByteRange_default\<lparr>range_status := UNSATISFIABLE\<rparr>
             else if end_text = [] then explicit_range start (file_size - 1) file_size
             else (case ParseUnsigned end_text of
                     None \<Rightarrow> ByteRange_default
                   | Some end_v \<Rightarrow> explicit_range start end_v file_size)))"

definition bytes_prefix :: string where
  "bytes_prefix = ''bytes=''"

definition ParseRangeHeader :: "string \<Rightarrow> u64 \<Rightarrow> ByteRange" where
  "ParseRangeHeader header file_size =
     (if \<not> starts_with header bytes_prefix then ByteRange_default
      else let txt = drop (length bytes_prefix) header in
        if txt = [] \<or> find_char (CHR '','') txt 0 \<noteq> None then ByteRange_default
        else case find_char (CHR ''-'') txt 0 of
          None \<Rightarrow> ByteRange_default
        | Some dash \<Rightarrow>
            if find_char (CHR ''-'') txt (dash + 1) \<noteq> None then ByteRange_default
            else resolve_range (take dash txt) (drop (dash + 1) txt) file_size)"

subsection \<open>The result read as numbers\<close>

definition range_view :: "ByteRange \<Rightarrow> RangeStatus \<times> nat \<times> nat" where
  "range_view r = (range_status r, unat (range_offset r), unat (range_length r))"

lemma range_view_default [simp]:
  "range_view ByteRange_default = (IGNORE, 0, 0)"
  "range_view (ByteRange_default\<lparr>range_status := s\<rparr>) = (s, 0, 0)"
  by (simp_all add: range_view_def ByteRange_default_def)

lemma clipped_end:
  fixes b n :: u64
  assumes "n \<noteq> 0"
  shows "unat (if b \<ge> n then n - 1 else b) = min (unat b) (unat n - 1)"
  using assms unat_pred_u64 [OF assms] by (auto simp: word_le_nat_alt min_def unat_gt_0)

lemma range_view_suffix:
  "range_view (suffix_range m n) =
     (if n = 0 \<or> m = 0 then (UNSATISFIABLE, 0, 0)
      else (PARTIAL, unat n - min (unat m) (unat n), min (unat m) (unat n)))"
proof (cases "n = 0 \<or> m = 0")
  case False
  define k where "k = (if m \<ge> n then n else m)"
  have "k \<le> n" and "unat k = min (unat m) (unat n)"
    by (auto simp: k_def word_le_nat_alt)
  then have "unat (n - k) = unat n - min (unat m) (unat n)" by (simp add: unat_diff_u64)
  with False \<open>unat k = _\<close> show ?thesis
    by (simp add: suffix_range_def Let_def ByteRange_default_def range_view_def flip: k_def)
qed (auto simp: suffix_range_def)

lemma range_view_explicit:
  assumes "a < n"
  shows "range_view (explicit_range a b n) =
     (if b < a then (UNSATISFIABLE, 0, 0)
      else (PARTIAL, unat a, min (unat b) (unat n - 1) - unat a + 1))"
proof (cases "b < a")
  case False
  define l where "l = (if b \<ge> n then n - 1 else b)"
  have n: "n \<noteq> 0" using assms by auto
  have l: "unat l = min (unat b) (unat n - 1)" using clipped_end [OF n, of b] by (simp add: l_def)
  moreover from False assms have ab: "unat a \<le> unat b" and an: "unat a < unat n"
    by (simp_all add: word_less_nat_alt word_le_nat_alt not_less)
  ultimately have al: "a \<le> l" by (simp add: word_le_nat_alt)
  have "unat (l - a) + unat (1 :: u64) < 2 ^ 64"
    using unat_u64_less [of n] an by (simp add: unat_diff_u64 [OF al] l)
  from unat_add_u64 [OF this] have "unat (l - a + 1) = unat l - unat a + 1"
    by (simp add: unat_diff_u64 [OF al])
  with False show ?thesis
    by (simp add: explicit_range_def Let_def ByteRange_default_def range_view_def l flip: l_def)
qed (simp add: explicit_range_def)

subsection \<open>Every accepted range lies in the file\<close>

definition range_within :: "nat \<Rightarrow> RangeStatus \<times> nat \<times> nat \<Rightarrow> bool" where
  "range_within file_size v \<longleftrightarrow>
     (case v of (st, off, len) \<Rightarrow> st = PARTIAL \<longrightarrow> 0 < len \<and> off + len \<le> file_size)"

lemma range_within_not_partial [simp]: "st \<noteq> PARTIAL \<Longrightarrow> range_within k (st, x, y)"
  by (simp add: range_within_def)

lemma resolve_range_within: "range_within (unat n) (range_view (resolve_range s e n))"
proof -
  have suffix: "range_within (unat n) (range_view (suffix_range m n))" for m n
    by (auto simp: range_view_suffix range_within_def unat_gt_0)
  have explicit: "range_within (unat n) (range_view (explicit_range a b n))" if "a < n" for a b n
    using that by (auto simp: range_view_explicit range_within_def word_less_nat_alt)
  show ?thesis
    using suffix [where n = n] explicit [where n = n]
    by (cases "n = 0") (auto simp: resolve_range_def not_le split: option.splits)
qed

lemma ParseRangeHeader_within: "range_within (unat n) (range_view (ParseRangeHeader h n))"
  using resolve_range_within
  by (simp add: ParseRangeHeader_def Let_def split: option.splits)

subsection \<open>The forms of RFC 7233 and their meaning\<close>

datatype byte_spec = From_To nat nat | From nat | Last nat

fun render_spec :: "byte_spec \<Rightarrow> string" where
  "render_spec (From_To a b) = bytes_prefix @ to_dec a @ ''-'' @ to_dec b"
| "render_spec (From a) = bytes_prefix @ to_dec a @ ''-''"
| "render_spec (Last n) = bytes_prefix @ ''-'' @ to_dec n"

fun spec_numbers :: "byte_spec \<Rightarrow> nat list" where
  "spec_numbers (From_To a b) = [a, b]"
| "spec_numbers (From a) = [a]"
| "spec_numbers (Last n) = [n]"

fun range_meaning :: "byte_spec \<Rightarrow> nat \<Rightarrow> RangeStatus \<times> nat \<times> nat" where
  "range_meaning (From_To a b) fsize =
     (if fsize \<le> a \<or> b < a then (UNSATISFIABLE, 0, 0)
      else (PARTIAL, a, min b (fsize - 1) - a + 1))"
| "range_meaning (From a) fsize =
     (if fsize \<le> a then (UNSATISFIABLE, 0, 0) else (PARTIAL, a, fsize - a))"
| "range_meaning (Last n) fsize =
     (if fsize = 0 \<or> n = 0 then (UNSATISFIABLE, 0, 0)
      else (PARTIAL, fsize - min n fsize, min n fsize))"

lemma ParseUnsigned_to_dec [str_simps]: "n < 2 ^ 64 \<Longrightarrow> ParseUnsigned (to_dec n) = Some (of_nat n)"
  by (simp add: ParseUnsigned_def str_simps)

lemma ParseRangeHeader_cut:
  assumes "CHR '','' \<notin> set (s @ e)" and "CHR ''-'' \<notin> set (s @ e)"
  shows "ParseRangeHeader (bytes_prefix @ s @ ''-'' @ e) n = resolve_range s e n"
proof -
  have "find_char (CHR '','') (s @ CHR ''-'' # e) 0 = None"
    using assms(1) by (simp add: find_char_None)
  moreover have "find_char (CHR ''-'') (s @ CHR ''-'' # e) 0 = Some (length s)"
    using assms(2) by (simp add: str_simps)
  moreover have "find_char (CHR ''-'') (s @ CHR ''-'' # e) (length s + 1) = None"
    using assms(2) by (simp add: find_char_None)
  ultimately show ?thesis by (simp add: ParseRangeHeader_def Let_def)
qed

lemma to_dec_no_punct: "CHR '','' \<notin> set (to_dec n)" "CHR ''-'' \<notin> set (to_dec n)"
  by (auto intro!: to_dec_no simp: is_digit_def less_eq_char_def)

lemma of_nat_ge_u64: "a < 2 ^ 64 \<Longrightarrow> (n :: u64) \<le> of_nat a \<longleftrightarrow> unat n \<le> a"
  by (simp add: word_le_nat_alt unat_of_nat_u64)

lemma of_nat_eq_0_u64: "a < 2 ^ 64 \<Longrightarrow> (of_nat a :: u64) = 0 \<longleftrightarrow> a = 0"
  by (metis unat_of_nat_u64 unat_eq_zero of_nat_0)

lemma resolve_spec:
  assumes "a < 2 ^ 64" and "b < 2 ^ 64"
  shows "range_view (resolve_range (to_dec a) (to_dec b) n) = range_meaning (From_To a b) (unat n)"
    and "range_view (resolve_range (to_dec a) [] n) = range_meaning (From a) (unat n)"
    and "range_view (resolve_range [] (to_dec b) n) = range_meaning (Last b) (unat n)"
  using assms
  by (auto simp: resolve_range_def str_simps of_nat_ge_u64 range_view_explicit range_view_suffix
        word_less_nat_alt unat_of_nat_u64 unat_pred_u64 unat_eq_0 of_nat_eq_0_u64)

subsection \<open>What is recognised\<close>

text \<open>
  A header that is not ignored is one range: the prefix, digits, one dash, digits, and not both
  parts empty. Leading zeros are the only freedom it has over \<open>render_spec\<close>.
\<close>

lemma ParseUnsigned_Some:
  "ParseUnsigned t = Some v \<Longrightarrow> t \<noteq> [] \<and> list_all is_digit t \<and> dec_value t < 2 ^ 64 \<and> v = of_nat (dec_value t)"
proof -
  assume a: "ParseUnsigned t = Some v"
  then obtain k where "from_chars (2 ^ 64) t = Inr (k, [])" and "v = of_nat k"
    unfolding ParseUnsigned_def by (auto split: if_split_asm sum.split_asm prod.split_asm)
  then show "t \<noteq> [] \<and> list_all is_digit t \<and> dec_value t < 2 ^ 64 \<and> v = of_nat (dec_value t)"
    unfolding from_chars_Inr_iff by blast
qed

lemma resolve_recognised:
  assumes "range_status (resolve_range s e n) \<noteq> IGNORE"
  shows "list_all is_digit s \<and> (s = [] \<longrightarrow> e \<noteq> [] \<and> list_all is_digit e)"
  using assms
  by (auto simp: resolve_range_def ByteRange_default_def dest: ParseUnsigned_Some split: if_splits option.splits)

lemma recognised_form:
  assumes "range_status (ParseRangeHeader h n) \<noteq> IGNORE"
  shows "\<exists>s e. h = bytes_prefix @ s @ ''-'' @ e \<and> list_all is_digit s \<and> (s = [] \<longrightarrow> e \<noteq> [] \<and> list_all is_digit e)"
proof -
  from assms obtain t where h: "h = bytes_prefix @ t"
    by (auto simp: ParseRangeHeader_def starts_with_iff ByteRange_default_def split: if_splits)
  with assms obtain d where d: "find_char (CHR ''-'') t 0 = Some d"
    and st: "range_status (resolve_range (take d t) (drop (d + 1) t) n) \<noteq> IGNORE"
    by (auto simp: ParseRangeHeader_def Let_def ByteRange_default_def split: if_splits option.splits)
  from d obtain s e where t: "t = s @ CHR ''-'' # e" and "d = length s"
    by (auto simp: find_char_0_Some)
  with st have "range_status (resolve_range s e n) \<noteq> IGNORE" by simp
  from resolve_recognised [OF this] h t show ?thesis by auto
qed

subsection \<open>Properties\<close>

text \<open>Whatever the header says, an accepted range is non-empty and lies inside the file: no
  subtraction or addition of the parser wraps around.\<close>

theorem range_in_file: "range_within (unat file_size) (range_view (ParseRangeHeader header file_size))"
  by (rule ParseRangeHeader_within)

text \<open>C36. A header in one of the three forms of RFC 7233, with numbers that fit 64 bits, is read as
  the range it means for every file size: clipped at the end of the file, the last bytes for a
  suffix, unsatisfiable when it starts beyond the end, is reversed or asks for no byte.\<close>

theorem range_means_spec:
  assumes "list_all (\<lambda>k. k < 2 ^ 64) (spec_numbers r)"
  shows "range_view (ParseRangeHeader (render_spec r) file_size) = range_meaning r (unat file_size)"
proof (cases r)
  case (From_To a b)
  with assms show ?thesis
    using ParseRangeHeader_cut [of "to_dec a" "to_dec b"] by (simp add: to_dec_no_punct resolve_spec)
next
  case (From a)
  with assms show ?thesis
    using ParseRangeHeader_cut [of "to_dec a" "[]"] resolve_spec(2) [of a 0] by (simp add: to_dec_no_punct)
next
  case (Last b)
  with assms show ?thesis
    using ParseRangeHeader_cut [of "[]" "to_dec b"] resolve_spec(3) [of 0 b] by (simp add: to_dec_no_punct)
qed

theorem range_means_spec_witness:
  "range_view (ParseRangeHeader (render_spec (From_To 90 200)) 100) = (PARTIAL, 90, 10) \<and>
   range_view (ParseRangeHeader (render_spec (Last 25)) 100) = (PARTIAL, 75, 25)"
  using range_means_spec [of "From_To 90 200" 100] range_means_spec [of "Last 25" 100] by simp

text \<open>Only a single range is ever acted on: a header that the parser does not ignore is the
  prefix, a run of digits, one dash and what follows it, where a missing start needs a numeric
  suffix length. Lists of ranges, other units, signs and blanks are ignored.\<close>

theorem range_recognised_form:
  assumes "range_status (ParseRangeHeader header file_size) \<noteq> IGNORE"
  shows "\<exists>s e. header = bytes_prefix @ s @ ''-'' @ e \<and> list_all is_digit s \<and>
               (s = [] \<longrightarrow> e \<noteq> [] \<and> list_all is_digit e)"
  using assms by (rule recognised_form)

theorem range_recognised_form_witness:
  "\<exists>s e. ''bytes=20-10'' = bytes_prefix @ s @ ''-'' @ e \<and> list_all is_digit s \<and>
         (s = [] \<longrightarrow> e \<noteq> [] \<and> list_all is_digit e)"
proof -
  have h: "''bytes=20-10'' = bytes_prefix @ to_dec 20 @ ''-'' @ to_dec 10"
    by code_simp
  have "range_view (ParseRangeHeader ''bytes=20-10'' 100) = range_meaning (From_To 20 10) 100"
    unfolding h using ParseRangeHeader_cut [of "to_dec 20" "to_dec 10" 100] resolve_spec(1) [of 20 10 100]
    by (simp add: to_dec_no_punct)
  then have "range_status (ParseRangeHeader ''bytes=20-10'' 100) \<noteq> IGNORE"
    by (simp add: range_view_def)
  then show ?thesis by (rule range_recognised_form)
qed

end
