(* ===== verification/Base64.thy ===== *)
theory Base64
  imports Cpp_String
begin

text \<open>
  \<^verbatim>\<open>src/server/base64.cpp\<close>: the Base64 encoder and decoder, and the strict validation the
  server puts in front of the decoder. A C++ exception is a value of \<open>base64_exn\<close>. Bytes are
  promoted to integers in the code and are natural numbers here; the bit operations are the
  code's own (\<open>AND\<close>, shifts), and a store into a \<^verbatim>\<open>char\<close> truncates (\<open>char_of\<close>). The
  index of the encoder is an \<^verbatim>\<open>unsigned int\<close> and is kept at 32 bits.
\<close>

datatype base64_exn = runtime_error | out_of_range

subsection \<open>Character tables and validation\<close>

definition base64_chars :: "bool \<Rightarrow> string" where
  "base64_chars url =
     ''ABCDEFGHIJKLMNOPQRSTUVWXYZ'' @ ''abcdefghijklmnopqrstuvwxyz'' @ ''0123456789'' @
     (if url then ''-_'' else ''+/'')"

definition pos_of_char :: "char \<Rightarrow> base64_exn + nat" where
  "pos_of_char chr =
     (if CHR ''A'' \<le> chr \<and> chr \<le> CHR ''Z'' then Inr (ord chr - ord (CHR ''A''))
      else if CHR ''a'' \<le> chr \<and> chr \<le> CHR ''z'' then
        Inr (ord chr - ord (CHR ''a'') + (ord (CHR ''Z'') - ord (CHR ''A'')) + 1)
      else if CHR ''0'' \<le> chr \<and> chr \<le> CHR ''9'' then
        Inr (ord chr - ord (CHR ''0'') + (ord (CHR ''Z'') - ord (CHR ''A'')) +
             (ord (CHR ''z'') - ord (CHR ''a'')) + 2)
      else if chr = CHR ''+'' \<or> chr = CHR ''-'' then Inr 62
      else if chr = CHR ''/'' \<or> chr = CHR ''_'' then Inr 63
      else Inl runtime_error)"

definition is_base64_data_char :: "char \<Rightarrow> bool" where
  "is_base64_data_char chr \<longleftrightarrow>
     CHR ''A'' \<le> chr \<and> chr \<le> CHR ''Z'' \<or> CHR ''a'' \<le> chr \<and> chr \<le> CHR ''z'' \<or>
     CHR ''0'' \<le> chr \<and> chr \<le> CHR ''9'' \<or> chr = CHR ''+'' \<or> chr = CHR ''-'' \<or>
     chr = CHR ''/'' \<or> chr = CHR ''_''"

text \<open>
  The padding loop walks from the end of the input; here it walks the reversed input. It stops
  with the number of padding characters, or with \<open>None\<close> where the code returns false because
  the two kinds of padding are mixed.
\<close>

fun padding_loop :: "string \<Rightarrow> char \<Rightarrow> nat \<Rightarrow> nat option" where
  "padding_loop [] padding_char padding = Some padding"
| "padding_loop (current # before) padding_char padding =
     (if current = CHR ''='' \<or> current = CHR ''.'' then
        (let pc = (if padding_char = NUL then current else padding_char)
         in if current \<noteq> pc then None else padding_loop before pc (Suc padding))
      else Some padding)"

definition is_valid_base64 :: "string \<Rightarrow> bool" where
  "is_valid_base64 input =
     (if input = [] then True
      else if length input mod 4 = 1 then False
      else case padding_loop (rev input) NUL 0 of
        None \<Rightarrow> False
      | Some padding \<Rightarrow>
          if padding > 2 \<or> padding \<noteq> 0 \<and> length input mod 4 \<noteq> 0 then False
          else list_all is_base64_data_char (take (length input - padding) input))"

subsection \<open>Encoding\<close>

definition encode_chunk :: "string \<Rightarrow> bool \<Rightarrow> u32 \<Rightarrow> string" where
  "encode_chunk bytes url pos =
     (let in_len = length bytes;
          b0 = ord (bytes ! unat pos);
          b1 = ord (bytes ! unat (pos + 1));
          b2 = ord (bytes ! unat (pos + 2));
          chars = base64_chars url;
          trailing_char = (if url then CHR ''.'' else CHR ''='')
      in [chars ! drop_bit 2 (b0 AND 0xfc)] @
         (if unat (pos + 1) < in_len then
            [chars ! (push_bit 4 (b0 AND 0x03) + drop_bit 4 (b1 AND 0xf0))] @
            (if unat (pos + 2) < in_len then
               [chars ! (push_bit 2 (b1 AND 0x0f) + drop_bit 6 (b2 AND 0xc0)),
                chars ! (b2 AND 0x3f)]
             else [chars ! push_bit 2 (b1 AND 0x0f), trailing_char])
          else [chars ! push_bit 4 (b0 AND 0x03), trailing_char, trailing_char]))"

partial_function (option) encode_loop :: "string \<Rightarrow> bool \<Rightarrow> u32 \<Rightarrow> string \<Rightarrow> string option" where
  "encode_loop bytes url pos ret =
     (if unat pos < length bytes
      then encode_loop bytes url (pos + 3) (ret @ encode_chunk bytes url pos)
      else Some ret)"

definition base64_encode :: "string \<Rightarrow> bool \<Rightarrow> string option" where
  "base64_encode s url = encode_loop s url 0 []"

subsection \<open>Decoding\<close>

definition at :: "string \<Rightarrow> nat \<Rightarrow> base64_exn + char" where
  "at s i = (if i < length s then Inr (s ! i) else Inl out_of_range)"

definition not_padding :: "char \<Rightarrow> bool" where
  "not_padding c \<longleftrightarrow> c \<noteq> CHR ''='' \<and> c \<noteq> CHR ''.''"

definition data_at :: "string \<Rightarrow> nat \<Rightarrow> char option" where
  "data_at s i = (if i < length s \<and> not_padding (s ! i) then Some (s ! i) else None)"

definition decode_chunk :: "string \<Rightarrow> nat \<Rightarrow> base64_exn + string" where
  "decode_chunk s pos =
     (case at s (pos + 1) of Inl e \<Rightarrow> Inl e | Inr c1 \<Rightarrow>
      case pos_of_char c1 of Inl e \<Rightarrow> Inl e | Inr p1 \<Rightarrow>
      case at s (pos + 0) of Inl e \<Rightarrow> Inl e | Inr c0 \<Rightarrow>
      case pos_of_char c0 of Inl e \<Rightarrow> Inl e | Inr p0 \<Rightarrow>
      let first = char_of (push_bit 2 p0 + drop_bit 4 (p1 AND 0x30)) in
      case data_at s (pos + 2) of None \<Rightarrow> Inr [first] | Some c2 \<Rightarrow>
      case pos_of_char c2 of Inl e \<Rightarrow> Inl e | Inr p2 \<Rightarrow>
      let second = char_of (push_bit 4 (p1 AND 0x0f) + drop_bit 2 (p2 AND 0x3c)) in
      case data_at s (pos + 3) of None \<Rightarrow> Inr [first, second] | Some c3 \<Rightarrow>
      case pos_of_char c3 of Inl e \<Rightarrow> Inl e | Inr p3 \<Rightarrow>
      Inr [first, second, char_of (push_bit 6 (p2 AND 0x03) + p3)])"

function decode_loop :: "string \<Rightarrow> nat \<Rightarrow> string \<Rightarrow> base64_exn + string" where
  "decode_loop s pos ret =
     (if pos < length s then
        (case decode_chunk s pos of
           Inl e \<Rightarrow> Inl e
         | Inr out \<Rightarrow> decode_loop s (pos + 4) (ret @ out))
      else Inr ret)"
  by pat_completeness auto
termination
  by (relation "measure (\<lambda>(s, pos, ret). length s - pos)") auto

declare decode_loop.simps [simp del]

text \<open>\<open>decode\<close> with \<open>remove_linebreaks\<close> decodes the text without its line feeds.\<close>

definition decode :: "string \<Rightarrow> bool \<Rightarrow> base64_exn + string" where
  "decode encoded_string remove_linebreaks =
     (if encoded_string = [] then Inr []
      else decode_loop
             (if remove_linebreaks then filter (\<lambda>c. c \<noteq> LF) encoded_string else encoded_string) 0 [])"

text \<open>The \<^verbatim>\<open>noexcept\<close> overload the server calls: its \<^verbatim>\<open>bool\<close> and the output string.\<close>

definition base64_decode :: "string \<Rightarrow> bool \<times> string" where
  "base64_decode s =
     (if \<not> is_valid_base64 s then (False, [])
      else case decode s False of Inr out \<Rightarrow> (True, out) | Inl _ \<Rightarrow> (False, []))"

subsection \<open>Line breaks (PEM and MIME)\<close>

text \<open>
  Each turn makes the text one byte longer and moves the position by \<open>distance + 1\<close>, so the
  loop ends for a positive distance only; with distance 0 it would never return (\<open>None\<close>).
\<close>

partial_function (option) break_loop :: "string \<Rightarrow> nat \<Rightarrow> nat \<Rightarrow> string option" where
  "break_loop str distance pos =
     (if pos < length str
      then break_loop (take pos str @ LF # drop pos str) distance (pos + (distance + 1))
      else Some str)"

definition insert_linebreaks :: "string \<Rightarrow> nat \<Rightarrow> string option" where
  "insert_linebreaks str distance = (if str = [] then Some [] else break_loop str distance distance)"

definition encode_with_line_breaks :: "nat \<Rightarrow> string \<Rightarrow> string option" where
  "encode_with_line_breaks line_length s =
     Option.bind (base64_encode s False) (\<lambda>t. insert_linebreaks t line_length)"

definition base64_encode_pem :: "string \<Rightarrow> string option" where
  "base64_encode_pem s = encode_with_line_breaks 64 s"

definition base64_encode_mime :: "string \<Rightarrow> string option" where
  "base64_encode_mime s = encode_with_line_breaks 76 s"

subsection \<open>The encoder by groups of three bytes\<close>

text \<open>The reference encoding: whole groups of three bytes, and the two padded ends.\<close>

fun enc3 :: "bool \<Rightarrow> string \<Rightarrow> string" where
  "enc3 url [] = []"
| "enc3 url [a] =
     [base64_chars url ! (ord a div 4), base64_chars url ! (ord a mod 4 * 16)] @
     (if url then ''..'' else ''=='')"
| "enc3 url [a, b] =
     [base64_chars url ! (ord a div 4), base64_chars url ! (ord a mod 4 * 16 + ord b div 16),
      base64_chars url ! (ord b mod 16 * 4)] @ (if url then ''.'' else ''='')"
| "enc3 url (a # b # c # rest) =
     [base64_chars url ! (ord a div 4), base64_chars url ! (ord a mod 4 * 16 + ord b div 16),
      base64_chars url ! (ord b mod 16 * 4 + ord c div 64), base64_chars url ! (ord c mod 64)] @
     enc3 url rest"

lemma mask_and:
  "(n::nat) AND 3 = n mod 4" "n AND 15 = n mod 16" "n AND 63 = n mod 64"
  using take_bit_eq_mask [of 2 n] take_bit_eq_mask [of 4 n] take_bit_eq_mask [of 6 n]
  by (simp_all add: mask_eq_exp_minus_1 take_bit_eq_mod)

lemma high_bits_and:
  "drop_bit 2 ((n::nat) AND 252) = n div 4 mod 64" "drop_bit 4 (n AND 240) = n div 16 mod 16"
  "drop_bit 6 (n AND 192) = n div 64 mod 4" "drop_bit 4 (n AND 48) = n div 16 mod 4"
  "drop_bit 2 (n AND 60) = n div 4 mod 16"
  unfolding drop_bit_and by (simp_all add: drop_bit_eq_div mask_and)

lemma high_bits_div:
  "((n::nat) AND 252) div 4 = n div 4 mod 64" "(n AND 240) div 16 = n div 16 mod 16"
  "(n AND 192) div 64 = n div 64 mod 4" "(n AND 48) div 16 = n div 16 mod 4"
  "(n AND 60) div 4 = n div 4 mod 16"
  using high_bits_and [of n] by (simp_all add: drop_bit_eq_div)

lemmas bit_steps = mask_and drop_bit_eq_div high_bits_div push_bit_eq_mult

lemma ord_div_mod [simp]:
  "ord c div 4 mod 64 = ord c div 4" "ord c div 16 mod 16 = ord c div 16" "ord c div 64 mod 4 = ord c div 64"
  using ord_less [of c] by (auto simp: less_mult_imp_div_less)

lemma unat_u32_step:
  assumes "unat (pos :: u32) + k < 2 ^ 32"
  shows "unat (pos + of_nat k) = unat pos + k"
  using assms by (simp add: unat_word_ariths unat_of_nat)

lemma encode_chunk_drop:
  assumes d: "drop (unat pos) bytes = x # xs" and len: "length bytes < 2 ^ 32"
  shows "encode_chunk bytes url pos = enc3 url (take 3 (x # xs))"
proof -
  have "length (drop (unat pos) bytes) = Suc (length xs)" by (simp add: d)
  then have l: "length bytes = unat pos + Suc (length xs)" by simp
  have nth: "bytes ! (unat pos + k) = (x # xs) ! k" for k
    using nth_drop [of "unat pos" bytes k] d l by simp
  have p1: "unat (pos + 1) = unat pos + 1"
    using unat_u32_step [of pos 1] l len by simp
  have p2: "unat (pos + 2) = unat pos + 2" if "xs \<noteq> []"
    using unat_u32_step [of pos 2] l len that by (cases xs) auto
  note facts = encode_chunk_def Let_def p1 bit_steps nth nth [of 0, simplified] nth [of 1, simplified]
    nth [of 2, simplified] l
  consider "xs = []" | y where "xs = [y]" | y z zs where "xs = y # z # zs"
    by (cases xs rule: remdups_adj.cases) auto
  then show ?thesis
  proof cases
    case 1
    then show ?thesis by (simp add: facts)
  next
    case 2
    then show ?thesis using p2 by (simp add: facts mult.commute)
  next
    case 3
    then show ?thesis using p2 by (simp add: facts mult.commute)
  qed
qed

lemma enc3_take_drop: "xs \<noteq> [] \<Longrightarrow> enc3 url xs = enc3 url (take 3 xs) @ enc3 url (drop 3 xs)"
  by (induction url xs rule: enc3.induct) (simp_all add: numeral_3_eq_3)

lemma encode_loop_enc3:
  assumes len: "length bytes < 2 ^ 32"
  shows "3 dvd unat pos \<Longrightarrow> unat pos \<le> length bytes + 2 \<Longrightarrow>
         encode_loop bytes url pos ret = Some (ret @ enc3 url (drop (unat pos) bytes))"
proof (induction "length bytes - unat pos" arbitrary: pos ret rule: less_induct)
  case less
  show ?case
  proof (cases "unat pos < length bytes")
    case False
    then show ?thesis by (simp add: encode_loop.simps [of bytes])
  next
    case True
    from less.prems(1) obtain k where k: "unat pos = 3 * k" by (rule dvdE)
    with True len have "3 * k < 4294967295" by simp
    then have "3 * k + 3 < 4294967296" by presburger
    with k have "unat pos + 3 < 2 ^ 32" by simp
    then have p3: "unat (pos + 3) = unat pos + 3" using unat_u32_step [of pos 3] by simp
    from True obtain x xs where d: "drop (unat pos) bytes = x # xs"
      by (cases "drop (unat pos) bytes") auto
    have "encode_loop bytes url (pos + 3) (ret @ encode_chunk bytes url pos) =
          Some ((ret @ encode_chunk bytes url pos) @ enc3 url (drop (unat (pos + 3)) bytes))"
      using True less.prems by (intro less.hyps) (simp_all add: p3)
    also have "drop (unat (pos + 3)) bytes = drop 3 (x # xs)"
      using drop_drop [of 3 "unat pos" bytes] by (simp add: p3 d add.commute)
    finally show ?thesis
      using True d encode_chunk_drop [OF d len] enc3_take_drop [of "x # xs" url]
      by (simp add: encode_loop.simps [of bytes url pos] del: enc3.simps)
  qed
qed

lemma base64_encode_enc3: "length s < 2 ^ 32 \<Longrightarrow> base64_encode s url = Some (enc3 url s)"
  by (simp add: base64_encode_def encode_loop_enc3)

text \<open>From 4 GiB on the 32-bit index wraps around below the length and the loop never ends.\<close>

lemma encode_loop_diverges:
  assumes "2 ^ 32 \<le> length bytes"
  shows "encode_loop bytes url pos ret = None"
proof (rule ccontr)
  assume "encode_loop bytes url pos ret \<noteq> None"
  then obtain r where "encode_loop bytes url pos ret = Some r" by blast
  moreover have "\<not> 2 ^ 32 \<le> length bytes"
  proof (rule encode_loop.raw_induct [where P = "\<lambda>bs u p a r. \<not> 2 ^ 32 \<le> length bs", OF _ calculation])
    fix f :: "string \<Rightarrow> bool \<Rightarrow> u32 \<Rightarrow> string \<Rightarrow> string option" and bs u p a r
    assume IH: "\<And>bs u p a r. f bs u p a = Some r \<Longrightarrow> \<not> 2 ^ 32 \<le> length bs"
      and eq: "(if unat p < length bs then f bs u (p + 3) (a @ encode_chunk bs u p) else Some a) = Some r"
    show "\<not> 2 ^ 32 \<le> length bs"
    proof
      assume big: "2 ^ 32 \<le> length bs"
      moreover have "unat p < 2 ^ 32" using unsigned_less [of p, where ?'a = nat] by simp
      ultimately have "f bs u (p + 3) (a @ encode_chunk bs u p) = Some r" using eq by simp
      from IH [OF this] big show False by simp
    qed
  qed
  ultimately show False using assms by simp
qed

subsection \<open>The decoder by groups of four characters\<close>

lemma at_drop: "at s (pos + k) = at (drop pos s) k"
  by (cases "pos \<le> length s") (auto simp: at_def less_diff_conv add.commute)

lemma data_at_drop: "data_at s (pos + k) = data_at (drop pos s) k"
  by (cases "pos \<le> length s") (auto simp: data_at_def less_diff_conv add.commute)

lemma decode_chunk_drop: "decode_chunk s pos = decode_chunk (drop pos s) 0"
  unfolding decode_chunk_def at_drop [of s pos] data_at_drop [of s pos] add_0 ..

text \<open>The loop as a recursion over the text that is left.\<close>

function dec_rest :: "string \<Rightarrow> base64_exn + string" where
  "dec_rest xs =
     (if xs = [] then Inr []
      else case decode_chunk xs 0 of
        Inl e \<Rightarrow> Inl e
      | Inr out \<Rightarrow> (case dec_rest (drop 4 xs) of Inl e \<Rightarrow> Inl e | Inr more \<Rightarrow> Inr (out @ more)))"
  by pat_completeness auto
termination
  by (relation "measure length") auto

declare dec_rest.simps [simp del]

lemma dec_rest_Nil [simp]: "dec_rest [] = Inr []"
  by (simp add: dec_rest.simps)

lemma decode_loop_rest:
  "decode_loop s pos ret =
     (case dec_rest (drop pos s) of Inl e \<Rightarrow> Inl e | Inr out \<Rightarrow> Inr (ret @ out))"
proof (induction s pos ret rule: decode_loop.induct)
  case (1 s pos ret)
  show ?case
  proof (cases "pos < length s")
    case False
    then show ?thesis by (simp add: decode_loop.simps [of s pos])
  next
    case True
    have "drop 4 (drop pos s) = drop (pos + 4) s" by (simp add: add.commute)
    with True "1.IH" show ?thesis
      by (auto simp: decode_loop.simps [of s pos] dec_rest.simps [of "drop pos s"]
            decode_chunk_drop [of s pos] simp del: drop_drop split: sum.split)
  qed
qed

lemma decode_dec_rest: "decode s False = dec_rest s"
  by (simp add: decode_def decode_loop_rest split: sum.split)

subsection \<open>The alphabet\<close>

lemma all_less_64: "(\<forall>n<(64::nat). P n) \<longleftrightarrow> (\<forall>n \<in> set [0..<64]. P n)"
  by auto

lemma alphabet:
  assumes "n < 64"
  shows "pos_of_char (base64_chars url ! n) = Inr n"
    and "is_base64_data_char (base64_chars url ! n)"
proof -
  have "\<forall>url. \<forall>n<64. pos_of_char (base64_chars url ! n) = Inr n \<and> is_base64_data_char (base64_chars url ! n)"
    unfolding all_less_64 by code_simp
  with assms show "pos_of_char (base64_chars url ! n) = Inr n"
    and "is_base64_data_char (base64_chars url ! n)" by simp_all
qed

lemma data_char_position: "is_base64_data_char c \<Longrightarrow> \<exists>n. pos_of_char c = Inr n"
  by (auto simp: is_base64_data_char_def pos_of_char_def)

lemma data_char_not_padding: "is_base64_data_char c \<Longrightarrow> not_padding c"
  by (auto simp: is_base64_data_char_def not_padding_def less_eq_char_def)

lemma not_padding_chars [simp]: "n < 64 \<Longrightarrow> not_padding (base64_chars url ! n)"
  by (simp add: alphabet data_char_not_padding)

subsection \<open>One group decoded\<close>

lemma decode_group4:
  assumes "pos_of_char c0 = Inr p0" "pos_of_char c1 = Inr p1" "pos_of_char c2 = Inr p2" "pos_of_char c3 = Inr p3"
    and "not_padding c2" "not_padding c3"
  shows "decode_chunk (c0 # c1 # c2 # c3 # rest) 0 =
    Inr [char_of (p0 * 4 + p1 div 16 mod 4), char_of (p1 mod 16 * 16 + p2 div 4 mod 16),
         char_of (p2 mod 4 * 64 + p3)]"
  using assms by (simp add: decode_chunk_def at_def data_at_def Let_def bit_steps)

lemma decode_group3:
  assumes "pos_of_char c0 = Inr p0" "pos_of_char c1 = Inr p1" "pos_of_char c2 = Inr p2"
    and "not_padding c2" "rest = [] \<or> \<not> not_padding (hd rest)"
  shows "decode_chunk (c0 # c1 # c2 # rest) 0 =
    Inr [char_of (p0 * 4 + p1 div 16 mod 4), char_of (p1 mod 16 * 16 + p2 div 4 mod 16)]"
  using assms by (cases rest) (simp_all add: decode_chunk_def at_def data_at_def Let_def bit_steps)

lemma decode_group2:
  assumes "pos_of_char c0 = Inr p0" "pos_of_char c1 = Inr p1" "rest = [] \<or> \<not> not_padding (hd rest)"
  shows "decode_chunk (c0 # c1 # rest) 0 = Inr [char_of (p0 * 4 + p1 div 16 mod 4)]"
  using assms by (cases rest) (simp_all add: decode_chunk_def at_def data_at_def Let_def bit_steps)

lemma decode_alphabet:
  assumes "n0 < 64" "n1 < 64"
  shows "\<not> not_padding pad \<Longrightarrow> decode_chunk (base64_chars url ! n0 # base64_chars url ! n1 # pad # rest) 0 =
      Inr [char_of (n0 * 4 + n1 div 16 mod 4)]"
    and "n2 < 64 \<Longrightarrow> \<not> not_padding pad \<Longrightarrow>
      decode_chunk (base64_chars url ! n0 # base64_chars url ! n1 # base64_chars url ! n2 # pad # rest) 0 =
      Inr [char_of (n0 * 4 + n1 div 16 mod 4), char_of (n1 mod 16 * 16 + n2 div 4 mod 16)]"
    and "n2 < 64 \<Longrightarrow> n3 < 64 \<Longrightarrow>
      decode_chunk (base64_chars url ! n0 # base64_chars url ! n1 # base64_chars url ! n2 #
                    base64_chars url ! n3 # rest) 0 =
      Inr [char_of (n0 * 4 + n1 div 16 mod 4), char_of (n1 mod 16 * 16 + n2 div 4 mod 16),
           char_of (n2 mod 4 * 64 + n3)]"
  by (rule decode_group2 decode_group3 decode_group4; use assms in \<open>simp add: alphabet\<close>)+

lemma dec_rest_group:
  "decode_chunk (c # cs) 0 = Inr out \<Longrightarrow>
   dec_rest (c # cs) = (case dec_rest (drop 4 (c # cs)) of Inl e \<Rightarrow> Inl e | Inr more \<Rightarrow> Inr (out @ more))"
  by (simp add: dec_rest.simps [of "c # cs"])

subsection \<open>Round trip\<close>

lemma shifted_digits:
  "(u::nat) < 16 \<Longrightarrow> (y * 16 + u) div 16 = y" "u < 16 \<Longrightarrow> (y * 16 + u) mod 16 = u"
  "w < 4 \<Longrightarrow> (v * 4 + w) div 4 = v" "(w::nat) < 4 \<Longrightarrow> (v * 4 + w) mod 4 = w"
  by simp_all

lemma byte_parts:
  "ord c div 4 < 64" "ord c div 16 < 16" "ord c div 64 < 4" "ord c mod 64 < 64"
  using ord_less [of c] by (simp_all add: less_mult_imp_div_less)

lemma sextets:
  "ord a mod 4 * 16 + ord b div 16 < 64" "ord b mod 16 * 4 + ord c div 64 < 64"
  "ord a mod 4 * 16 < 64" "ord b mod 16 * 4 < 64"
proof -
  have "ord a mod 4 < 4" "ord b mod 16 < 16" by simp_all
  with byte_parts [of b] byte_parts [of c]
  show "ord a mod 4 * 16 + ord b div 16 < 64" "ord b mod 16 * 4 + ord c div 64 < 64"
    "ord a mod 4 * 16 < 64" "ord b mod 16 * 4 < 64" by linarith+
qed

lemmas group_simps =
  shifted_digits(1,2) [OF byte_parts(2)] shifted_digits(3,4) [OF byte_parts(3)] byte_parts sextets

lemma dec_rest_enc3: "dec_rest (enc3 url s) = Inr s"
proof (induction url s rule: enc3.induct)
  case (1 url)
  then show ?case by simp
next
  case (2 url a)
  have "decode_chunk (enc3 url [a]) 0 = Inr [a]"
    by (simp add: decode_alphabet group_simps not_padding_def)
  then show ?case by (simp add: dec_rest_group)
next
  case (3 url a b)
  have "decode_chunk (enc3 url [a, b]) 0 = Inr [a, b]"
    by (simp add: decode_alphabet group_simps not_padding_def)
  then show ?case by (simp add: dec_rest_group)
next
  case (4 url a b c rest)
  have "decode_chunk (enc3 url (a # b # c # rest)) 0 = Inr [a, b, c]"
    by (simp add: decode_alphabet group_simps)
  with "4.IH" show ?case by (simp add: dec_rest_group)
qed

subsection \<open>What the validation accepts\<close>

text \<open>
  The accepted texts: data characters followed by at most two padding characters of one kind,
  padded to a multiple of four, or unpadded and not one character over.
\<close>

definition base64_text :: "string \<Rightarrow> string \<Rightarrow> bool" where
  "base64_text d p \<longleftrightarrow>
     list_all is_base64_data_char d \<and> p \<in> {[], ''='', ''=='', ''.'', ''..''} \<and>
     (if p = [] then length d mod 4 \<noteq> 1 else (length d + length p) mod 4 = 0)"

lemma padding_loop_stop: "not_padding c \<Longrightarrow> padding_loop (c # r) pc n = Some n"
  by (auto simp: not_padding_def)

lemma padding_loop_data: "list_all is_base64_data_char (rev r) \<Longrightarrow> padding_loop r pc n = Some n"
  by (cases r) (simp_all add: padding_loop_stop data_char_not_padding del: padding_loop.simps(2))

lemma padding_loop_ge: "padding_loop r pc n = Some m \<Longrightarrow> n \<le> m"
  by (induction r pc n rule: padding_loop.induct) (auto simp: Let_def split: if_splits)

lemma base64_text_valid: "base64_text d p \<Longrightarrow> is_valid_base64 (d @ p)"
  by (auto simp: base64_text_def is_valid_base64_def Let_def padding_loop_data split: if_splits)

lemma padding_loop_shape:
  assumes "padding_loop r NUL 0 = Some m" and "m \<le> 2"
  shows "\<exists>p \<in> {[], ''='', ''=='', ''.'', ''..''}. \<exists>q. r = p @ q \<and> length p = m"
proof -
  consider "r = []" | c where "r = [c]" | c d q where "r = c # d # q"
    by (cases r rule: remdups_adj.cases) auto
  then show ?thesis
  proof cases
    case 3
    show ?thesis
    proof (cases q)
      case Nil
      with 3 assms show ?thesis by (auto simp: Let_def split: if_splits)
    next
      case (Cons e q')
      with 3 assms show ?thesis
        by (auto simp: Let_def dest!: padding_loop_ge split: if_splits)
    qed
  qed (use assms in \<open>auto simp: Let_def split: if_splits\<close>)
qed

lemma valid_base64_text: "is_valid_base64 s \<Longrightarrow> \<exists>d p. s = d @ p \<and> base64_text d p"
proof -
  assume v: "is_valid_base64 s"
  show ?thesis
  proof (cases "s = []")
    case True
    then show ?thesis by (auto simp: base64_text_def)
  next
    case False
    with v obtain m where m: "padding_loop (rev s) NUL 0 = Some m" "m \<le> 2"
      and len: "length s mod 4 \<noteq> 1" "m \<noteq> 0 \<longrightarrow> length s mod 4 = 0"
      and data: "list_all is_base64_data_char (take (length s - m) s)"
      by (auto simp: is_valid_base64_def split: if_splits option.splits)
    from padding_loop_shape [OF m] obtain p q where p: "p \<in> {[], ''='', ''=='', ''.'', ''..''}"
      and r: "rev s = p @ q" and lp: "m = length p" by blast
    have "rev p = p" using p by auto
    with r have s: "s = rev q @ p" by (metis rev_append rev_rev_ident)
    with data lp have "list_all is_base64_data_char (rev q)" by simp
    moreover have "if p = [] then length (rev q) mod 4 \<noteq> 1 else (length (rev q) + length p) mod 4 = 0"
      using len by (auto simp: s lp)
    ultimately have "base64_text (rev q) p" using p by (simp only: base64_text_def)
    with s show ?thesis by blast
  qed
qed

subsection \<open>A validated text always decodes\<close>

lemma data_group:
  assumes "list_all is_base64_data_char [c0, c1, c2, c3]"
  shows "\<exists>x y z. decode_chunk (c0 # c1 # c2 # c3 # rest) 0 = Inr [x, y, z]"
proof -
  from assms obtain p0 p1 p2 p3 where "pos_of_char c0 = Inr p0" "pos_of_char c1 = Inr p1"
    "pos_of_char c2 = Inr p2" "pos_of_char c3 = Inr p3"
    by (auto dest!: data_char_position)
  with assms show ?thesis
    using decode_group4 [of c0 p0 c1 p1 c2 p2 c3 p3] by (auto simp: data_char_not_padding)
qed

lemma data_end3:
  assumes "list_all is_base64_data_char [c0, c1, c2]" "rest = [] \<or> \<not> not_padding (hd rest)"
  shows "\<exists>x y. decode_chunk (c0 # c1 # c2 # rest) 0 = Inr [x, y]"
proof -
  from assms obtain p0 p1 p2 where "pos_of_char c0 = Inr p0" "pos_of_char c1 = Inr p1" "pos_of_char c2 = Inr p2"
    by (auto dest!: data_char_position)
  with assms show ?thesis
    using decode_group3 [of c0 p0 c1 p1 c2 p2] by (auto simp: data_char_not_padding)
qed

lemma data_end2:
  assumes "list_all is_base64_data_char [c0, c1]" "rest = [] \<or> \<not> not_padding (hd rest)"
  shows "\<exists>x. decode_chunk (c0 # c1 # rest) 0 = Inr [x]"
proof -
  from assms obtain p0 p1 where "pos_of_char c0 = Inr p0" "pos_of_char c1 = Inr p1"
    by (auto dest!: data_char_position)
  with assms show ?thesis using decode_group2 [of c0 p0 c1 p1] by auto
qed

lemma missing_padding:
  "(3 + k) mod 4 = 0 \<Longrightarrow> k \<le> 2 \<Longrightarrow> k = (1::nat)"
  "(2 + k) mod 4 = 0 \<Longrightarrow> k \<le> 2 \<Longrightarrow> k = (2::nat)"
  by presburger+

lemma base64_text_cases:
  assumes "base64_text d p"
  obtains (nil) "d = []" "p = []"
    | (two) c0 c1 where "d = [c0, c1]" "p = [] \<or> length p = 2 \<and> \<not> not_padding (hd p)"
    | (three) c0 c1 c2 where "d = [c0, c1, c2]" "p = [] \<or> length p = 1 \<and> \<not> not_padding (hd p)"
    | (group) c0 c1 c2 c3 d' where "d = c0 # c1 # c2 # c3 # d'" "base64_text d' p"
proof -
  have hd: "p \<noteq> [] \<Longrightarrow> \<not> not_padding (hd p)"
    using assms by (auto simp: base64_text_def not_padding_def)
  have data: "(if p = [] then length d mod 4 \<noteq> 1 else (length d + length p) mod 4 = 0)"
    and lp: "length p \<le> 2" using assms by (auto simp: base64_text_def)
  consider "d = []" | c where "d = [c]" | c0 c1 where "d = [c0, c1]" | c0 c1 c2 where "d = [c0, c1, c2]"
    | c0 c1 c2 c3 d' where "d = c0 # c1 # c2 # c3 # d'"
    by (metis remdups_adj.cases neq_Nil_conv)
  then show thesis
  proof cases
    case 1
    with data lp show thesis by (intro nil) (auto split: if_splits)
  next
    case (2 c)
    with data lp have False by (cases p) (auto split: if_splits)
    then show thesis ..
  next
    case (3 c0 c1)
    with data have "p = [] \<or> (2 + length p) mod 4 = 0" by (simp split: if_splits)
    with lp have "p = [] \<or> length p = 2" using missing_padding(2) [of "length p"] by (elim disjE) simp_all
    with 3 hd show thesis by (intro two) auto
  next
    case (4 c0 c1 c2)
    with data have "p = [] \<or> (3 + length p) mod 4 = 0" by (simp split: if_splits)
    with lp have "p = [] \<or> length p = 1" using missing_padding(1) [of "length p"] by (elim disjE) simp_all
    with 4 hd show thesis by (intro three) auto
  next
    case (5 c0 c1 c2 c3 d')
    then have "base64_text d' p" using assms by (auto simp: base64_text_def split: if_splits)
    with 5 show thesis by (rule group)
  qed
qed

lemma dec_rest_base64_text:
  "base64_text d p \<Longrightarrow> \<exists>out. dec_rest (d @ p) = Inr out \<and> length out = length d * 3 div 4"
proof (induction d rule: length_induct)
  case (1 d)
  have data: "list_all is_base64_data_char d" using "1.prems" by (simp add: base64_text_def)
  from "1.prems" show ?case
  proof (cases rule: base64_text_cases)
    case nil
    then show ?thesis by simp
  next
    case (two c0 c1)
    then obtain x where "decode_chunk (c0 # c1 # p) 0 = Inr [x]"
      using data_end2 [of c0 c1 p] data by auto
    with two show ?thesis by (auto simp: dec_rest_group)
  next
    case (three c0 c1 c2)
    then obtain x y where "decode_chunk (c0 # c1 # c2 # p) 0 = Inr [x, y]"
      using data_end3 [of c0 c1 c2 p] data by auto
    with three show ?thesis by (auto simp: dec_rest_group)
  next
    case (group c0 c1 c2 c3 d')
    then obtain x y z where "decode_chunk (c0 # c1 # c2 # c3 # d' @ p) 0 = Inr [x, y, z]"
      using data_group [of c0 c1 c2 c3 "d' @ p"] data by auto
    moreover from group "1.IH" [rule_format, of d'] obtain out where "dec_rest (d' @ p) = Inr out" "length out = length d' * 3 div 4"
      by auto
    ultimately show ?thesis using group by (simp add: dec_rest_group)
  qed
qed

lemma base64_decode_valid:
  assumes "is_valid_base64 s"
  shows "\<exists>out. base64_decode s = (True, out)"
proof -
  from valid_base64_text [OF assms] obtain d p where s: "s = d @ p" and t: "base64_text d p" by blast
  from dec_rest_base64_text [OF t] obtain out where "dec_rest s = Inr out" using s by blast
  with assms show ?thesis by (simp add: base64_decode_def decode_dec_rest)
qed

lemma base64_text_step:
  assumes "length g = 4" and "list_all is_base64_data_char g" and "base64_text d p"
  shows "base64_text (g @ d) p"
proof -
  have "(length (g @ d) + k) mod 4 = (length d + k) mod 4" for k
    using assms(1) by (simp add: add.assoc)
  from this [of 0] this [of "length p"] show ?thesis
    using assms(2,3) by (simp add: base64_text_def split: if_splits)
qed

lemma enc3_text: "\<exists>d p. enc3 url s = d @ p \<and> base64_text d p"
proof (induction url s rule: enc3.induct)
  case (1 url)
  show ?case by (auto simp: base64_text_def)
next
  case (2 url a)
  show ?case
    by (rule exI [of _ "take 2 (enc3 url [a])"], rule exI [of _ "drop 2 (enc3 url [a])"])
       (simp add: base64_text_def alphabet group_simps)
next
  case (3 url a b)
  show ?case
    by (rule exI [of _ "take 3 (enc3 url [a, b])"], rule exI [of _ "drop 3 (enc3 url [a, b])"])
       (simp add: base64_text_def alphabet group_simps)
next
  case (4 url a b c rest)
  then obtain d p where dp: "enc3 url rest = d @ p" "base64_text d p" by blast
  have "base64_text (take 4 (enc3 url (a # b # c # rest)) @ d) p"
    by (rule base64_text_step [OF _ _ dp(2)]) (simp_all add: alphabet group_simps)
  then show ?case
    by (intro exI [of _ "take 4 (enc3 url (a # b # c # rest)) @ d"] exI [of _ p]) (simp add: dp(1))
qed

lemma base64_decode_enc3: "base64_decode (enc3 url s) = (True, s)"
proof -
  have "is_valid_base64 (enc3 url s)"
    using enc3_text [of url s] base64_text_valid by auto
  then show ?thesis by (simp add: base64_decode_def decode_dec_rest dec_rest_enc3)
qed

interpretation base64: codec "enc3 url" "\<lambda>t. case base64_decode t of (ok, out) \<Rightarrow> if ok then Some out else None"
  "\<lambda>s. True" for url
  by unfold_locales (simp add: base64_decode_enc3)

subsection \<open>Line breaks\<close>

text \<open>The reference: the text cut into lines of \<open>n\<close> bytes, joined by line feeds.\<close>

function lines_of :: "nat \<Rightarrow> string \<Rightarrow> string" where
  "lines_of n s = (if n = 0 \<or> length s \<le> n then s else take n s @ LF # lines_of n (drop n s))"
  by pat_completeness auto
termination
  by (relation "measure (\<lambda>(n, s). length s)") auto

declare lines_of.simps [simp del]

lemma break_loop_lines:
  "0 < n \<Longrightarrow> break_loop (pre @ s) n (length pre + n) = Some (pre @ lines_of n s)"
proof (induction n s arbitrary: pre rule: lines_of.induct)
  case (1 n s)
  show ?case
  proof (cases "length s \<le> n")
    case True
    then show ?thesis by (simp add: break_loop.simps [of "pre @ s"] lines_of.simps [of n s])
  next
    case False
    define pre' where "pre' = pre @ take n s @ [LF]"
    from False have pos: "length pre + n + (n + 1) = length pre' + n" by (simp add: pre'_def)
    have "break_loop (pre @ s) n (length pre + n) = break_loop (pre' @ drop n s) n (length pre' + n)"
      using False by (simp add: break_loop.simps [of "pre @ s"] pre'_def)
    also have "\<dots> = Some (pre' @ lines_of n (drop n s))"
      using False "1.prems" by (intro "1.IH") simp_all
    finally show ?thesis using False "1.prems" by (simp add: lines_of.simps [of n s] pre'_def)
  qed
qed

lemma insert_linebreaks_lines: "0 < n \<Longrightarrow> insert_linebreaks s n = Some (lines_of n s)"
  using break_loop_lines [of n "[]" s] by (simp add: insert_linebreaks_def lines_of.simps)

lemma filter_lines_of: "LF \<notin> set s \<Longrightarrow> filter (\<lambda>c. c \<noteq> LF) (lines_of n s) = s"
proof (induction n s rule: lines_of.induct)
  case (1 n s)
  have nl: "LF \<notin> set (take n s)" "LF \<notin> set (drop n s)"
    using "1.prems" by (auto dest: in_set_takeD in_set_dropD)
  then have "filter (\<lambda>c. c \<noteq> LF) (take n s) = take n s" by (auto simp: filter_id_conv)
  with "1.IH" "1.prems" nl show ?case
    by (auto simp: lines_of.simps [of n s] filter_id_conv)
qed

lemma data_char_not_LF: "is_base64_data_char c \<Longrightarrow> c \<noteq> LF"
  by (auto simp: is_base64_data_char_def less_eq_char_def)

lemma enc3_no_LF: "LF \<notin> set (enc3 url s)"
proof -
  from enc3_text [of url s] obtain d p where e: "enc3 url s = d @ p" and t: "base64_text d p" by blast
  from t have "LF \<notin> set d" by (auto simp: base64_text_def list_all_iff dest: data_char_not_LF)
  moreover from t have "LF \<notin> set p" by (auto simp: base64_text_def)
  ultimately show ?thesis by (simp add: e)
qed

lemma encode_with_line_breaks_lines:
  "length s < 2 ^ 32 \<Longrightarrow> 0 < n \<Longrightarrow> encode_with_line_breaks n s = Some (lines_of n (enc3 False s))"
  by (simp add: encode_with_line_breaks_def base64_encode_enc3 insert_linebreaks_lines)

lemma decode_lines: "decode (lines_of n (enc3 url s)) True = Inr s"
proof -
  have f: "filter (\<lambda>c. c \<noteq> LF) (lines_of n (enc3 url s)) = enc3 url s"
    by (rule filter_lines_of [OF enc3_no_LF])
  show ?thesis
  proof (cases "lines_of n (enc3 url s) = []")
    case True
    with f dec_rest_enc3 [of url s] have "s = []" by simp
    with True show ?thesis by (simp add: decode_def)
  next
    case False
    then show ?thesis by (simp add: decode_def f decode_loop_rest dec_rest_enc3)
  qed
qed

subsection \<open>Properties\<close>

text \<open>C38. Encoding ends for every input below 4 GiB, with either alphabet, and the strict decoder
  accepts the text and returns the bytes that were encoded.\<close>

theorem base64_round_trip:
  assumes "length s < 2 ^ 32"
  shows "\<exists>t. base64_encode s url = Some t \<and> base64_decode t = (True, s)"
  using base64_encode_enc3 [OF assms] base64_decode_enc3 by blast

theorem base64_round_trip_witness: "\<exists>t. base64_encode ''hello'' True = Some t \<and> base64_decode t = (True, ''hello'')"
  by (rule base64_round_trip) simp

text \<open>The decoder with a result string answers true for exactly the texts the validation
  accepts: on those, no exception of the inner decoder is ever swallowed; on all others, and only
  on those, the output is emptied and false returned.\<close>

theorem base64_decode_total:
  "fst (base64_decode s) = is_valid_base64 s \<and>
   (is_valid_base64 s \<or> base64_decode s = (False, []))"
proof (cases "is_valid_base64 s")
  case True
  then show ?thesis using base64_decode_valid [OF True] by auto
next
  case False
  then show ?thesis by (simp add: base64_decode_def)
qed

text \<open>The validation accepts exactly data characters followed by zero, one or two padding
  characters of one kind: padded to a multiple of four, or unpadded and not one character over.\<close>

theorem base64_valid_iff: "is_valid_base64 s \<longleftrightarrow> (\<exists>d p. s = d @ p \<and> base64_text d p)"
  using valid_base64_text base64_text_valid by blast

text \<open>PEM and MIME output returns for every input below 4 GiB, is the Base64 text cut into
  lines of 64 and 76 characters, and decodes to the input when line breaks are removed.\<close>

theorem base64_lines_round_trip:
  assumes "length s < 2 ^ 32"
  shows "base64_encode_pem s = Some (lines_of 64 (enc3 False s)) \<and>
         base64_encode_mime s = Some (lines_of 76 (enc3 False s)) \<and>
         decode (lines_of 64 (enc3 False s)) True = Inr s \<and>
         decode (lines_of 76 (enc3 False s)) True = Inr s"
  using encode_with_line_breaks_lines [OF assms]
  by (simp add: base64_encode_pem_def base64_encode_mime_def decode_lines)

theorem base64_lines_round_trip_witness:
  "base64_encode_pem ''hi'' = Some (lines_of 64 (enc3 False ''hi''))"
  using base64_lines_round_trip [of "''hi''"] by simp

text \<open>C40. The index of the encoder is a 32-bit \<^verbatim>\<open>unsigned int\<close> while the length is a
  \<^verbatim>\<open>size_t\<close>: from 4 GiB on, the index wraps around and the encoder never returns.\<close>

theorem base64_encode_diverges:
  assumes "2 ^ 32 \<le> length s"
  shows "base64_encode s url = None"
  using encode_loop_diverges [OF assms] by (simp add: base64_encode_def)

theorem base64_encode_diverges_witness: "base64_encode (replicate (2 ^ 32) (CHR ''a'')) False = None"
  by (rule base64_encode_diverges) simp

end
