(* ===== verification/Fs_Path.thy ===== *)
theory Fs_Path
  imports Cpp_String
begin

text \<open>
  The lexical operations of \<^verbatim>\<open>std::filesystem::path\<close> on POSIX path names that the program
  uses: iteration over the elements, \<^verbatim>\<open>filename\<close>, \<^verbatim>\<open>parent_path\<close>, \<^verbatim>\<open>operator/\<close>,
  \<^verbatim>\<open>lexically_normal\<close> and \<^verbatim>\<open>operator==\<close>, which compares element by element. The element
  sequence of a path is its root directory, its names, and an empty name when a separator
  follows the last name: that empty element is why \<open>"dir"\<close> and \<open>"dir/"\<close> are different
  paths, before and after normalisation.
\<close>

abbreviation SLASH :: char where
  "SLASH \<equiv> CHR ''/''"

fun split_slash :: "string \<Rightarrow> string list" where
  "split_slash [] = [[]]"
| "split_slash (c # cs) =
     (if c = SLASH then [] # split_slash cs
      else (c # hd (split_slash cs)) # tl (split_slash cs))"

definition is_absolute :: "string \<Rightarrow> bool" where
  "is_absolute p \<longleftrightarrow> p \<noteq> [] \<and> hd p = SLASH"

definition path_names :: "string \<Rightarrow> string list" where
  "path_names p = filter (\<lambda>n. n \<noteq> []) (split_slash p)"

definition trailing_slash :: "string \<Rightarrow> bool" where
  "trailing_slash p \<longleftrightarrow> path_names p \<noteq> [] \<and> last p = SLASH"

definition path_elems :: "string \<Rightarrow> string list" where
  "path_elems p =
     (if is_absolute p then [''/''] else []) @ path_names p @ (if trailing_slash p then [[]] else [])"

definition path_eq :: "string \<Rightarrow> string \<Rightarrow> bool" where
  "path_eq p q \<longleftrightarrow> path_elems p = path_elems q"

text \<open>\<^verbatim>\<open>filename\<close> is what follows the last separator.\<close>

definition path_filename :: "string \<Rightarrow> string" where
  "path_filename p = last (split_slash p)"

fun rstrip_slash :: "string \<Rightarrow> string" where
  "rstrip_slash [] = []"
| "rstrip_slash (c # cs) = (let r = rstrip_slash cs in if r = [] \<and> c = SLASH then [] else c # r)"

definition parent_path :: "string \<Rightarrow> string" where
  "parent_path p =
     (if path_names p = [] then p
      else let q = rstrip_slash (take (length p - length (path_filename p)) p)
           in if q = [] \<and> is_absolute p then ''/'' else q)"

definition path_join :: "string \<Rightarrow> string \<Rightarrow> string" where
  "path_join p q =
     (if is_absolute q \<or> p = [] then q
      else if path_filename p \<noteq> [] then p @ ''/'' @ q
      else p @ q)"

subsection \<open>Normalisation\<close>

text \<open>
  \<open>lexically_normal\<close> walks the elements with the names kept so far (last one first) and
  whether the kept text ends with a separator.
\<close>

fun norm_step :: "bool \<Rightarrow> string \<Rightarrow> string list \<times> bool \<Rightarrow> string list \<times> bool" where
  "norm_step root e (kept, trailing) =
     (if e = [] \<or> e = ''.'' then (kept, True)
      else if e = ''..'' then
        (case kept of
           [] \<Rightarrow> if root then ([], trailing) else ([''..''], False)
         | n # ns \<Rightarrow> if n = ''..'' then (''..'' # n # ns, False) else (ns, True))
      else (e # kept, False))"

definition normal_names :: "string \<Rightarrow> string list \<times> bool" where
  "normal_names p =
     fold (norm_step (is_absolute p)) (path_names p @ (if trailing_slash p then [[]] else [])) ([], False)"

fun join_names :: "string list \<Rightarrow> string" where
  "join_names [] = []"
| "join_names [n] = n"
| "join_names (n # m # ns) = n @ SLASH # join_names (m # ns)"

definition lexically_normal :: "string \<Rightarrow> string" where
  "lexically_normal p =
     (if p = [] then []
      else case normal_names p of (kept, trailing) \<Rightarrow>
        if kept = [] then (if is_absolute p then ''/'' else ''.'')
        else (if is_absolute p then ''/'' else []) @ join_names (rev kept) @
             (if trailing \<and> hd kept \<noteq> ''..'' then ''/'' else []))"

subsection \<open>Splitting and joining\<close>

definition plain_name :: "string \<Rightarrow> bool" where
  "plain_name n \<longleftrightarrow> n \<noteq> [] \<and> SLASH \<notin> set n"

lemma split_slash_ne [simp]: "split_slash s \<noteq> []"
  by (cases s) auto

lemma split_slash_no_slash: "n \<in> set (split_slash s) \<Longrightarrow> SLASH \<notin> set n"
proof (induction s arbitrary: n)
  case (Cons c cs)
  then show ?case
    by (cases "split_slash cs") (auto split: if_splits)
qed simp

lemma path_names_plain: "list_all plain_name (path_names p)"
  by (auto simp: path_names_def list_all_iff plain_name_def dest: split_slash_no_slash)

lemma split_slash_append: "split_slash (a @ SLASH # b) = split_slash a @ split_slash b"
  by (induction a) auto

lemma split_slash_plain: "SLASH \<notin> set n \<Longrightarrow> split_slash n = [n]"
  by (induction n) auto

lemma path_names_append: "path_names (a @ SLASH # b) = path_names a @ path_names b"
  by (simp add: path_names_def split_slash_append)

lemma path_names_plain_name: "plain_name n \<Longrightarrow> path_names n = [n]"
  by (simp add: path_names_def split_slash_plain plain_name_def)

lemma path_filename_append: "path_filename (a @ SLASH # b) = path_filename b"
  by (simp add: path_filename_def split_slash_append)

lemma path_filename_plain: "plain_name n \<Longrightarrow> path_filename n = n"
  by (simp add: path_filename_def split_slash_plain plain_name_def)

lemma split_slash_snoc:
  "c \<noteq> SLASH \<Longrightarrow> split_slash (q @ [c]) = butlast (split_slash q) @ [last (split_slash q) @ [c]]"
proof (induction q)
  case (Cons x q)
  show ?case
  proof (cases "split_slash q")
    case (Cons y ys)
    with Cons.IH Cons.prems show ?thesis by (cases ys) auto
  qed simp
qed simp

lemma path_filename_Nil_iff: "path_filename p = [] \<longleftrightarrow> p = [] \<or> last p = SLASH"
proof (cases p rule: rev_cases)
  case (snoc q c)
  then show ?thesis
    by (cases "c = SLASH") (simp_all add: path_filename_def split_slash_append split_slash_snoc)
qed (simp add: path_filename_def)

subsection \<open>A plain name joined to a directory\<close>

lemma path_join_shape:
  assumes "d \<noteq> []" and "plain_name f"
  obtains e where "path_join d f = e @ SLASH # f" "path_names e = path_names d"
    "is_absolute (e @ SLASH # f) = is_absolute d"
proof (cases "path_filename d = []")
  case True
  with assms(1) have "last d = SLASH" by (simp add: path_filename_Nil_iff)
  with assms(1) obtain e where d: "d = e @ [SLASH]" by (metis append_butlast_last_id)
  have "\<not> is_absolute f" using assms(2) by (cases f) (auto simp: is_absolute_def plain_name_def)
  with True d have "path_join d f = e @ SLASH # f" by (simp add: path_join_def)
  moreover have "path_names e = path_names d"
    using path_names_append [of e "[]"] by (simp add: d path_names_def)
  moreover have "is_absolute (e @ SLASH # f) = is_absolute d"
    by (cases e) (simp_all add: d is_absolute_def)
  ultimately show thesis by (rule that)
next
  case False
  have "\<not> is_absolute f" using assms(2) by (cases f) (auto simp: is_absolute_def plain_name_def)
  with False assms(1) have "path_join d f = d @ SLASH # f" by (simp add: path_join_def)
  moreover have "is_absolute (d @ SLASH # f) = is_absolute d"
    using assms(1) by (simp add: is_absolute_def)
  ultimately show thesis using that by blast
qed

lemma path_join_facts:
  assumes "d \<noteq> []" and "plain_name f"
  shows "path_names (path_join d f) = path_names d @ [f]"
    and "is_absolute (path_join d f) = is_absolute d"
    and "path_filename (path_join d f) = f"
    and "\<not> trailing_slash (path_join d f)"
    and "path_join d f \<noteq> []"
proof -
  obtain e where e: "path_join d f = e @ SLASH # f" "path_names e = path_names d"
    "is_absolute (e @ SLASH # f) = is_absolute d"
    using path_join_shape [OF assms] by blast
  have f: "f \<noteq> []" "SLASH \<notin> set f" using assms(2) by (simp_all add: plain_name_def)
  then have "last f \<noteq> SLASH" using last_in_set by metis
  with f e assms show "path_names (path_join d f) = path_names d @ [f]"
    "is_absolute (path_join d f) = is_absolute d" "path_filename (path_join d f) = f"
    "\<not> trailing_slash (path_join d f)" "path_join d f \<noteq> []"
    by (simp_all add: path_names_append path_names_plain_name path_filename_append path_filename_plain
          trailing_slash_def)
qed

subsection \<open>Rendered names\<close>

lemma join_names_snoc: "ns \<noteq> [] \<Longrightarrow> join_names (ns @ [n]) = join_names ns @ SLASH # n"
  by (induction ns rule: join_names.induct) auto

lemma path_names_join_names: "list_all plain_name ns \<Longrightarrow> path_names (join_names ns) = ns"
  by (induction ns rule: join_names.induct)
     (simp_all add: path_names_def path_names_append [unfolded path_names_def]
        path_names_plain_name [unfolded path_names_def])

lemma path_names_root: "path_names (SLASH # p) = path_names p"
  by (simp add: path_names_def)

lemma join_names_ends:
  assumes "list_all plain_name ns" and "ns \<noteq> []"
  shows "join_names ns \<noteq> []" and "hd (join_names ns) \<noteq> SLASH" and "last (join_names ns) \<noteq> SLASH"
  using assms
  by (induction ns rule: join_names.induct) (auto simp: plain_name_def hd_append dest: hd_in_set last_in_set)

lemma rstrip_slash_append: "last p \<noteq> SLASH \<Longrightarrow> p \<noteq> [] \<Longrightarrow> rstrip_slash (p @ [SLASH]) = p"
proof (induction p)
  case (Cons c cs)
  then show ?case by (cases "cs = []") (auto simp: Let_def)
qed simp

definition root_prefix :: "bool \<Rightarrow> string" where
  "root_prefix r = (if r then ''/'' else [])"

lemma rendered_elems:
  assumes "list_all plain_name ns" and "ns \<noteq> []"
  shows "path_elems (root_prefix r @ join_names ns @ (if t then ''/'' else [])) =
     (if r then [''/''] else []) @ ns @ (if t then [[]] else [])"
proof -
  note ends = join_names_ends [OF assms]
  have "path_names (join_names ns @ ''/'') = ns"
    using path_names_append [of "join_names ns" "[]"] path_names_join_names [OF assms(1)]
    by (simp add: path_names_def)
  with ends assms show ?thesis
    by (auto simp: path_elems_def trailing_slash_def is_absolute_def root_prefix_def path_names_root
          path_names_join_names hd_append)
qed

lemma rstrip_slash_id: "p \<noteq> [] \<Longrightarrow> last p \<noteq> SLASH \<Longrightarrow> rstrip_slash p = p"
proof (induction p)
  case (Cons c cs)
  then show ?case by (cases "cs = []") (auto simp: Let_def)
qed simp

lemma rendered_parent:
  assumes "list_all plain_name (ns @ [n])"
  shows "parent_path (root_prefix r @ join_names (ns @ [n])) =
     (if ns = [] then root_prefix r else root_prefix r @ join_names ns)"
    and "path_filename (root_prefix r @ join_names (ns @ [n])) = n"
proof -
  let ?p = "root_prefix r @ join_names (ns @ [n])"
  have n: "plain_name n" and ns: "list_all plain_name ns" using assms by simp_all
  have "n \<noteq> []" "SLASH \<notin> set n" using n by (simp_all add: plain_name_def)
  then have hd_n: "hd n \<noteq> SLASH" using hd_in_set by metis
  have names: "path_names ?p \<noteq> []"
    using path_names_join_names [OF assms] by (simp add: root_prefix_def path_names_root)
  show fname: "path_filename ?p = n"
    using path_filename_append [of "[]" "join_names (ns @ [n])"] path_filename_append [of "join_names ns" n]
      path_filename_plain [OF n]
    by (cases "ns = []") (auto simp: root_prefix_def join_names_snoc path_filename_append)
  show "parent_path ?p = (if ns = [] then root_prefix r else root_prefix r @ join_names ns)"
  proof (cases "ns = []")
    case True
    with n hd_n \<open>n \<noteq> []\<close> show ?thesis
      using names fname by (simp add: parent_path_def root_prefix_def is_absolute_def Let_def)
  next
    case False
    note ends = join_names_ends [OF ns False]
    have shape: "?p = (root_prefix r @ join_names ns @ [SLASH]) @ n"
      using False by (simp add: join_names_snoc)
    have "take (length ?p - length n) ?p = (root_prefix r @ join_names ns) @ [SLASH]"
      unfolding shape by simp
    moreover have "rstrip_slash ((root_prefix r @ join_names ns) @ [SLASH]) = root_prefix r @ join_names ns"
      by (rule rstrip_slash_append) (use ends in simp_all)
    ultimately show ?thesis
      using names fname ends False by (simp add: parent_path_def Let_def)
  qed
qed

subsection \<open>The parent of a normalised path\<close>

text \<open>
  The test the metadata loader makes: whether the normalised directory and the parent of a
  normalised path inside it are equal as paths. They are exactly when the normalised directory
  has no trailing separator and is not \<open>"."\<close>.
\<close>

definition restorable_dir :: "string \<Rightarrow> bool" where
  "restorable_dir d \<longleftrightarrow> lexically_normal d \<noteq> ''.'' \<and> \<not> trailing_slash (lexically_normal d)"

lemma norm_step_plain:
  "list_all plain_name (fst a) \<Longrightarrow> e = [] \<or> plain_name e \<Longrightarrow> list_all plain_name (fst (norm_step r e a))"
  by (cases a; cases "fst a") (auto simp: plain_name_def)

lemma norm_fold_plain:
  "list_all plain_name (fst a) \<Longrightarrow> list_all plain_name es \<Longrightarrow>
     list_all plain_name (fst (fold (norm_step r) es a))"
  by (induction es arbitrary: a) (simp_all add: norm_step_plain)

definition normal_kept :: "string \<Rightarrow> string list" where
  "normal_kept d = fst (fold (norm_step (is_absolute d)) (path_names d) ([], False))"

lemma normal_kept_plain: "list_all plain_name (normal_kept d)"
  by (simp add: normal_kept_def norm_fold_plain path_names_plain)

lemma normal_names_kept: "fst (normal_names d) = normal_kept d"
  by (simp add: normal_names_def normal_kept_def case_prod_unfold split: prod.splits)
     (metis fst_conv norm_step.simps surj_pair)

lemma normal_names_join:
  assumes "d \<noteq> []" "plain_name f" "f \<noteq> ''.''" "f \<noteq> ''..''"
  shows "normal_names (path_join d f) = (f # normal_kept d, False)"
proof -
  have "norm_step r f a = (f # fst a, False)" for r a
    using assms by (cases a) (simp add: plain_name_def)
  then show ?thesis
    using path_join_facts [OF assms(1,2)] by (simp add: normal_names_def normal_kept_def)
qed

lemma join_names_ne_dot:
  assumes "list_all plain_name ns" "ns \<noteq> []" "join_names ns = ''.''"
  shows "ns = [''.'']"
  using path_names_join_names [OF assms(1)] assms(3)
  by (simp add: path_names_def)

lemma normal_kept_ne_dot: "''.'' \<notin> set (normal_kept d)"
proof -
  have "''.'' \<notin> set (fst (fold (norm_step r) es a))" if "''.'' \<notin> set (fst a)" for r es a
    using that
  proof (induction es arbitrary: a)
    case (Cons e es)
    have "''.'' \<notin> set (fst (norm_step r e a))"
      using Cons.prems by (cases a; cases "fst a") auto
    then show ?case by (simp add: Cons.IH)
  qed simp
  then show ?thesis by (simp add: normal_kept_def)
qed

lemma lexically_normal_shape:
  assumes "d \<noteq> []" "normal_kept d \<noteq> []"
  obtains t where "lexically_normal d =
     root_prefix (is_absolute d) @ join_names (rev (normal_kept d)) @ (if t then ''/'' else [])"
proof -
  have "lexically_normal d =
     root_prefix (is_absolute d) @ join_names (rev (normal_kept d)) @
       (if snd (normal_names d) \<and> hd (normal_kept d) \<noteq> ''..'' then ''/'' else [])"
    using assms normal_names_kept [of d]
    by (cases "normal_names d") (simp add: lexically_normal_def root_prefix_def)
  then show thesis by (rule that)
qed

lemma lexically_normal_join:
  assumes "d \<noteq> []" "plain_name f" "f \<noteq> ''.''" "f \<noteq> ''..''"
  shows "lexically_normal (path_join d f) =
     root_prefix (is_absolute d) @ join_names (rev (normal_kept d) @ [f])"
  using normal_names_join [OF assms] path_join_facts [OF assms(1,2)]
  by (simp add: lexically_normal_def root_prefix_def)

lemma normal_join_filename:
  assumes "d \<noteq> []" "plain_name f" "f \<noteq> ''.''" "f \<noteq> ''..''"
  shows "path_filename (lexically_normal (path_join d f)) = f"
  unfolding lexically_normal_join [OF assms]
  by (rule rendered_parent(2)) (use assms(2) normal_kept_plain [of d] in simp)

lemma normal_join_parent:
  assumes "d \<noteq> []" "plain_name f" "f \<noteq> ''.''" "f \<noteq> ''..''"
  shows "path_eq (parent_path (lexically_normal (path_join d f))) (lexically_normal d)
     \<longleftrightarrow> restorable_dir d"
proof -
  let ?ks = "rev (normal_kept d)" and ?r = "is_absolute d"
  have ks: "list_all plain_name ?ks" using normal_kept_plain by simp
  have parent: "parent_path (lexically_normal (path_join d f)) =
     (if ?ks = [] then root_prefix ?r else root_prefix ?r @ join_names ?ks)"
    unfolding lexically_normal_join [OF assms]
    by (rule rendered_parent(1)) (use assms(2) ks in simp)
  show ?thesis
  proof (cases "normal_kept d = []")
    case True
    then have "lexically_normal d = (if ?r then ''/'' else ''.'')"
      using assms(1) normal_names_kept [of d]
      by (cases "normal_names d") (simp add: lexically_normal_def)
    with True parent show ?thesis
      by (simp add: path_eq_def path_elems_def is_absolute_def path_names_def trailing_slash_def
            restorable_dir_def root_prefix_def)
  next
    case False
    then obtain t where n: "lexically_normal d = root_prefix ?r @ join_names ?ks @ (if t then ''/'' else [])"
      using lexically_normal_shape assms(1) by blast
    have ks_ne: "?ks \<noteq> []" using False by simp
    note elems = rendered_elems [OF ks ks_ne]
    note ends = join_names_ends [OF ks ks_ne]
    have trailing: "trailing_slash (lexically_normal d) \<longleftrightarrow> t"
      using elems [of ?r t] ends path_names_join_names [OF ks] False
        path_names_append [of "join_names ?ks" "[]"]
      by (auto simp: n trailing_slash_def root_prefix_def path_names_root path_names_def)
    have "lexically_normal d \<noteq> ''.''"
    proof
      assume dot: "lexically_normal d = ''.''"
      with n ends have "join_names ?ks = ''.''"
        by (cases ?r; cases t) (auto simp: root_prefix_def append_eq_Cons_conv)
      then have "?ks = [''.'']" by (rule join_names_ne_dot [OF ks ks_ne])
      then have "''.'' \<in> set (normal_kept d)" by (metis list.set_intros(1) set_rev)
      with normal_kept_ne_dot show False by blast
    qed
    with trailing show ?thesis
      using elems [of ?r False] elems [of ?r t] False
      unfolding path_eq_def parent n restorable_dir_def by simp
  qed
qed

end
