(* ===== verification/Posix.thy ===== *)
theory Posix
  imports Effects Fs_Path
begin

text \<open>
  The part of the operating system the server and the backup writer use, as they see it: a tree
  of names, the files behind them, open descriptors, and one outcome per system call. A name is
  resolved to the list of its directory entries; there are no symbolic links, so \<open>..\<close> drops the
  entry before it. A file has a number, so that two names may denote the same file, and a file
  without a name stays readable through a descriptor.

  The field \<open>tape\<close> holds the outcomes the environment has chosen for the next system calls: the call
  succeeds, fails with an error number and has no effect, or transfers at most so many bytes.
  Once the tape is used up every call succeeds. Since the tape is finite, only finitely many
  calls are interrupted by signals. Directories are created and looked up, never
  renamed or removed: \<open>rename\<close> and \<open>remove\<close> refuse them, which the program only asks for when
  somebody else has replaced one of its files by a directory. Reading does not change the access
  time of a file (a file system mounted \<^verbatim>\<open>noatime\<close>), and sizes stay below the
  limit of \<^verbatim>\<open>off_t\<close>.
\<close>

datatype errno = EINTR | EIO | ENOENT | EEXIST | EISDIR | ENOTDIR | EPERM | EINVAL | EBADF | ENOSPC | EACCES

datatype outcome = Done | Fault errno | Short nat

datatype node = Dir | File nat

record inode =
  bytes :: string
  mtime :: int
  atime :: int

record stat_buf =
  st_size :: int
  st_mtime :: int
  st_atime :: int

record descriptor =
  fd_ino :: "nat option"
  fd_pos :: nat

record os =
  node :: "string list \<Rightarrow> node option"
  inodes :: "nat \<Rightarrow> inode"
  next_ino :: nat
  dir_stat :: "string list \<Rightarrow> stat_buf"
  cwd :: "string list"
  clock :: int
  errno :: errno
  fds :: "nat \<Rightarrow> descriptor option"
  next_fd :: nat
  tape :: "outcome list"
  suffixes :: "string list"

type_synonym ('z, 'a) io = "('z os_scheme, 'a) state"

text \<open>A freshly mounted file system with one working directory, for examples.\<close>

definition boot :: "string list \<Rightarrow> outcome list \<Rightarrow> string list \<Rightarrow> os" where
  "boot dir outcomes random = \<lparr>node = (\<lambda>k. if k = [] \<or> k = dir then Some Dir else None),
     inodes = (\<lambda>i. \<lparr>bytes = [], mtime = 0, atime = 0\<rparr>), next_ino = 0,
     dir_stat = (\<lambda>k. \<lparr>st_size = 4096, st_mtime = 0, st_atime = 0\<rparr>), cwd = dir, clock = 1000,
     errno = EIO, fds = (\<lambda>fd. None), next_fd = 3, tape = outcomes, suffixes = random\<rparr>"

subsection \<open>Resolving names\<close>

fun walk :: "string list \<Rightarrow> string list \<Rightarrow> string list" where
  "walk [] k = k"
| "walk (n # ns) k = walk ns (if n = ''.'' then k else if n = ''..'' then butlast k else k @ [n])"

lemma walk_append: "walk (a @ b) k = walk b (walk a k)"
  by (induction a arbitrary: k) auto

definition key :: "'z os_scheme \<Rightarrow> string \<Rightarrow> string list" where
  "key s p = walk (path_names (c_str p)) (if is_absolute p then [] else cwd s)"

definition lookup :: "'z os_scheme \<Rightarrow> string \<Rightarrow> node option" where
  "lookup s p = (if c_str p = [] then None else node s (key s p))"

definition parent_exists :: "'z os_scheme \<Rightarrow> string \<Rightarrow> bool" where
  "parent_exists s p \<longleftrightarrow> c_str p \<noteq> [] \<and> key s p \<noteq> [] \<and> node s (butlast (key s p)) = Some Dir"

subsection \<open>Outcomes and errors\<close>

definition next_outcome :: "('z, outcome) io" where
  "next_outcome = State (\<lambda>s. case tape s of [] \<Rightarrow> (Done, s) | t # ts \<Rightarrow> (t, s\<lparr>tape := ts\<rparr>))"

definition fail :: "errno \<Rightarrow> 'a \<Rightarrow> ('z, 'a) io" where
  "fail e a = State (\<lambda>s. (a, s\<lparr>errno := e\<rparr>))"

definition get_errno :: "('z, errno) io" where
  "get_errno = gets errno"

definition set_errno :: "errno \<Rightarrow> ('z, unit) io" where
  "set_errno e = modify (\<lambda>s. s\<lparr>errno := e\<rparr>)"

text \<open>Every call: an outcome first, then its effect unless the outcome is a failure.\<close>

definition syscall :: "'a \<Rightarrow> ('z, 'a) io \<Rightarrow> ('z, 'a) io" where
  "syscall bad body = do {
     o' \<leftarrow> next_outcome;
     case o' of Fault e \<Rightarrow> fail e bad | _ \<Rightarrow> body
   }"

subsection \<open>Files\<close>

definition stat_node :: "'z os_scheme \<Rightarrow> string \<Rightarrow> node \<Rightarrow> stat_buf" where
  "stat_node s p n = (case n of
     Dir \<Rightarrow> dir_stat s (key s p)
   | File i \<Rightarrow> \<lparr>st_size = int (length (bytes (inodes s i))), st_mtime = mtime (inodes s i),
                 st_atime = atime (inodes s i)\<rparr>)"

definition stat :: "string \<Rightarrow> ('z, stat_buf option) io" where
  "stat p = syscall None (do {
     s \<leftarrow> State_Monad.get;
     case lookup s p of None \<Rightarrow> fail ENOENT None | Some n \<Rightarrow> give (Some (stat_node s p n))
   })"

definition new_fd :: "nat option \<Rightarrow> ('z, nat option) io" where
  "new_fd i = State (\<lambda>s. (Some (next_fd s),
     s\<lparr>fds := (fds s)(next_fd s \<mapsto> \<lparr>fd_ino = i, fd_pos = 0\<rparr>), next_fd := next_fd s + 1\<rparr>))"

definition open_rdonly :: "string \<Rightarrow> ('z, nat option) io" where
  "open_rdonly p = syscall None (do {
     n \<leftarrow> gets (\<lambda>s. lookup s p);
     case n of None \<Rightarrow> fail ENOENT None | Some Dir \<Rightarrow> new_fd None | Some (File i) \<Rightarrow> new_fd (Some i)
   })"

text \<open>\<^verbatim>\<open>O_RDONLY | O_DIRECTORY\<close>\<close>

definition open_directory :: "string \<Rightarrow> ('z, nat option) io" where
  "open_directory p = syscall None (do {
     n \<leftarrow> gets (\<lambda>s. lookup s p);
     case n of None \<Rightarrow> fail ENOENT None | Some Dir \<Rightarrow> new_fd None | Some (File i) \<Rightarrow> fail ENOTDIR None
   })"

definition fresh_inode :: "'z os_scheme \<Rightarrow> inode" where
  "fresh_inode s = \<lparr>bytes = [], mtime = clock s, atime = clock s\<rparr>"

definition create_at :: "string list \<Rightarrow> 'z os_scheme \<Rightarrow> 'z os_scheme" where
  "create_at k s = s\<lparr>node := (node s)(k \<mapsto> File (next_ino s)),
     inodes := (inodes s)(next_ino s := fresh_inode s), next_ino := next_ino s + 1\<rparr>"

definition open_trunc :: "string \<Rightarrow> ('z, nat option) io" where
  "open_trunc p = syscall None (do {
     s \<leftarrow> State_Monad.get;
     case lookup s p of
       None \<Rightarrow>
         if parent_exists s p then do { modify (create_at (key s p)); new_fd (Some (next_ino s)) }
         else fail ENOENT None
     | Some Dir \<Rightarrow> fail EISDIR None
     | Some (File i) \<Rightarrow> do {
         modify (\<lambda>s. s\<lparr>inodes := (inodes s)(i := (inodes s i)\<lparr>bytes := [], mtime := clock s\<rparr>)\<rparr>);
         new_fd (Some i) }
   })"

text \<open>The descriptor of \<open>pread\<close> and \<open>write\<close> is one the program has open.\<close>

definition transfer :: "outcome \<Rightarrow> nat \<Rightarrow> nat" where
  "transfer r len = (case r of Short n \<Rightarrow> min n len | _ \<Rightarrow> len)"

definition pread :: "nat \<Rightarrow> nat \<Rightarrow> nat \<Rightarrow> ('z, string option) io" where
  "pread fd len off = do {
     r \<leftarrow> next_outcome;
     d \<leftarrow> gets (\<lambda>s. fds s fd);
     case r of Fault e \<Rightarrow> fail e None
     | _ \<Rightarrow> (case d of
         None \<Rightarrow> fail EBADF None
       | Some d \<Rightarrow> (case fd_ino d of
           None \<Rightarrow> fail EISDIR None
         | Some i \<Rightarrow> gets (\<lambda>s. Some (take (transfer r len) (drop off (bytes (inodes s i)))))))
   }"

definition overwrite :: "nat \<Rightarrow> string \<Rightarrow> string \<Rightarrow> string" where
  "overwrite pos new old = take pos old @ new @ drop (pos + length new) old"

definition write_at :: "nat \<Rightarrow> descriptor \<Rightarrow> nat \<Rightarrow> string \<Rightarrow> 'z os_scheme \<Rightarrow> 'z os_scheme" where
  "write_at fd d i data s = s\<lparr>
     inodes := (inodes s)(i := (inodes s i)
       \<lparr>bytes := overwrite (fd_pos d) data (bytes (inodes s i)), mtime := clock s\<rparr>),
     fds := (fds s)(fd \<mapsto> d\<lparr>fd_pos := fd_pos d + length data\<rparr>)\<rparr>"

definition write_fd :: "nat \<Rightarrow> string \<Rightarrow> ('z, nat option) io" where
  "write_fd fd data = do {
     r \<leftarrow> next_outcome;
     d \<leftarrow> gets (\<lambda>s. fds s fd);
     case r of Fault e \<Rightarrow> fail e None
     | _ \<Rightarrow> (case d of
         None \<Rightarrow> fail EBADF None
       | Some d \<Rightarrow> (case fd_ino d of
           None \<Rightarrow> fail EBADF None
         | Some i \<Rightarrow> do {
             modify (write_at fd d i (take (transfer r (length data)) data));
             give (Some (transfer r (length data))) }))
   }"

definition fsync :: "nat \<Rightarrow> ('z, bool) io" where
  "fsync fd = syscall False (give True)"

text \<open>\<open>close\<close> gives the descriptor back even when it reports a failure.\<close>

definition close :: "nat \<Rightarrow> ('z, bool) io" where
  "close fd = do {
     modify (\<lambda>s. s\<lparr>fds := (fds s)(fd := None)\<rparr>);
     syscall False (give True)
   }"

subsection \<open>Names\<close>

fun first_free :: "'z os_scheme \<Rightarrow> string \<Rightarrow> string list \<Rightarrow> (string \<times> string list) option" where
  "first_free s base [] = None"
| "first_free s base (x # xs) = (if lookup s (base @ x) = None then Some (base @ x, xs) else first_free s base xs)"

text \<open>\<open>mkstemp\<close> replaces the \<open>XXXXXX\<close> at the end of its template and creates the first free name.\<close>

definition mkstemp :: "string \<Rightarrow> ('z, (nat \<times> string) option) io" where
  "mkstemp template = syscall None (do {
     s \<leftarrow> State_Monad.get;
     let base = take (length template - 6) template;
     if NUL \<in> set template \<or> drop (length template - 6) template \<noteq> ''XXXXXX'' then fail EINVAL None
     else case first_free s base (suffixes s) of
       None \<Rightarrow> fail EEXIST None
     | Some (p, rest) \<Rightarrow>
         if parent_exists s p then do {
           modify (\<lambda>s. create_at (key s p) (s\<lparr>suffixes := rest\<rparr>));
           fd \<leftarrow> new_fd (Some (next_ino s));
           give (map_option (\<lambda>f. (f, p)) fd) }
         else fail ENOENT None
   })"

definition link :: "string \<Rightarrow> string \<Rightarrow> ('z, bool) io" where
  "link old new = syscall False (do {
     s \<leftarrow> State_Monad.get;
     case lookup s old of
       None \<Rightarrow> fail ENOENT False
     | Some Dir \<Rightarrow> fail EPERM False
     | Some (File i) \<Rightarrow>
         if lookup s new \<noteq> None then fail EEXIST False
         else if \<not> parent_exists s new then fail ENOENT False
         else do { modify (\<lambda>s. s\<lparr>node := (node s)(key s new \<mapsto> File i)\<rparr>); give True }
   })"

definition unlink :: "string \<Rightarrow> ('z, bool) io" where
  "unlink p = syscall False (do {
     s \<leftarrow> State_Monad.get;
     case lookup s p of
       None \<Rightarrow> fail ENOENT False
     | Some Dir \<Rightarrow> fail EISDIR False
     | Some (File i) \<Rightarrow> do { modify (\<lambda>s. s\<lparr>node := (node s)(key s p := None)\<rparr>); give True }
   })"

definition remove_file :: "string \<Rightarrow> ('z, bool) io" where
  "remove_file p = unlink p"

definition rename_file :: "string \<Rightarrow> string \<Rightarrow> ('z, bool) io" where
  "rename_file old new = syscall False (do {
     s \<leftarrow> State_Monad.get;
     case lookup s old of
       None \<Rightarrow> fail ENOENT False
     | Some Dir \<Rightarrow> fail EISDIR False
     | Some (File i) \<Rightarrow>
         if lookup s new = Some Dir then fail EISDIR False
         else if \<not> parent_exists s new then fail ENOENT False
         else if lookup s new = Some (File i) then give True
         else do {
           modify (\<lambda>s. s\<lparr>node := (node s)(key s new \<mapsto> File i, key s old := None)\<rparr>);
           give True }
   })"

subsection \<open>std::filesystem\<close>

text \<open>
  \<open>exists\<close> and \<open>is_directory\<close> report an error other than a missing name; the second component is
  whether the error code is set.
\<close>

definition fs_status :: "string \<Rightarrow> ('z, node option \<times> bool) io" where
  "fs_status p = do {
     r \<leftarrow> next_outcome;
     n \<leftarrow> gets (\<lambda>s. lookup s p);
     give (case r of
       Fault ENOENT \<Rightarrow> (None, False)
     | Fault ENOTDIR \<Rightarrow> (None, False)
     | Fault _ \<Rightarrow> (None, True)
     | _ \<Rightarrow> (n, False))
   }"

definition fs_exists :: "string \<Rightarrow> ('z, bool \<times> bool) io" where
  "fs_exists p = do { r \<leftarrow> fs_status p; give (fst r \<noteq> None, snd r) }"

definition fs_is_directory :: "string \<Rightarrow> ('z, bool \<times> bool) io" where
  "fs_is_directory p = do { r \<leftarrow> fs_status p; give (fst r = Some Dir, snd r) }"

text \<open>\<open>create_directories\<close> makes every missing directory on the way to a missing one.\<close>

fun make_dirs :: "string list list \<Rightarrow> ('z, bool) io" where
  "make_dirs [] = give True"
| "make_dirs (k # ks) = do {
     n \<leftarrow> gets (\<lambda>s. node s k);
     case n of
       Some Dir \<Rightarrow> make_dirs ks
     | Some (File i) \<Rightarrow> fail ENOTDIR False
     | None \<Rightarrow> do {
         r \<leftarrow> next_outcome;
         case r of
           Fault e \<Rightarrow> fail e False
         | _ \<Rightarrow> do { modify (\<lambda>s. s\<lparr>node := (node s)(k \<mapsto> Dir)\<rparr>); make_dirs ks } }
   }"

definition fs_create_directories :: "string \<Rightarrow> ('z, bool) io" where
  "fs_create_directories p = do {
     s \<leftarrow> State_Monad.get;
     if c_str p = [] then fail EINVAL False
     else make_dirs (map (\<lambda>n. take n (key s p)) [0..<Suc (length (key s p))])
   }"

subsection \<open>Relations that ignore outcomes and error numbers\<close>

text \<open>
  Every call consumes outcomes and may set the error number. A relation that allows this, and
  the opening and closing of descriptors, holds of every operation that only looks at files.
\<close>

locale os_relation = effect_relation R for R :: "'z os_scheme \<Rightarrow> 'z os_scheme \<Rightarrow> bool" +
  assumes tape: "R s (s\<lparr>tape := ts\<rparr>)"
    and errno: "R s (s\<lparr>errno := e\<rparr>)"
begin

lemma rel_next_outcome: "state_io_rel R next_outcome"
  by (auto simp: state_io_rel_def next_outcome_def refl tape split: list.split)

lemma rel_fail: "state_io_rel R (fail e a)"
  by (simp add: state_io_rel_def fail_def errno)

lemma rel_get_errno: "state_io_rel R get_errno"
  by (simp add: get_errno_def rel_gets)

lemma rel_set_errno: "state_io_rel R (set_errno e)"
  by (simp add: set_errno_def state_io_rel_def errno)

lemma rel_get: "state_io_rel R State_Monad.get"
  by (simp add: state_io_rel_def refl)

lemma rel_outcome: "(\<And>e. state_io_rel R (f e)) \<Longrightarrow> state_io_rel R m \<Longrightarrow>
    state_io_rel R (case r of Fault e \<Rightarrow> f e | _ \<Rightarrow> m)"
  by (cases r) simp_all

lemma rel_syscall: "state_io_rel R body \<Longrightarrow> state_io_rel R (syscall bad body)"
  unfolding syscall_def
  by (rule rel_bind [OF rel_next_outcome]) (auto intro!: rel_outcome rel_fail)

lemma rel_node: "state_io_rel R m \<Longrightarrow> (\<And>i. state_io_rel R (f i)) \<Longrightarrow>
    state_io_rel R (case n of Dir \<Rightarrow> m | File i \<Rightarrow> f i)"
  by (cases n) simp_all

lemmas os_rules = rel_rules rel_next_outcome rel_fail rel_get rel_get_errno rel_set_errno rel_outcome
  rel_syscall rel_node

lemma rel_stat: "state_io_rel R (stat p)"
  unfolding stat_def by (intro os_rules)

lemma rel_pread: "state_io_rel R (pread fd len off)"
  unfolding pread_def by (intro os_rules)

lemma rel_fsync: "state_io_rel R (fsync fd)"
  unfolding fsync_def by (intro os_rules)

lemma rel_fs_status: "state_io_rel R (fs_status p)"
  unfolding fs_status_def by (intro os_rules)

lemma rel_fs_exists: "state_io_rel R (fs_exists p)"
  unfolding fs_exists_def by (intro os_rules rel_fs_status)

lemma rel_fs_is_directory: "state_io_rel R (fs_is_directory p)"
  unfolding fs_is_directory_def by (intro os_rules rel_fs_status)

end

locale os_frame = os_relation R for R :: "'z os_scheme \<Rightarrow> 'z os_scheme \<Rightarrow> bool" +
  assumes fds: "R s (s\<lparr>fds := f, next_fd := n\<rparr>)"
begin

lemma rel_new_fd: "state_io_rel R (new_fd i)"
  by (simp add: state_io_rel_def new_fd_def fds)

lemma rel_open_rdonly: "state_io_rel R (open_rdonly p)"
  unfolding open_rdonly_def by (intro os_rules rel_new_fd)

lemma rel_open_directory: "state_io_rel R (open_directory p)"
  unfolding open_directory_def by (intro os_rules rel_new_fd)

lemma rel_close: "state_io_rel R (close fd)"
proof -
  have "R s (s\<lparr>fds := f\<rparr>)" for s f
    using fds [of s "next_fd s" f] by simp
  then show ?thesis unfolding close_def by (intro os_rules rel_modify)
qed

end

subsection \<open>Well-formed states\<close>

text \<open>
  The root is a directory, names and descriptors denote files that have been created, and
  descriptor numbers still to be given out are unused.
\<close>

definition fs_wf :: "'z os_scheme \<Rightarrow> bool" where
  "fs_wf s \<longleftrightarrow> node s [] = Some Dir \<and>
     (\<forall>k i. node s k = Some (File i) \<longrightarrow> i < next_ino s) \<and>
     (\<forall>fd d. fds s fd = Some d \<longrightarrow> fd < next_fd s) \<and>
     (\<forall>fd d i. fds s fd = Some d \<longrightarrow> fd_ino d = Some i \<longrightarrow> i < next_ino s)"

definition wf_kept :: "'z os_scheme \<Rightarrow> 'z os_scheme \<Rightarrow> bool" where
  "wf_kept s t \<longleftrightarrow> (fs_wf s \<longrightarrow> fs_wf t)"

text \<open>
  What a computation leaves alone: names outside \<open>K\<close> (except that directories may appear), and
  the content of existing files outside \<open>I\<close>.
\<close>

definition frame :: "string list set \<Rightarrow> nat set \<Rightarrow> 'z os_scheme \<Rightarrow> 'z os_scheme \<Rightarrow> bool" where
  "frame K I s t \<longleftrightarrow> os.more t = os.more s \<and> cwd t = cwd s \<and> clock t = clock s \<and>
     next_ino s \<le> next_ino t \<and>
     (\<forall>k. k \<notin> K \<longrightarrow> node t k = node s k \<or> node s k = None \<and> node t k = Some Dir) \<and>
     (\<forall>i < next_ino s. i \<notin> I \<longrightarrow> inodes t i = inodes s i)"

lemma frame_refl: "frame K I s s"
  by (simp add: frame_def)

lemma frame_trans: "frame K I s t \<Longrightarrow> frame K I t u \<Longrightarrow> frame K I s u"
  unfolding frame_def by (metis order.strict_trans2 order_trans option.distinct(1))

interpretation fr: os_frame "frame K I" for K I
  by unfold_locales (auto intro: frame_trans simp: frame_refl, simp_all add: frame_def)

interpretation wf: os_relation wf_kept
  by unfold_locales (simp_all add: wf_kept_def fs_wf_def)

lemma frame_mono: "frame K I s t \<Longrightarrow> K \<subseteq> K' \<Longrightarrow> I \<subseteq> I' \<Longrightarrow> frame K' I' s t"
  by (auto simp: frame_def)

lemma frame_compose:
  assumes "frame K I s t" and "frame K J t u" and "\<And>i. i \<in> J \<Longrightarrow> i < next_ino s \<Longrightarrow> i \<in> I"
  shows "frame K I s u"
proof -
  have "next_ino s \<le> next_ino t" using assms(1) by (simp add: frame_def)
  then have "inodes u i = inodes s i" if "i < next_ino s" "i \<notin> I" for i
    using that assms unfolding frame_def by (metis order.strict_trans2)
  with assms(1,2) show ?thesis
    unfolding frame_def by (metis order_trans option.distinct(1))
qed

lemma frame_node:
  "frame K I s t \<Longrightarrow> k \<notin> K \<Longrightarrow> node s k = Some n \<Longrightarrow> node t k = Some n"
  unfolding frame_def by fastforce

lemma frame_key: "frame K I s t \<Longrightarrow> key t p = key s p"
  by (simp add: frame_def key_def)

lemma frame_more: "frame K I s t \<Longrightarrow> os.more t = os.more s"
  by (simp add: frame_def)

subsection \<open>What each call does\<close>

text \<open>\<open>silent\<close>: nothing but outcomes, the error number and descriptors has changed.\<close>

definition silent :: "'z os_scheme \<Rightarrow> 'z os_scheme \<Rightarrow> bool" where
  "silent s t \<longleftrightarrow> node t = node s \<and> inodes t = inodes s \<and> next_ino t = next_ino s \<and>
     dir_stat t = dir_stat s \<and> cwd t = cwd s \<and> clock t = clock s \<and> suffixes t = suffixes s \<and>
     os.more t = os.more s"

definition quiet :: "'z os_scheme \<Rightarrow> 'z os_scheme \<Rightarrow> bool" where
  "quiet s t \<longleftrightarrow> silent s t \<and> fds t = fds s \<and> next_fd t = next_fd s"

interpretation si: os_frame silent
  by unfold_locales (simp_all add: silent_def)

interpretation qu: os_relation quiet
  by unfold_locales (simp_all add: quiet_def silent_def)

lemma quiet_silent: "quiet s t \<Longrightarrow> silent s t"
  by (simp add: quiet_def)

lemma quiet_wf: "quiet s t \<Longrightarrow> fs_wf t = fs_wf s"
  by (simp add: quiet_def silent_def fs_wf_def)

lemma quiet_fds: "quiet s t \<Longrightarrow> fds t = fds s"
  by (simp add: quiet_def)

lemma silent_frame: "silent s t \<Longrightarrow> frame K I s t"
  by (simp add: silent_def frame_def)

lemma silent_eqs:
  assumes "silent s t"
  shows "node t = node s" "inodes t = inodes s" "next_ino t = next_ino s" "cwd t = cwd s"
    "clock t = clock s" "os.more t = os.more s" "key t p = key s p" "lookup t p = lookup s p"
  using assms by (simp_all add: silent_def key_def lookup_def)

lemma run_syscall:
  assumes "run_state (syscall bad body) s = (r, t)"
  obtains (failed) e ts where "r = bad" "t = s\<lparr>tape := ts, errno := e\<rparr>"
  | (ran) ts where "run_state body (s\<lparr>tape := ts\<rparr>) = (r, t)"
proof (cases "tape s")
  case Nil
  then have "run_state body s = (r, t)" using assms by (simp add: syscall_def next_outcome_def)
  moreover have "s\<lparr>tape := []\<rparr> = s" using Nil by (cases s) simp
  ultimately show thesis using ran by metis
next
  case (Cons e ts)
  then show thesis using assms failed ran
    by (cases e) (auto simp: syscall_def next_outcome_def fail_def)
qed

lemma quiet_update: "quiet s (s\<lparr>tape := ts, errno := e\<rparr>)" "quiet s (s\<lparr>tape := ts\<rparr>)"
  by (simp_all add: quiet_def silent_def)

lemma key_more [simp]: "key (s\<lparr>tape := ts\<rparr>) p = key s p" "lookup (s\<lparr>tape := ts\<rparr>) p = lookup s p"
  "parent_exists (s\<lparr>tape := ts\<rparr>) p = parent_exists s p"
  by (simp_all add: key_def lookup_def parent_exists_def)

text \<open>The file a path denotes, or the one that creating it would make.\<close>

definition target :: "'z os_scheme \<Rightarrow> string \<Rightarrow> nat" where
  "target s p = (case lookup s p of Some (File i) \<Rightarrow> i | _ \<Rightarrow> next_ino s)"

definition made :: "'z os_scheme \<Rightarrow> string \<Rightarrow> string list set" where
  "made s p = (if lookup s p = None then {key s p} else {})"

lemma open_trunc_run:
  assumes "run_state (open_trunc p) s = (r, t)"
  obtains (failed) "r = None" "quiet s t"
  | (opened) "r = Some (next_fd s)" "lookup t p = Some (File (target s p))"
      "fds t = (fds s)(next_fd s \<mapsto> \<lparr>fd_ino = Some (target s p), fd_pos = 0\<rparr>)" "next_fd t = next_fd s + 1"
      "bytes (inodes t (target s p)) = []" "frame (made s p) {target s p} s t"
      "fs_wf s \<Longrightarrow> fs_wf t" "lookup s p \<noteq> None \<Longrightarrow> node t = node s"
proof -
  from assms [unfolded open_trunc_def] show thesis
  proof (cases rule: run_syscall)
    case (failed e ts)
    then show ?thesis using that(1) quiet_update by blast
  next
    case (ran ts)
    show ?thesis
    proof (cases "lookup s p")
      case None
      show ?thesis
      proof (cases "parent_exists s p")
        case False
        with None ran show ?thesis
          by (intro that(1)) (auto simp: fail_def quiet_def silent_def)
      next
        case True
        with None ran show ?thesis
          by (intro that(2))
             (auto simp: new_fd_def create_at_def fresh_inode_def lookup_def key_def target_def made_def
                frame_def fs_wf_def parent_exists_def less_Suc_eq split: if_splits)
      qed
    next
      case (Some n)
      show ?thesis
      proof (cases n)
        case Dir
        with Some ran show ?thesis
          by (intro that(1)) (auto simp: fail_def quiet_def silent_def)
      next
        case (File i)
        with Some ran have t: "r = Some (next_fd s)"
          "t = s\<lparr>tape := ts, inodes := (inodes s)(i := (inodes s i)\<lparr>bytes := [], mtime := clock s\<rparr>),
             fds := (fds s)(next_fd s \<mapsto> \<lparr>fd_ino = Some i, fd_pos = 0\<rparr>), next_fd := next_fd s + 1\<rparr>"
          by (auto simp: new_fd_def)
        have ti: "target s p = i" using Some File by (simp add: target_def)
        show ?thesis
          using Some File t ti
          by (intro that(2))
             (auto simp: lookup_def key_def made_def frame_def fs_wf_def less_Suc_eq split: if_splits)
      qed
    qed
  qed
qed

lemma unlink_run:
  assumes "run_state (unlink p) s = (r, t)"
  obtains (failed) "\<not> r" "quiet s t"
  | (removed) i where "r" "lookup s p = Some (File i)"
      "quiet (s\<lparr>node := (node s)(key s p := None)\<rparr>) t"
proof -
  from assms [unfolded unlink_def] show thesis
  proof (cases rule: run_syscall)
    case (ran ts)
    then show ?thesis using that
      by (auto simp: fail_def quiet_def silent_def split: option.splits node.splits)
  qed (use that(1) quiet_update in blast)
qed

lemma link_run:
  assumes "run_state (link old new) s = (r, t)"
  obtains (failed) "\<not> r" "quiet s t"
  | (linked) i where "r" "lookup s old = Some (File i)" "lookup s new = None" "parent_exists s new"
      "quiet (s\<lparr>node := (node s)(key s new \<mapsto> File i)\<rparr>) t"
proof -
  from assms [unfolded link_def] show thesis
  proof (cases rule: run_syscall)
    case (ran ts)
    then show ?thesis using that
      by (auto simp: fail_def quiet_def silent_def split: option.splits node.splits if_splits)
  qed (use that(1) quiet_update in blast)
qed

lemma rename_run:
  assumes "run_state (rename_file old new) s = (r, t)"
  obtains (failed) "\<not> r" "quiet s t"
  | (same) i where "r" "lookup s old = Some (File i)" "lookup s new = Some (File i)" "quiet s t"
  | (moved) i where "r" "lookup s old = Some (File i)" "lookup s new \<noteq> Some (File i)"
      "lookup s new \<noteq> Some Dir" "parent_exists s new"
      "quiet (s\<lparr>node := (node s)(key s new \<mapsto> File i, key s old := None)\<rparr>) t"
proof -
  from assms [unfolded rename_file_def] show thesis
  proof (cases rule: run_syscall)
    case (ran ts)
    then show ?thesis using that
      by (auto simp: fail_def quiet_def silent_def split: option.splits node.splits if_splits)
  qed (use that(1) quiet_update in blast)
qed

lemma first_free_Some:
  "first_free s base xs = Some (p, rest) \<Longrightarrow> lookup s p = None \<and> (\<exists>x \<in> set xs. p = base @ x)"
  by (induction xs) (auto split: if_splits)

lemma first_free_tape [simp]: "first_free (s\<lparr>tape := ts\<rparr>) base xs = first_free s base xs"
  by (induction xs) auto

lemma mkstemp_run:
  assumes "run_state (mkstemp template) s = (r, t)"
  obtains (failed) "r = None" "quiet s t"
  | (created) p where "r = Some (next_fd s, p)" "lookup s p = None" "NUL \<notin> set template"
      "\<exists>x \<in> set (suffixes s). p = take (length template - 6) template @ x"
      "lookup t p = Some (File (next_ino s))" "next_ino t = Suc (next_ino s)"
      "bytes (inodes t (next_ino s)) = []" "frame {key s p} {} s t"
      "fds t = (fds s)(next_fd s \<mapsto> \<lparr>fd_ino = Some (next_ino s), fd_pos = 0\<rparr>)" "next_fd t = next_fd s + 1"
      "fs_wf s \<Longrightarrow> fs_wf t"
proof -
  let ?base = "take (length template - 6) template"
  let ?bad = "NUL \<in> set template \<or> drop (length template - 6) template \<noteq> ''XXXXXX''"
  from assms [unfolded mkstemp_def] show thesis
  proof (cases rule: run_syscall)
    case (ran ts)
    show ?thesis
    proof (cases "?bad \<or> first_free s ?base (suffixes s) = None")
      case True
      with ran show ?thesis
        by (intro that(1)) (auto simp: fail_def quiet_def silent_def Let_def split: if_splits option.splits)
    next
      case False
      then obtain p rest where ff: "first_free s ?base (suffixes s) = Some (p, rest)" and ok: "\<not> ?bad"
        by auto
      note p = first_free_Some [OF ff]
      have t: "run_state (if parent_exists s p then do {
           modify (\<lambda>s. create_at (key s p) (s\<lparr>suffixes := rest\<rparr>));
           fd \<leftarrow> new_fd (Some (next_ino s));
           give (map_option (\<lambda>f. (f, p)) fd) }
         else fail ENOENT None) (s\<lparr>tape := ts\<rparr>) = (r, t)"
        using ran ff ok by (cases "parent_exists s p") (simp_all add: Let_def)
      show ?thesis
      proof (cases "parent_exists s p")
        case False
        with t show ?thesis
          by (intro that(1)) (auto simp: fail_def quiet_def silent_def)
      next
        case True
        with t p ok show ?thesis
          by (intro that(2) [of p])
             (auto simp: new_fd_def create_at_def fresh_inode_def lookup_def key_def
                frame_def fs_wf_def parent_exists_def less_Suc_eq split: if_splits)
      qed
    qed
  qed (use that(1) quiet_update in blast)
qed

text \<open>\<open>extends\<close>: no name or file that existed has changed.\<close>

definition extends :: "'z os_scheme \<Rightarrow> 'z os_scheme \<Rightarrow> bool" where
  "extends s t \<longleftrightarrow> frame {k. node s k = None} {} s t"

lemma extends_trans: "extends s t \<Longrightarrow> extends t u \<Longrightarrow> extends s u"
proof -
  assume st: "extends s t" and tu: "extends t u"
  have "{k. node t k = None} \<subseteq> {k. node s k = None}"
    using frame_node [OF st [unfolded extends_def]] by fastforce
  then have "frame {k. node s k = None} {} t u"
    using tu frame_mono unfolding extends_def by blast
  with st show ?thesis unfolding extends_def by (rule frame_trans)
qed

interpretation ex: os_frame extends
  by unfold_locales (erule (1) extends_trans | simp add: extends_def frame_def)+

lemma silent_extends: "silent s t \<Longrightarrow> extends s t"
  by (simp add: extends_def silent_frame)

lemma frame_extends: "frame K {} s t \<Longrightarrow> (\<And>k. k \<in> K \<Longrightarrow> node s k = None) \<Longrightarrow> extends s t"
  unfolding extends_def by (rule frame_mono) auto

lemma extends_node: "extends s t \<Longrightarrow> node s k = Some n \<Longrightarrow> node t k = Some n"
  unfolding extends_def using frame_node by fastforce

lemma extends_inode: "extends s t \<Longrightarrow> i < next_ino s \<Longrightarrow> inodes t i = inodes s i"
  by (simp add: extends_def frame_def)

lemma close_run:
  assumes "run_state (close fd) s = (r, t)"
  shows "quiet (s\<lparr>fds := (fds s)(fd := None)\<rparr>) t"
  using assms
  by (auto simp: close_def syscall_def next_outcome_def fail_def quiet_def silent_def
        split: list.splits outcome.splits)

lemma make_dirs_run:
  assumes "run_state (make_dirs ks) s = (r, t)"
  shows "frame {} {} s t \<and> fds t = fds s \<and> next_fd t = next_fd s \<and> inodes t = inodes s \<and>
     next_ino t = next_ino s \<and> suffixes t = suffixes s \<and> (fs_wf s \<longrightarrow> fs_wf t) \<and>
     (r \<longrightarrow> list_all (\<lambda>k. node t k = Some Dir) ks)"
  using assms
proof (induction ks arbitrary: s)
  case Nil
  then show ?case by (simp add: frame_refl)
next
  case (Cons k ks)
  show ?case
  proof (cases "node s k")
    case (Some n)
    show ?thesis
    proof (cases n)
      case Dir
      with Some Cons.prems have run: "run_state (make_dirs ks) s = (r, t)" by simp
      note IH = Cons.IH [OF run]
      moreover from IH have "node t k = Some Dir"
        using frame_node [of "{}" "{}" s t k Dir] Some Dir by simp
      ultimately show ?thesis by simp
    next
      case (File i)
      with Some Cons.prems show ?thesis by (auto simp: fail_def frame_def fs_wf_def)
    qed
  next
    case None
    then consider (bad) e ts where "r = False" "t = s\<lparr>tape := ts, errno := e\<rparr>"
      | (ok) ts where "run_state (make_dirs ks) (s\<lparr>tape := ts, node := (node s)(k \<mapsto> Dir)\<rparr>) = (r, t)"
    proof (cases "tape s")
      case Nil
      then have "s\<lparr>tape := [], node := (node s)(k \<mapsto> Dir)\<rparr> = s\<lparr>node := (node s)(k \<mapsto> Dir)\<rparr>"
        by (cases s) simp
      moreover have "run_state (make_dirs ks) (s\<lparr>node := (node s)(k \<mapsto> Dir)\<rparr>) = (r, t)"
        using Nil None Cons.prems by (simp add: next_outcome_def)
      ultimately show ?thesis using ok [of "[]"] by argo
    next
      case tp: (Cons x xs)
      show ?thesis
        by (cases x) (use tp None Cons.prems ok [of xs] bad in \<open>auto simp: next_outcome_def fail_def\<close>)
    qed
    then show ?thesis
    proof cases
      case bad
      then show ?thesis by (auto simp: frame_def fs_wf_def)
    next
      case ok
      note IH = Cons.IH [OF ok]
      have step: "frame {} {} s (s\<lparr>tape := ts, node := (node s)(k \<mapsto> Dir)\<rparr>)"
        using None by (auto simp: frame_def)
      have "node t k = Some Dir"
        using frame_node [of "{}" "{}" "s\<lparr>tape := ts, node := (node s)(k \<mapsto> Dir)\<rparr>" t k Dir] IH by simp
      moreover have "fs_wf s \<Longrightarrow> fs_wf (s\<lparr>tape := ts, node := (node s)(k \<mapsto> Dir)\<rparr>)"
        by (auto simp: fs_wf_def)
      ultimately show ?thesis using IH frame_trans [OF step] by simp
    qed
  qed
qed

end
