(* ===== verification/Bundle.thy ===== *)
theory Bundle
  imports Prelude
begin

text \<open>
  \<^verbatim>\<open>src/src/server/bundle.h\<close>: the C++ templates \<^verbatim>\<open>pack\<close> and \<^verbatim>\<open>unpack\<close> that put a header before
  compressed data and read it back. The compressors, the variable-length integers and the test
  for a header are the C interface of the bundle library, whose bodies are not in the
  repository: they are the record \<open>bundle_lib\<close>, and what the header file documents about them
  is \<open>bundle_laws\<close>. The frame is \<open>MAX_HEADER_SIZE\<close> = 32 bytes, zeros first, then the byte 0x70, the
  compressor's number and the two sizes.
\<close>

record bundle_lib =
  bundle_is_packed :: "string \<Rightarrow> bool"
  bundle_padding :: "string \<Rightarrow> nat"
  bundle_unc_payload :: "nat \<Rightarrow> nat"
  bundle_bound :: "nat \<Rightarrow> nat \<Rightarrow> nat"
  bundle_pack :: "nat \<Rightarrow> string \<Rightarrow> nat \<Rightarrow> string option"
  bundle_unpack :: "nat \<Rightarrow> string \<Rightarrow> nat \<Rightarrow> string option"
  bundle_enc_vlebit :: "nat \<Rightarrow> string"
  bundle_dec_vlebit :: "string \<Rightarrow> nat \<times> nat"

definition MAX_HEADER_SIZE :: nat where
  "MAX_HEADER_SIZE = 32"

subsection \<open>Packing\<close>

definition vlebit_enc :: "bundle_lib \<Rightarrow> nat \<Rightarrow> string" where
  "vlebit_enc lib i = bundle_enc_vlebit lib i"

definition frame_header :: "bundle_lib \<Rightarrow> nat \<Rightarrow> nat \<Rightarrow> nat \<Rightarrow> string" where
  "frame_header lib q len zlen =
     [char_of (0x70 :: nat)] @ [char_of q] @ vlebit_enc lib len @ vlebit_enc lib zlen"

text \<open>The result is the output and whether it was compressed; on failure the input is copied.\<close>

definition pack_into :: "bundle_lib \<Rightarrow> nat \<Rightarrow> string \<Rightarrow> bool \<times> string" where
  "pack_into lib q input =
     (if input = [] then (True, input)
      else case bundle_pack lib q input (bundle_bound lib q (length input)) of
        None \<Rightarrow> (False, input)
      | Some z \<Rightarrow>
          let header = frame_header lib q (length input) (length z)
          in (True, replicate (MAX_HEADER_SIZE - length header) NUL @ header @ z))"

definition pack :: "bundle_lib \<Rightarrow> nat \<Rightarrow> string \<Rightarrow> string" where
  "pack lib q input = snd (pack_into lib q input)"

subsection \<open>Unpacking\<close>

text \<open>Reading a size returns it with the rest of the text the pointer moves to.\<close>

definition vlebit_dec :: "bundle_lib \<Rightarrow> string \<Rightarrow> nat \<times> string" where
  "vlebit_dec lib s = (let r = bundle_dec_vlebit lib s in (snd r, drop (fst r) s))"

text \<open>\<open>unsigned Q = input[pad + 1]\<close> extends the sign of a \<^verbatim>\<open>char\<close>.\<close>

definition char_to_unsigned :: "char \<Rightarrow> nat" where
  "char_to_unsigned c = (if ord c < 128 then ord c else 2 ^ 32 - 256 + ord c)"

definition unpack_into :: "bundle_lib \<Rightarrow> string \<Rightarrow> bool \<times> string" where
  "unpack_into lib input =
     (if bundle_is_packed lib input then
        let pad = bundle_padding lib input;
            q = char_to_unsigned (input ! (pad + 1));
            (size1, r1) = vlebit_dec lib (drop (pad + 2) input);
            (size2, r2) = vlebit_dec lib r1
        in case bundle_unpack lib q (take size2 r2) (size1 + bundle_unc_payload lib q) of
             Some out \<Rightarrow> (True, out)
           | None \<Rightarrow> (False, input)
      else (False, input))"

definition unpack :: "bundle_lib \<Rightarrow> string \<Rightarrow> string" where
  "unpack lib input = snd (unpack_into lib input)"

subsection \<open>What the C interface promises\<close>

text \<open>
  A 64-bit size takes at most ten bytes and reads back whatever follows it. Of texts the library is only asked about those
  that \<open>pack\<close> wrote: they are recognised as packed, the padding is the zeros before the header, and decompressing them
  into the room the original needs gives the original back.
\<close>

definition vlebit_laws :: "bundle_lib \<Rightarrow> bool" where
  "vlebit_laws lib \<longleftrightarrow> (\<forall>n < 2 ^ 64. length (bundle_enc_vlebit lib n) \<le> 10 \<and>
     (\<forall>s. bundle_dec_vlebit lib (bundle_enc_vlebit lib n @ s) = (length (bundle_enc_vlebit lib n), n)))"

definition packed_frame :: "bundle_lib \<Rightarrow> nat \<Rightarrow> string \<Rightarrow> string \<Rightarrow> string" where
  "packed_frame lib q input z = (let header = frame_header lib q (length input) (length z)
     in replicate (MAX_HEADER_SIZE - length header) NUL @ header @ z)"

definition bundle_laws :: "bundle_lib \<Rightarrow> bool" where
  "bundle_laws lib \<longleftrightarrow> vlebit_laws lib \<and>
     (\<forall>q input z. input \<noteq> [] \<longrightarrow> length input < 2 ^ 64 \<longrightarrow>
        bundle_pack lib q input (bundle_bound lib q (length input)) = Some z \<longrightarrow>
        length z < 2 ^ 64 \<and> bundle_is_packed lib (packed_frame lib q input z) \<and>
        bundle_padding lib (packed_frame lib q input z) =
          MAX_HEADER_SIZE - length (frame_header lib q (length input) (length z)) \<and>
        bundle_unpack lib q z (length input + bundle_unc_payload lib q) = Some input)"

text \<open>When the compressor fails, the content is stored as it is; then it must not look packed itself.\<close>

definition packable :: "bundle_lib \<Rightarrow> nat \<Rightarrow> string \<Rightarrow> bool" where
  "packable lib q input \<longleftrightarrow>
     \<not> bundle_is_packed lib input \<or>
     input \<noteq> [] \<and> bundle_pack lib q input (bundle_bound lib q (length input)) \<noteq> None"

lemma vlebit_dec_enc:
  assumes "bundle_laws lib" and "n < 2 ^ 64"
  shows "vlebit_dec lib (vlebit_enc lib n @ s) = (n, s)"
  using assms by (simp add: bundle_laws_def vlebit_laws_def vlebit_dec_def vlebit_enc_def Let_def)

lemma unpack_frame:
  assumes "bundle_laws lib" and "q < 128" and "length input < 2 ^ 64" and "length z < 2 ^ 64"
    and "bundle_is_packed lib (packed_frame lib q input z)"
    and "bundle_padding lib (packed_frame lib q input z) =
      MAX_HEADER_SIZE - length (frame_header lib q (length input) (length z))"
    and "bundle_unpack lib q z (length input + bundle_unc_payload lib q) = Some out"
  shows "unpack_into lib (packed_frame lib q input z) = (True, out)"
proof -
  let ?h = "frame_header lib q (length input) (length z)" and ?x = "packed_frame lib q input z"
  let ?p = "MAX_HEADER_SIZE - length ?h"
  have x: "?x = replicate ?p NUL @ ?h @ z" by (simp add: packed_frame_def Let_def)
  have "?x ! (?p + 1) = char_of q" unfolding x by (simp add: nth_append frame_header_def)
  then have q: "char_to_unsigned (?x ! (?p + 1)) = q"
    using assms(2) by (simp add: char_to_unsigned_def)
  have rest: "drop (?p + 2) ?x = vlebit_enc lib (length input) @ vlebit_enc lib (length z) @ z"
    unfolding x by (simp add: frame_header_def)
  show ?thesis
    unfolding unpack_into_def Let_def assms(6) q rest
    using assms(5,7) by (simp add: vlebit_dec_enc [OF assms(1,3)] vlebit_dec_enc [OF assms(1,4)])
qed

lemma unpack_pack:
  assumes "bundle_laws lib" and "q < 128" and "length input < 2 ^ 64" and "packable lib q input"
  shows "unpack lib (pack lib q input) = input"
proof (cases "input \<noteq> [] \<and> bundle_pack lib q input (bundle_bound lib q (length input)) \<noteq> None")
  case False
  with assms(4) show ?thesis
    by (auto simp: pack_def pack_into_def unpack_def unpack_into_def packable_def)
next
  case True
  then obtain z where z: "bundle_pack lib q input (bundle_bound lib q (length input)) = Some z" by blast
  have out: "length z < 2 ^ 64" "bundle_is_packed lib (packed_frame lib q input z)"
    "bundle_padding lib (packed_frame lib q input z) =
      MAX_HEADER_SIZE - length (frame_header lib q (length input) (length z))"
    "bundle_unpack lib q z (length input + bundle_unc_payload lib q) = Some input"
    using assms(1,3) True z unfolding bundle_laws_def by blast+
  have "pack lib q input = packed_frame lib q input z"
    using True z by (simp add: pack_def pack_into_def packed_frame_def Let_def)
  then show ?thesis using unpack_frame [OF assms(1-3) out] by (simp add: unpack_def)
qed

subsection \<open>A library that satisfies the promises\<close>

text \<open>The compressor that stores its input, with sizes of eight bytes.\<close>

primrec stored_enc :: "nat \<Rightarrow> nat \<Rightarrow> string" where
  "stored_enc 0 n = []"
| "stored_enc (Suc k) n = char_of n # stored_enc k (n div 256)"

primrec stored_dec :: "nat \<Rightarrow> string \<Rightarrow> nat" where
  "stored_dec 0 s = 0"
| "stored_dec (Suc k) s = ord (hd s) + 256 * stored_dec k (tl s)"

definition stored_lib :: bundle_lib where
  "stored_lib = \<lparr>
     bundle_is_packed = (\<lambda>s. case dropWhile (\<lambda>c. c = NUL) s of [] \<Rightarrow> False | c # cs \<Rightarrow> ord c = 112),
     bundle_padding = (\<lambda>s. length (takeWhile (\<lambda>c. c = NUL) s)),
     bundle_unc_payload = (\<lambda>q. 0),
     bundle_bound = (\<lambda>q n. n),
     bundle_pack = (\<lambda>q s n. if length s \<le> n then Some s else None),
     bundle_unpack = (\<lambda>q s n. if length s \<le> n then Some s else None),
     bundle_enc_vlebit = stored_enc 8,
     bundle_dec_vlebit = (\<lambda>s. (8, stored_dec 8 s))\<rparr>"

lemma stored_enc_length [simp]: "length (stored_enc k n) = k"
  by (induction k arbitrary: n) auto

lemma stored_dec_enc: "n < 256 ^ k \<Longrightarrow> stored_dec k (stored_enc k n @ s) = n"
proof (induction k arbitrary: n)
  case (Suc k)
  then have "n div 256 < 256 ^ k" by (simp add: less_mult_imp_div_less mult.commute)
  with Suc.IH show ?case by (simp del: append_assoc)
qed simp

lemma padding_NUL:
  "c \<noteq> NUL \<Longrightarrow> takeWhile (\<lambda>c. c = NUL) (replicate p NUL @ c # s) = replicate p NUL"
  "c \<noteq> NUL \<Longrightarrow> dropWhile (\<lambda>c. c = NUL) (replicate p NUL @ c # s) = c # s"
  by (induction p) auto

lemma stored_laws: "bundle_laws stored_lib"
proof -
  have vle: "vlebit_laws stored_lib"
    unfolding vlebit_laws_def by (auto simp: stored_lib_def intro!: stored_dec_enc)
  have "bundle_is_packed stored_lib (packed_frame stored_lib q input z) \<and>
    bundle_padding stored_lib (packed_frame stored_lib q input z) =
      MAX_HEADER_SIZE - length (frame_header stored_lib q (length input) (length z))" for q input z
  proof -
    have "char_of (112 :: nat) \<noteq> NUL" by (simp add: char_of_eq_iff)
    from padding_NUL [OF this] show ?thesis
      by (simp add: stored_lib_def frame_header_def packed_frame_def Let_def)
  qed
  with vle show ?thesis
    unfolding bundle_laws_def by (simp add: stored_lib_def split: if_splits)
qed

subsection \<open>Property\<close>

text \<open>Unpacking what \<open>pack\<close> produced gives the original bytes, whichever compressor is configured, and also
  when the compressor gave up and the input was stored as it is, provided an input that could not be
  compressed does not itself look packed.\<close>

theorem bundle_round_trip:
  assumes "bundle_laws lib" and "q < 128" and "length input < 2 ^ 64" and "packable lib q input"
  shows "unpack lib (pack lib q input) = input"
  using assms by (rule unpack_pack)

text \<open>
  The condition cannot be dropped: with a compressor that fails, a content that looks packed is stored as it is, and what
  comes back is something else.
\<close>

definition failing_lib :: bundle_lib where
  "failing_lib = stored_lib\<lparr>bundle_pack := (\<lambda>q s n. None)\<rparr>"

lemma raw_content_unpacked:
  "bundle_laws failing_lib"
  "pack failing_lib 4 (pack stored_lib 4 ''data'') = pack stored_lib 4 ''data''"
  "unpack failing_lib (pack failing_lib 4 (pack stored_lib 4 ''data'')) = ''data''"
proof -
  show "bundle_laws failing_lib"
    using stored_laws by (simp add: bundle_laws_def vlebit_laws_def failing_lib_def)
  show p: "pack failing_lib 4 (pack stored_lib 4 ''data'') = pack stored_lib 4 ''data''"
    by (simp add: pack_def pack_into_def failing_lib_def)
  have "unpack failing_lib x = unpack stored_lib x" for x
    by (simp add: unpack_def unpack_into_def failing_lib_def vlebit_dec_def)
  moreover have "packable stored_lib 4 ''data''" by (simp add: packable_def stored_lib_def)
  ultimately show "unpack failing_lib (pack failing_lib 4 (pack stored_lib 4 ''data'')) = ''data''"
    unfolding p using unpack_pack [OF stored_laws, of 4 "''data''"] by simp
qed

lemma bundle_round_trip_witness:
  "unpack stored_lib (pack stored_lib 4 ''data'') = ''data'' \<and> packable stored_lib 4 ''data''"
proof -
  have "packable stored_lib 4 ''data''" by (simp add: packable_def stored_lib_def)
  with bundle_round_trip [OF stored_laws, of 4 "''data''"] show ?thesis by simp
qed

end
