(* ===== verification/File_Util.thy ===== *)
theory File_Util
  imports Posix Bundle
begin

text \<open>
  \<^verbatim>\<open>src/src/server/Util.hpp\<close>, class \<^verbatim>\<open>FileUtil\<close>: the only way the storage server touches files. Each
  method takes the \<^verbatim>\<open>filename_\<close> of its object first. A method that returns \<^verbatim>\<open>bool\<close> and fills an
  output parameter returns an option; the tests of output parameters against \<^verbatim>\<open>nullptr\<close> are left
  out, since every caller passes the address of a variable. The lemmas say, under every
  sequence of failures, interruptions and short transfers, what a method has done when it reports
  success, what it leaves alone when it does not, and that it gives back every descriptor.
\<close>

subsection \<open>Inspecting a file\<close>

definition FileSize :: "string \<Rightarrow> ('z, int) io" where
  "FileSize f = do { st \<leftarrow> stat f; give (case st of None \<Rightarrow> -1 | Some b \<Rightarrow> st_size b) }"

definition LastAccessTime :: "string \<Rightarrow> ('z, int) io" where
  "LastAccessTime f = do { st \<leftarrow> stat f; give (case st of None \<Rightarrow> -1 | Some b \<Rightarrow> st_atime b) }"

definition LastModifyTime :: "string \<Rightarrow> ('z, int) io" where
  "LastModifyTime f = do { st \<leftarrow> stat f; give (case st of None \<Rightarrow> -1 | Some b \<Rightarrow> st_mtime b) }"

definition FileName :: "string \<Rightarrow> string" where
  "FileName f = path_filename f"

subsection \<open>Reading\<close>

definition off_t_max :: nat where
  "off_t_max = 2 ^ 63 - 1"

lemma tape_next: "run_state next_outcome s = (r, t) \<Longrightarrow> r \<noteq> Done \<Longrightarrow> length (tape t) < length (tape s)"
  by (auto simp: next_outcome_def split: list.splits)

lemma tape_next_le: "run_state next_outcome s = (r, t) \<Longrightarrow> length (tape t) \<le> length (tape s)"
  by (auto simp: next_outcome_def split: list.splits)

lemma run_next:
  "run_state next_outcome s = (case tape s of [] \<Rightarrow> (Done, s) | r # ts \<Rightarrow> (r, s\<lparr>tape := ts\<rparr>))"
  by (simp add: next_outcome_def)

lemma pread_tape:
  assumes "run_state (pread fd len off) s = (r, t)"
  shows "length (tape t) \<le> length (tape s)"
    and "r = None \<Longrightarrow> errno t = EINTR \<Longrightarrow> length (tape t) < length (tape s)"
    and "r = Some x \<Longrightarrow> length x \<le> len"
  using assms
  by (auto simp: pread_def run_next fail_def transfer_def split: list.splits outcome.splits option.splits)

text \<open>
  The loop of \<open>GetPosLen\<close>, with the bytes read so far; it ends since an interrupted call uses up an
  outcome and any other call ends it or makes progress.
\<close>

function read_loop :: "nat \<Rightarrow> nat \<Rightarrow> nat \<Rightarrow> string \<Rightarrow> 'z os_scheme \<Rightarrow> string option \<times> 'z os_scheme" where
  "read_loop fd position len content s =
     (if length content < len then
        (case run_state (pread fd (len - length content) (position + length content)) s of
           (None, t) \<Rightarrow> if errno t = EINTR then read_loop fd position len content t else (None, t)
         | (Some chunk, t) \<Rightarrow>
             if chunk = [] then (None, t) else read_loop fd position len (content @ chunk) t)
      else (Some content, s))"
  by auto

termination
proof (relation "measure (\<lambda>(fd, position, len, content, s). length (tape s) + (len - length content))", goal_cases)
  case 1
  show ?case by simp
next
  case (2 fd position len content s x t)
  from pread_tape(2) [OF 2(2) [symmetric, unfolded 2(3)] refl 2(4)] show ?case by simp
next
  case (3 fd position len content s x t chunk)
  note run = 3(2) [symmetric, unfolded 3(3)]
  from 3(1,4) pread_tape(1) [OF run] pread_tape(3) [OF run refl] show ?case
    by (cases chunk) auto
qed

declare read_loop.simps [simp del]

definition GetPosLen :: "string \<Rightarrow> nat \<Rightarrow> nat \<Rightarrow> ('z, string option) io" where
  "GetPosLen f position len = do {
     file_size \<leftarrow> FileSize f;
     if file_size < 0 \<or> nat file_size < position \<or> nat file_size - position < len \<or> off_t_max < position
     then give None
     else do {
       fd \<leftarrow> open_rdonly f;
       case fd of
         None \<Rightarrow> give None
       | Some fd \<Rightarrow> do {
           content \<leftarrow> State (read_loop fd position len []);
           case content of
             None \<Rightarrow> do { close fd; give None }
           | Some c \<Rightarrow> do { ok \<leftarrow> close fd; give (if ok then Some c else None) } } } }"

definition GetContent :: "string \<Rightarrow> ('z, string option) io" where
  "GetContent f = do {
     file_size \<leftarrow> FileSize f;
     if file_size < 0 \<or> 2 ^ 64 \<le> nat file_size then give None
     else GetPosLen f 0 (nat file_size) }"

subsection \<open>Writing\<close>

lemma write_tape:
  assumes "run_state (write_fd fd data) s = (r, t)"
  shows "length (tape t) \<le> length (tape s)"
    and "r = None \<Longrightarrow> errno t = EINTR \<Longrightarrow> length (tape t) < length (tape s)"
    and "r = Some n \<Longrightarrow> n \<le> length data"
  using assms
  by (auto simp: write_fd_def run_next fail_def transfer_def write_at_def
        split: list.splits outcome.splits option.splits)

function write_loop :: "nat \<Rightarrow> string \<Rightarrow> nat \<Rightarrow> 'z os_scheme \<Rightarrow> bool \<times> 'z os_scheme" where
  "write_loop fd content written s =
     (if written < length content then
        (case run_state (write_fd fd (drop written content)) s of
           (None, t) \<Rightarrow> if errno t = EINTR then write_loop fd content written t else (False, t)
         | (Some n, t) \<Rightarrow> if n = 0 then (False, t) else write_loop fd content (written + n) t)
      else (True, s))"
  by auto

termination
proof (relation "measure (\<lambda>(fd, content, written, s). length (tape s) + (length content - written))", goal_cases)
  case 1
  show ?case by simp
next
  case (2 fd content written s x t)
  from write_tape(2) [OF 2(2) [symmetric, unfolded 2(3)] refl 2(4)] show ?case by simp
next
  case (3 fd content written s x t n)
  note run = 3(2) [symmetric, unfolded 3(3)]
  from 3(1,4) write_tape(1) [OF run] write_tape(3) [OF run refl] show ?case by simp
qed

declare write_loop.simps [simp del]

definition SetContent :: "string \<Rightarrow> string \<Rightarrow> ('z, bool) io" where
  "SetContent f content = do {
     fd \<leftarrow> open_trunc f;
     case fd of
       None \<Rightarrow> give False
     | Some fd \<Rightarrow> do {
         all \<leftarrow> State (write_loop fd content 0);
         if \<not> all then do { close fd; give False }
         else do {
           ok \<leftarrow> fsync fd;
           closed \<leftarrow> close fd;
           give (if closed then ok else False) } } }"

definition Compress :: "bundle_lib \<Rightarrow> string \<Rightarrow> string \<Rightarrow> nat \<Rightarrow> ('z, bool) io" where
  "Compress lib f content format = SetContent f (pack lib format content)"

definition UnCompress :: "bundle_lib \<Rightarrow> string \<Rightarrow> string \<Rightarrow> ('z, bool) io" where
  "UnCompress lib f output_path = do {
     packed \<leftarrow> GetContent f;
     case packed of
       None \<Rightarrow> give False
     | Some packed \<Rightarrow> SetContent output_path (unpack lib packed) }"

subsection \<open>Directories\<close>

text \<open>\<open>Exists\<close> also returns whether its error code is set.\<close>

definition Exists :: "string \<Rightarrow> ('z, bool \<times> bool) io" where
  "Exists f = do { r \<leftarrow> fs_exists f; give (fst r \<and> \<not> snd r, snd r) }"

definition CreateDirectory :: "string \<Rightarrow> ('z, bool) io" where
  "CreateDirectory f = do {
     r \<leftarrow> fs_exists f;
     if fst r then
       (if snd r then give False else do { d \<leftarrow> fs_is_directory f; give (fst d) })
     else fs_create_directories f }"

definition JoinPath :: "string \<Rightarrow> string \<Rightarrow> string" where
  "JoinPath directory filename = path_join directory filename"

definition ParentPath :: "string \<Rightarrow> string" where
  "ParentPath path = (let parent = parent_path path in if parent = [] then ''.'' else parent)"

definition CreateTempFile :: "string \<Rightarrow> string \<Rightarrow> ('z, string option) io" where
  "CreateTempFile directory prefix =
     (if CHR ''/'' \<in> set prefix then give None
      else do {
        made \<leftarrow> CreateDirectory directory;
        if \<not> made then give None
        else do {
          fd \<leftarrow> mkstemp (JoinPath directory (prefix @ ''XXXXXX''));
          case fd of
            None \<Rightarrow> give None
          | Some (fd, path) \<Rightarrow> do {
              closed \<leftarrow> close fd;
              if closed then give (Some path)
              else do { unlink path; give None } } } })"

definition SyncDirectory :: "string \<Rightarrow> ('z, bool) io" where
  "SyncDirectory directory = do {
     fd \<leftarrow> open_directory directory;
     case fd of
       None \<Rightarrow> give False
     | Some fd \<Rightarrow> do {
         ok \<leftarrow> fsync fd;
         closed \<leftarrow> close fd;
         give (if closed then ok else False) } }"

definition CommitNoReplace :: "string \<Rightarrow> string \<Rightarrow> ('z, bool) io" where
  "CommitNoReplace temporary_path final_path = do {
     linked \<leftarrow> link temporary_path final_path;
     if \<not> linked then give False
     else do {
       removed \<leftarrow> unlink temporary_path;
       if \<not> removed then do {
         saved_errno \<leftarrow> get_errno;
         unlink final_path;
         set_errno saved_errno;
         give False }
       else do {
         SyncDirectory (ParentPath final_path);
         give True } } }"

subsection \<open>Reading returns what the file holds\<close>

lemma silent_target:
  assumes "silent s t"
  shows "target t p = target s p" "made t p = made s p" "parent_exists t p = parent_exists s p"
  using silent_eqs [OF assms] by (simp_all add: target_def made_def parent_exists_def split: option.split node.split)

lemma quiet_trans: "quiet s t \<Longrightarrow> quiet t u \<Longrightarrow> quiet s u"
  by (rule qu.trans)

lemma quiet_eqs:
  assumes "quiet s t"
  shows "node t = node s" "inodes t = inodes s" "next_ino t = next_ino s" "cwd t = cwd s"
    "clock t = clock s" "os.more t = os.more s" "key t p = key s p" "lookup t p = lookup s p"
    "fds t = fds s" "next_fd t = next_fd s" "suffixes t = suffixes s" "fs_wf t = fs_wf s"
    "extends u t = extends u s" "frame K I u t = frame K I u s" "target t p = target s p"
    "made t p = made s p" "parent_exists t p = parent_exists s p"
  using assms
  by (simp_all add: quiet_def silent_def key_def lookup_def fs_wf_def extends_def frame_def
        target_def made_def parent_exists_def split: option.split node.split)

lemma stat_run:
  assumes "run_state (stat p) s = (r, t)"
  shows "quiet s t" and "r = Some b \<Longrightarrow> \<exists>n. lookup s p = Some n \<and> b = stat_node s p n"
proof -
  show "quiet s t" using state_io_relD [OF qu.rel_stat assms] .
  show "\<exists>n. lookup s p = Some n \<and> b = stat_node s p n" if "r = Some b"
    using assms that
    by (auto simp: stat_def syscall_def run_next fail_def stat_node_def key_def lookup_def
          split: list.splits outcome.splits option.splits node.splits)
qed

lemma FileSize_run:
  assumes "run_state (FileSize f) s = (n, t)"
  shows "quiet s t" and "0 \<le> n \<Longrightarrow> lookup s f = Some (File i) \<Longrightarrow> n = int (length (bytes (inodes s i)))"
    and "0 \<le> n \<Longrightarrow> lookup s f \<noteq> None"
proof -
  from assms obtain r where r: "run_state (stat f) s = (r, t)"
    and n: "n = (case r of None \<Rightarrow> -1 | Some b \<Rightarrow> st_size b)"
    by (auto simp: FileSize_def split: prod.splits)
  show "quiet s t" by (rule stat_run(1) [OF r])
  show "n = int (length (bytes (inodes s i)))" if "0 \<le> n" "lookup s f = Some (File i)"
    using that n stat_run(2) [OF r] by (auto simp: stat_node_def split: option.splits)
  show "lookup s f \<noteq> None" if "0 \<le> n"
    using that n stat_run(2) [OF r] by (auto split: option.splits)
qed

lemma take_min_drop [simp]: "take (min (length b - off) n) (drop off b) = take n (drop off b)"
  by (cases "n \<le> length b - off") (simp_all add: min_def)

lemma pread_run:
  assumes "run_state (pread fd len off) s = (r, t)"
  shows "quiet s t"
    and "fds s fd = Some d \<Longrightarrow> fd_ino d = Some i \<Longrightarrow> r = Some x \<Longrightarrow>
      x = take (length x) (drop off (bytes (inodes s i))) \<and> length x \<le> len"
  using state_io_relD [OF qu.rel_pread assms] assms
  by (auto simp: pread_def run_next fail_def transfer_def split: list.splits outcome.splits)

lemma pread_dir:
  assumes "run_state (pread fd len off) s = (Some x, t)" and "fds s fd = Some d"
  shows "\<exists>i. fd_ino d = Some i"
  using assms by (auto simp: pread_def run_next fail_def split: list.splits outcome.splits option.splits)

lemma take_chunk:
  "c = take (length c) b \<Longrightarrow> x = take (length x) (drop (length c) b) \<Longrightarrow> c @ x = take (length (c @ x)) b"
  by (metis length_append take_add)

lemma read_loop_run:
  assumes "read_loop fd position len content s = (r, t)"
    and "fds s fd = Some d"
    and "fd_ino d = Some i \<Longrightarrow> content = take (length content) (drop position (bytes (inodes s i)))"
    and "length content \<le> len"
  shows "quiet s t \<and> (\<forall>c j. r = Some c \<longrightarrow> fd_ino d = Some j \<longrightarrow> j = i \<longrightarrow>
     c = take len (drop position (bytes (inodes s i))) \<and> length c = len)"
  using assms
proof (induction fd position len content s rule: read_loop.induct)
  case (1 fd position len content s)
  show ?case
  proof (cases "length content < len")
    case False
    then show ?thesis using 1(3-6)
      by (auto simp: read_loop.simps [of fd position len content s] qu.refl)
  next
    case True
    obtain r1 s1 where run: "run_state (pread fd (len - length content) (position + length content)) s = (r1, s1)"
      by (rule prod.exhaust)
    note q = pread_run(1) [OF run]
    have fd: "fds s1 fd = Some d" using q 1(4) by (simp add: quiet_eqs)
    show ?thesis
    proof (cases r1)
      case None
      show ?thesis
      proof (cases "errno s1 = EINTR")
        case True
        have "read_loop fd position len content s1 = (r, t)"
          using 1(3) \<open>length content < len\<close> run None True
          by (simp add: read_loop.simps [of fd position len content s])
        from 1(1) [OF \<open>length content < len\<close> run [symmetric] None True this fd] 1(5,6) q
        show ?thesis by (auto simp: quiet_eqs intro: quiet_trans)
      next
        case False
        then show ?thesis using 1(3) \<open>length content < len\<close> run None q
          by (simp add: read_loop.simps [of fd position len content s])
      qed
    next
      case (Some x)
      show ?thesis
      proof (cases "x = []")
        case True
        then show ?thesis using 1(3) \<open>length content < len\<close> run Some q
          by (simp add: read_loop.simps [of fd position len content s])
      next
        case False
        have loop: "read_loop fd position len (content @ x) s1 = (r, t)"
          using 1(3) \<open>length content < len\<close> run Some False
          by (simp add: read_loop.simps [of fd position len content s])
        have len: "length x \<le> len - length content" by (rule pread_tape(3) [OF run Some])
        have "content @ x = take (length (content @ x)) (drop position (bytes (inodes s1 i)))"
          if i: "fd_ino d = Some i"
        proof -
          let ?B = "drop position (bytes (inodes s i))"
          have x: "x = take (length x) (drop (length content) ?B)"
            using pread_run(2) [OF run 1(4) i Some] by (simp add: add.commute)
          show ?thesis
            using take_chunk [OF 1(5) [OF i] x] q by (simp add: quiet_eqs)
        qed
        note IH = 1(2) [OF \<open>length content < len\<close> run [symmetric] Some False loop fd this]
        have "length (content @ x) \<le> len" using len \<open>length content < len\<close> by simp
        from IH [OF _ this] have "quiet s1 t" and
          "\<forall>c j. r = Some c \<longrightarrow> fd_ino d = Some j \<longrightarrow> j = i \<longrightarrow>
            c = take len (drop position (bytes (inodes s1 i))) \<and> length c = len"
          by blast+
        then show ?thesis using quiet_trans [OF q] unfolding quiet_eqs(2) [OF q] by blast
      qed
    qed
  qed
qed

text \<open>
  \<open>tidy\<close>: besides what \<open>silent\<close> allows, well-formedness is kept and every descriptor opened has been closed.
\<close>

definition balanced :: "'z os_scheme \<Rightarrow> 'z os_scheme \<Rightarrow> bool" where
  "balanced s t \<longleftrightarrow> (fs_wf s \<longrightarrow> fs_wf t \<and> fds t = fds s)"

lemma balanced_refl: "balanced s s"
  by (simp add: balanced_def)

lemma balanced_trans: "balanced s t \<Longrightarrow> balanced t u \<Longrightarrow> balanced s u"
  by (auto simp: balanced_def)

definition tidy :: "'z os_scheme \<Rightarrow> 'z os_scheme \<Rightarrow> bool" where
  "tidy s t \<longleftrightarrow> silent s t \<and> balanced s t"

lemma tidy_trans: "tidy s t \<Longrightarrow> tidy t u \<Longrightarrow> tidy s u"
  unfolding tidy_def by (blast intro: si.trans balanced_trans)

lemma quiet_tidy: "quiet s t \<Longrightarrow> tidy s t"
  by (simp add: tidy_def quiet_silent balanced_def quiet_eqs)

interpretation ti: os_relation tidy
  by unfold_locales
    (auto intro: tidy_trans quiet_tidy simp: qu.refl qu.tape qu.errno)

lemma quiet_balanced: "quiet s t \<Longrightarrow> balanced s t"
  using quiet_tidy unfolding tidy_def by blast

lemma open_close_tidy:
  assumes "run_state (new_fd i) s = (Some fd, u)" and "quiet u v" and "run_state (close fd) v = (r, t)"
  shows "tidy s t"
proof -
  note c = close_run [OF assms(3)]
  show ?thesis
    using assms(1,2) c
    by (auto simp: new_fd_def tidy_def balanced_def silent_def quiet_def fs_wf_def fun_upd_idem_iff
          fun_upd_triv split: if_splits) fastforce+
qed

lemma new_fd_run:
  assumes "run_state (new_fd i) s = (r, t)"
  shows "r = Some (next_fd s)" "silent s t" "fds t (next_fd s) = Some \<lparr>fd_ino = i, fd_pos = 0\<rparr>"
  using assms by (auto simp: new_fd_def silent_def)

lemma open_rdonly_run:
  assumes "run_state (open_rdonly p) s = (r, t)"
  obtains (failed) "r = None" "quiet s t"
  | (opened) u i where "quiet s u" "run_state (new_fd i) u = (r, t)" "r \<noteq> None"
      "\<And>j. lookup s p = Some (File j) \<Longrightarrow> i = Some j" "lookup s p \<noteq> None"
proof -
  from assms [unfolded open_rdonly_def] show thesis
  proof (cases rule: run_syscall)
    case (ran ts)
    have q: "quiet s (s\<lparr>tape := ts\<rparr>)" by (rule quiet_update)
    show ?thesis
    proof (cases "lookup s p")
      case None
      with ran show ?thesis by (intro that(1)) (auto simp: fail_def quiet_def silent_def)
    next
      case (Some n)
      then show ?thesis
        using ran by (intro that(2) [OF q, of "case n of File i \<Rightarrow> Some i | _ \<Rightarrow> None"])
          (auto simp: new_fd_def split: node.splits)
    qed
  qed (use that(1) quiet_update in blast)
qed

lemma open_directory_run:
  assumes "run_state (open_directory p) s = (r, t)"
  obtains (failed) "r = None" "quiet s t"
  | (opened) u where "quiet s u" "run_state (new_fd None) u = (r, t)" "r \<noteq> None"
proof -
  from assms [unfolded open_directory_def] show thesis
  proof (cases rule: run_syscall)
    case (ran ts)
    have q: "quiet s (s\<lparr>tape := ts\<rparr>)" by (rule quiet_update)
    show ?thesis
    proof (cases "lookup s p = Some Dir")
      case True
      then show ?thesis using ran by (intro that(2) [OF q]) (auto simp: new_fd_def)
    next
      case False
      with ran show ?thesis
        by (intro that(1)) (auto simp: fail_def quiet_def silent_def split: option.splits node.splits)
    qed
  qed (use that(1) quiet_update in blast)
qed

lemma GetPosLen_run:
  assumes "run_state (GetPosLen f position len) s = (r, t)"
  shows "tidy s t"
    and "r = Some c \<Longrightarrow> lookup s f = Some (File i) \<Longrightarrow>
      c = take len (drop position (bytes (inodes s i))) \<and> length c = len"
    and "r = Some c \<Longrightarrow> lookup s f \<noteq> None"
proof -
  obtain n s1 where size: "run_state (FileSize f) s = (n, s1)" by (rule prod.exhaust)
  note q1 = FileSize_run(1) [OF size]
  have all: "tidy s t \<and> (r = Some c \<longrightarrow> lookup s f \<noteq> None \<and> (\<forall>i. lookup s f = Some (File i) \<longrightarrow>
      c = take len (drop position (bytes (inodes s i))) \<and> length c = len))" for c
  proof (cases "n < 0 \<or> nat n < position \<or> nat n - position < len \<or> off_t_max < position")
    case True
    then have "r = None" "t = s1" using assms size by (auto simp: GetPosLen_def)
    then show ?thesis using q1 by (simp add: quiet_tidy)
  next
    case False
    obtain fd s2 where op: "run_state (open_rdonly f) s1 = (fd, s2)" by (rule prod.exhaust)
    from op show ?thesis
    proof (cases rule: open_rdonly_run)
      case failed
      then have "r = None" "t = s2" using assms size False op by (auto simp: GetPosLen_def)
      then show ?thesis using quiet_trans [OF q1 failed(2)] by (simp add: quiet_tidy)
    next
      case (opened u i)
      note fd = new_fd_run [OF opened(2)]
      obtain r3 s3 where loop: "read_loop (next_fd u) position len [] s2 = (r3, s3)" by (rule prod.exhaust)
      have q3: "quiet s2 s3 \<and> (\<forall>c j. r3 = Some c \<longrightarrow> i = Some j \<longrightarrow>
          c = take len (drop position (bytes (inodes s2 j))) \<and> length c = len)"
        using read_loop_run [OF loop fd(3), where i = "the i"] by auto
      obtain ok s4 where cl: "run_state (close (next_fd u)) s3 = (ok, s4)" by (rule prod.exhaust)
      have t: "t = s4" and r: "r = Some c \<Longrightarrow> r3 = Some c" for c
        using assms size False op fd(1) loop cl
        by (auto simp: GetPosLen_def split: option.splits prod.splits if_splits)
      have "tidy u s4"
        by (rule open_close_tidy [OF opened(2) [unfolded fd(1)] conjunct1 [OF q3] cl])
      then have "tidy s t"
        using q1 opened(1) t tidy_trans quiet_tidy by blast
      moreover have "inodes s2 = inodes s" "lookup s1 f = lookup s f"
        using q1 opened(1) fd(2) by (simp_all add: quiet_eqs silent_def)
      ultimately show ?thesis using q3 r opened(4,5) by auto
    qed
  qed
  from all show "tidy s t" by blast
  from all show "r = Some c \<Longrightarrow> lookup s f = Some (File i) \<Longrightarrow>
      c = take len (drop position (bytes (inodes s i))) \<and> length c = len" by blast
  from all show "r = Some c \<Longrightarrow> lookup s f \<noteq> None" by blast
qed

lemma GetContent_run:
  assumes "run_state (GetContent f) s = (r, t)"
  shows "tidy s t"
    and "r = Some c \<Longrightarrow> lookup s f = Some (File i) \<Longrightarrow> c = bytes (inodes s i)"
    and "r = Some c \<Longrightarrow> lookup s f \<noteq> None"
proof -
  obtain n s1 where size: "run_state (FileSize f) s = (n, s1)" by (rule prod.exhaust)
  note q = FileSize_run(1) [OF size]
  have "tidy s t \<and> (r = Some c \<longrightarrow> lookup s f \<noteq> None) \<and>
      (r = Some c \<longrightarrow> lookup s f = Some (File i) \<longrightarrow> c = bytes (inodes s i))" for c i
  proof (cases "n < 0 \<or> 2 ^ 64 \<le> nat n")
    case True
    then show ?thesis using assms size q by (auto simp: GetContent_def quiet_tidy)
  next
    case False
    then have get: "run_state (GetPosLen f 0 (nat n)) s1 = (r, t)"
      using assms size by (simp add: GetContent_def)
    note g = GetPosLen_run [OF get]
    have "n = int (length (bytes (inodes s i)))" if "lookup s f = Some (File i)"
      using FileSize_run(2) [OF size _ that] False by simp
    then show ?thesis
      using g(1) tidy_trans [OF quiet_tidy [OF q]] g(2) [of c i] g(3) [of c] q
      by (auto simp: quiet_eqs)
  qed
  then show "tidy s t" "r = Some c \<Longrightarrow> lookup s f = Some (File i) \<Longrightarrow> c = bytes (inodes s i)"
    "r = Some c \<Longrightarrow> lookup s f \<noteq> None"
    by blast+
qed

subsection \<open>Writing\<close>

text \<open>\<open>wrote i fd s t\<close>: only the bytes of file \<open>i\<close> and the position of descriptor \<open>fd\<close> have changed.\<close>

definition wrote :: "nat \<Rightarrow> nat \<Rightarrow> 'z os_scheme \<Rightarrow> 'z os_scheme \<Rightarrow> bool" where
  "wrote i fd s t \<longleftrightarrow> node t = node s \<and> next_ino t = next_ino s \<and> cwd t = cwd s \<and> clock t = clock s \<and>
     dir_stat t = dir_stat s \<and> suffixes t = suffixes s \<and> next_fd t = next_fd s \<and> os.more t = os.more s \<and>
     (\<forall>j. j \<noteq> i \<longrightarrow> inodes t j = inodes s j) \<and> (\<forall>g. g \<noteq> fd \<longrightarrow> fds t g = fds s g)"

lemma wrote_trans: "wrote i fd s t \<Longrightarrow> wrote i fd t u \<Longrightarrow> wrote i fd s u"
  by (simp add: wrote_def)

lemma quiet_wrote: "quiet s t \<Longrightarrow> wrote i fd s t"
  by (simp add: wrote_def quiet_def silent_def)

lemma wrote_frame: "wrote i fd s t \<Longrightarrow> frame {} {i} s t"
  by (simp add: wrote_def frame_def)

lemma overwrite_end: "overwrite (length a) b a = a @ b"
  by (simp add: overwrite_def)

lemma write_run:
  assumes "run_state (write_fd fd data) s = (r, t)"
    and "fds s fd = Some d" "fd_ino d = Some i" "fd_pos d = length (bytes (inodes s i))"
  obtains (failed) "r = None" "quiet s t"
  | (some) n where "r = Some n" "n \<le> length data" "wrote i fd s t"
      "bytes (inodes t i) = bytes (inodes s i) @ take n data"
      "fds t fd = Some (d\<lparr>fd_pos := fd_pos d + n\<rparr>)"
proof -
  obtain x u where nx: "run_state next_outcome s = (x, u)" by (rule prod.exhaust)
  have u: "quiet s u"
    using state_io_relD [OF qu.rel_next_outcome nx] .
  show thesis
  proof (cases "\<exists>e. x = Fault e")
    case True
    with assms(1) nx have "r = None" "\<exists>e. t = u\<lparr>errno := e\<rparr>"
      by (auto simp: write_fd_def fail_def split: prod.splits)
    then show ?thesis using that(1) u by (auto simp: quiet_def silent_def)
  next
    case False
    then have ok: "r = Some (transfer x (length data))"
        "t = write_at fd d i (take (transfer x (length data)) data) u"
      using assms(1-3) nx u
      by (auto simp: write_fd_def quiet_eqs split: prod.splits outcome.splits)
    have n: "transfer x (length data) \<le> length data"
      by (cases x) (simp_all add: transfer_def)
    show ?thesis
      using ok n u assms(4) overwrite_end [of "bytes (inodes s i)"]
      by (intro that(2) [of "transfer x (length data)"])
         (auto simp: write_at_def wrote_def quiet_def silent_def)
  qed
qed

lemma write_loop_run:
  assumes "write_loop fd content n s = (r, t)"
    and "fds s fd = Some d" "fd_ino d = Some i" "fd_pos d = n" "n \<le> length content"
    and "bytes (inodes s i) = take n content"
  shows "wrote i fd s t \<and> (\<exists>d'. fds t fd = Some d' \<and> fd_ino d' = Some i) \<and>
     (r \<longrightarrow> bytes (inodes t i) = content)"
  using assms
proof (induction fd content n s arbitrary: d rule: write_loop.induct)
  case (1 fd content n s)
  show ?case
  proof (cases "n < length content")
    case False
    then have "r" "t = s" using 1(3) by (simp_all add: write_loop.simps [of fd content n s])
    then show ?thesis using 1(4,5,7,8) False by (simp add: quiet_wrote qu.refl)
  next
    case True
    obtain r1 s1 where run: "run_state (write_fd fd (drop n content)) s = (r1, s1)"
      by (rule prod.exhaust)
    have pos: "fd_pos d = length (bytes (inodes s i))" using 1(6-8) by simp
    from run 1(4,5) pos show ?thesis
    proof (cases rule: write_run)
      case failed
      note q = failed(2)
      have fd: "fds s1 fd = Some d" using q 1(4) by (simp add: quiet_eqs)
      show ?thesis
      proof (cases "errno s1 = EINTR")
        case True
        have loop: "write_loop fd content n s1 = (r, t)"
          using 1(3) \<open>n < length content\<close> run failed True
          by (simp add: write_loop.simps [of fd content n s])
        have "bytes (inodes s1 i) = take n content" using q 1(8) by (simp add: quiet_eqs)
        from 1(1) [OF \<open>n < length content\<close> run [symmetric] failed(1) True loop fd 1(5,6,7) this]
        show ?thesis using wrote_trans [OF quiet_wrote [OF q]] by blast
      next
        case False
        then have "\<not> r" "t = s1" using 1(3) \<open>n < length content\<close> run failed
          by (simp_all add: write_loop.simps [of fd content n s])
        then show ?thesis using q fd 1(5) by (simp add: quiet_wrote)
      qed
    next
      case (some m)
      show ?thesis
      proof (cases "m = 0")
        case True
        then have "\<not> r" "t = s1" using 1(3) \<open>n < length content\<close> run some(1)
          by (simp_all add: write_loop.simps [of fd content n s])
        then show ?thesis using some(3,5) 1(5) by simp
      next
        case False
        have loop: "write_loop fd content (n + m) s1 = (r, t)"
          using 1(3) \<open>n < length content\<close> run some(1) False
          by (simp add: write_loop.simps [of fd content n s])
        have "bytes (inodes s1 i) = take (n + m) content"
          using some(4) 1(8) by (simp add: take_add)
        moreover have "n + m \<le> length content" using some(2) True by simp
        moreover have "fd_ino (d\<lparr>fd_pos := fd_pos d + m\<rparr>) = Some i"
          "fd_pos (d\<lparr>fd_pos := fd_pos d + m\<rparr>) = n + m" using 1(5,6) by simp_all
        ultimately show ?thesis
          using 1(2) [OF \<open>n < length content\<close> run [symmetric] some(1) False loop some(5)]
            wrote_trans [OF some(3)] by blast
      qed
    qed
  qed
qed

lemma wrote_wf:
  assumes "wrote i fd s t" "fs_wf s" "fds s fd = Some d" "fd_ino d = Some i"
    and "fds t fd = Some d'" "fd_ino d' = Some i"
  shows "fs_wf t"
proof -
  have "fds t g = Some e \<Longrightarrow> g < next_fd s \<and> (\<forall>j. fd_ino e = Some j \<longrightarrow> j < next_ino s)" for g e
    using assms by (cases "g = fd") (auto simp: wrote_def fs_wf_def)
  then show ?thesis using assms(1,2) by (auto simp: wrote_def fs_wf_def)
qed

lemma SetContent_run:
  assumes "run_state (SetContent f content) s = (r, t)"
  obtains (failed) "\<not> r" "quiet s t"
  | (stopped) "\<not> r" "frame (made s f) {target s f} s t" "lookup t f = Some (File (target s f))" "balanced s t"
      "lookup s f \<noteq> None \<Longrightarrow> node t = node s"
  | (stored) "r" "frame (made s f) {target s f} s t" "lookup t f = Some (File (target s f))" "balanced s t"
      "bytes (inodes t (target s f)) = content" "lookup s f \<noteq> None \<Longrightarrow> node t = node s"
proof -
  obtain fd s1 where op: "run_state (open_trunc f) s = (fd, s1)" by (rule prod.exhaust)
  from op show thesis
  proof (cases rule: open_trunc_run)
    case failed
    then have "\<not> r" "t = s1" using assms op by (auto simp: SetContent_def)
    then show ?thesis using that(1) failed(2) by simp
  next
    case opened
    let ?i = "target s f" and ?fd = "next_fd s"
    let ?d = "\<lparr>fd_ino = Some ?i, fd_pos = 0\<rparr> :: descriptor"
    obtain w s2 where loop: "write_loop ?fd content 0 s1 = (w, s2)" by (rule prod.exhaust)
    have d1: "fds s1 ?fd = Some ?d" using opened(3) by simp
    have w2: "wrote ?i ?fd s1 s2 \<and> (\<exists>d'. fds s2 ?fd = Some d' \<and> fd_ino d' = Some ?i) \<and>
        (w \<longrightarrow> bytes (inodes s2 ?i) = content)"
      by (rule write_loop_run [OF loop d1]) (simp_all add: opened(5))
    obtain ok s3 where sync: "run_state (fsync ?fd) s2 = (ok, s3)" by (rule prod.exhaust)
    have q3: "quiet s2 s3" by (rule state_io_relD [OF qu.rel_fsync sync])
    define v where "v = (if w then s3 else s2)"
    have v: "quiet s2 v" using q3 by (simp add: v_def qu.refl)
    obtain cl s4 where c: "run_state (close ?fd) v = (cl, s4)" by (rule prod.exhaust)
    have res: "t = s4" "r \<Longrightarrow> w"
      using assms op opened(1) loop sync c
      by (auto simp: SetContent_def v_def split: if_splits prod.splits)
    have q4: "quiet (v\<lparr>fds := (fds v)(?fd := None)\<rparr>) t"
      using close_run [OF c] res(1) by simp
    have wv: "wrote ?i ?fd s1 v" using w2 v quiet_wrote wrote_trans by blast
    then have wt: "wrote ?i ?fd s1 t"
      using q4 by (simp add: wrote_def quiet_def silent_def)
    have fr: "frame (made s f) {?i} s t"
      using frame_trans [OF opened(6)] frame_mono [OF wrote_frame [OF wt]] by blast
    have lk: "lookup t f = Some (File ?i)"
      using opened(2) wt by (simp add: lookup_def key_def wrote_def split: if_splits)
    have "balanced s t"
      unfolding balanced_def
    proof
      assume wf: "fs_wf s"
      have "fs_wf s1" by (rule opened(7) [OF wf])
      then have wf2: "fs_wf s2" using w2 wrote_wf d1 by fastforce
      then have "fs_wf v" using v by (simp add: quiet_eqs)
      then have "fs_wf (v\<lparr>fds := (fds v)(?fd := None)\<rparr>)"
        by (auto simp: fs_wf_def)
      then have "fs_wf t" using q4 by (simp add: quiet_eqs)
      moreover have "fds s ?fd = None"
        using wf unfolding fs_wf_def by (metis less_irrefl option.exhaust)
      then have "fds t g = fds s g" for g
        using q4 wv opened(3) by (cases "g = ?fd") (simp_all add: quiet_def wrote_def)
      then have "fds t = fds s" by (simp add: fun_eq_iff)
      ultimately show "fs_wf t \<and> fds t = fds s" by simp
    qed
    moreover have "r \<Longrightarrow> bytes (inodes t ?i) = content"
      using res w2 q3 q4 by (simp add: v_def quiet_def silent_def)
    moreover have "lookup s f \<noteq> None \<Longrightarrow> node t = node s"
      using opened(8) wt by (simp add: wrote_def)
    ultimately show ?thesis using that(2,3) fr lk by blast
  qed
qed

lemma UnCompress_run:
  assumes "run_state (UnCompress lib f out) s = (r, t)"
  shows "frame (made s out) {target s out} s t" and "balanced s t"
    and "r \<Longrightarrow> lookup t out = Some (File (target s out))"
    and "r \<Longrightarrow> lookup s f = Some (File i) \<Longrightarrow> bytes (inodes t (target s out)) = unpack lib (bytes (inodes s i))"
proof -
  obtain c s1 where get: "run_state (GetContent f) s = (c, s1)" by (rule prod.exhaust)
  note g = GetContent_run [OF get]
  have s1: "made s1 out = made s out" "target s1 out = target s out" "frame (made s out) {target s out} s s1"
    using g(1) silent_target silent_frame unfolding tidy_def by blast+
  have "frame (made s out) {target s out} s t \<and> balanced s t \<and>
    (r \<longrightarrow> lookup t out = Some (File (target s out)) \<and> (\<forall>i. lookup s f = Some (File i) \<longrightarrow>
       bytes (inodes t (target s out)) = unpack lib (bytes (inodes s i))))"
  proof (cases c)
    case None
    then have "\<not> r" "t = s1" using assms get by (simp_all add: UnCompress_def)
    then show ?thesis using s1(3) g(1) by (simp add: tidy_def)
  next
    case (Some b)
    then have set: "run_state (SetContent out (unpack lib b)) s1 = (r, t)"
      using assms get by (simp add: UnCompress_def)
    have bal: "balanced s s1" using g(1) by (simp add: tidy_def)
    from set show ?thesis
    proof (cases rule: SetContent_run)
      case failed
      then show ?thesis using s1(3) balanced_trans [OF bal quiet_balanced] by (simp add: quiet_eqs)
    next
      case stopped
      then show ?thesis using s1 bal frame_trans balanced_trans by fastforce
    next
      case stored
      have "b = bytes (inodes s i)" if "lookup s f = Some (File i)" for i
        by (rule g(2) [OF Some that])
      then show ?thesis using stored s1 bal frame_trans balanced_trans by fastforce
    qed
  qed
  then show "frame (made s out) {target s out} s t" "balanced s t"
    "r \<Longrightarrow> lookup t out = Some (File (target s out))"
    "r \<Longrightarrow> lookup s f = Some (File i) \<Longrightarrow> bytes (inodes t (target s out)) = unpack lib (bytes (inodes s i))"
    by blast+
qed

subsection \<open>Directories and temporary files\<close>

lemma fs_status_run:
  assumes "run_state (fs_status p) s = (r, t)"
  shows "quiet s t" and "fst r = None \<or> fst r = lookup s p" and "fst r \<noteq> None \<Longrightarrow> \<not> snd r"
proof -
  show "quiet s t" by (rule state_io_relD [OF qu.rel_fs_status assms])
  show "fst r = None \<or> fst r = lookup s p" "fst r \<noteq> None \<Longrightarrow> \<not> snd r"
    using assms
    by (auto simp: fs_status_def run_next split: list.splits outcome.splits errno.splits)
qed

lemma Exists_run:
  assumes "run_state (Exists f) s = (r, t)"
  shows "quiet s t" and "fst r \<Longrightarrow> lookup s f \<noteq> None" and "fst r \<Longrightarrow> \<not> snd r"
proof -
  obtain x u where st: "run_state (fs_status f) s = (x, u)" by (rule prod.exhaust)
  then have "t = u" "r = (fst x \<noteq> None \<and> \<not> snd x, snd x)"
    using assms by (auto simp: Exists_def fs_exists_def)
  with fs_status_run [OF st] show "quiet s t" "fst r \<Longrightarrow> lookup s f \<noteq> None" "fst r \<Longrightarrow> \<not> snd r" by auto
qed

lemma CreateDirectory_run:
  assumes "run_state (CreateDirectory f) s = (r, t)"
  shows "frame {} {} s t" and "balanced s t" and "inodes t = inodes s" and "next_ino t = next_ino s"
    and "suffixes t = suffixes s" and "r \<Longrightarrow> lookup t f = Some Dir"
proof -
  obtain x u where st: "run_state (fs_status f) s = (x, u)" by (rule prod.exhaust)
  note x = fs_status_run [OF st]
  have "frame {} {} s t \<and> balanced s t \<and> inodes t = inodes s \<and> next_ino t = next_ino s \<and>
    suffixes t = suffixes s \<and> (r \<longrightarrow> lookup t f = Some Dir)"
  proof (cases "fst x \<noteq> None")
    case True
    obtain y v where st2: "run_state (fs_status f) u = (y, v)" by (rule prod.exhaust)
    note y = fs_status_run [OF st2]
    have tv: "t = v" "r \<longleftrightarrow> fst y = Some Dir"
      using assms st st2 True x(3) by (auto simp: CreateDirectory_def fs_exists_def fs_is_directory_def)
    have q: "quiet s t" using x(1) y(1) tv quiet_trans by blast
    moreover have "r \<Longrightarrow> lookup u f = Some Dir" using tv y(2) by auto
    ultimately show ?thesis
      using quiet_tidy [OF q] x(1) by (simp add: quiet_eqs tidy_def fr.refl)
  next
    case False
    then have run: "run_state (fs_create_directories f) u = (r, t)"
      using assms st by (simp add: CreateDirectory_def fs_exists_def)
    show ?thesis
    proof (cases "c_str f = []")
      case True
      then have "\<not> r" "quiet u t"
        using run by (auto simp: fs_create_directories_def fail_def quiet_def silent_def)
      then have "quiet s t" using quiet_trans [OF x(1)] by blast
      then show ?thesis using quiet_tidy [of s t] \<open>\<not> r\<close> by (auto simp: quiet_eqs tidy_def fr.refl)
    next
      case False
      then have mk: "run_state (make_dirs (map (\<lambda>n. take n (key u f)) [0..<Suc (length (key u f))])) u = (r, t)"
        using run by (simp add: fs_create_directories_def del: upt_Suc)
      note m = make_dirs_run [OF mk]
      have "r \<Longrightarrow> node t (key u f) = Some Dir"
        using m by (simp add: list_all_iff)
      moreover have "key t f = key u f" using m frame_key by blast
      ultimately show ?thesis
        using m x(1) False by (simp add: quiet_eqs balanced_def lookup_def frame_def)
    qed
  qed
  then show "frame {} {} s t" "balanced s t" "inodes t = inodes s" "next_ino t = next_ino s"
    "suffixes t = suffixes s" "r \<Longrightarrow> lookup t f = Some Dir" by blast+
qed

lemma extends_remove:
  "extends s t \<Longrightarrow> node s k = None \<Longrightarrow> quiet (t\<lparr>node := (node t)(k := None)\<rparr>) u \<Longrightarrow> extends s u"
  by (auto simp: extends_def frame_def quiet_def silent_def)

lemma unlink_balanced:
  assumes "run_state (unlink p) s = (r, t)"
  shows "balanced s t"
  using assms
proof (cases rule: unlink_run)
  case (removed i)
  then show ?thesis by (auto simp: balanced_def quiet_eqs) (auto simp: fs_wf_def lookup_def split: if_splits)
qed (rule quiet_balanced)

definition temp_base :: "string \<Rightarrow> string \<Rightarrow> string" where
  "temp_base directory prefix = (let pattern = JoinPath directory (prefix @ ''XXXXXX'')
     in take (length pattern - 6) pattern)"

lemma CreateTempFile_run:
  assumes "run_state (CreateTempFile directory prefix) s = (r, t)"
  obtains (failed) "r = None" "extends s t" "balanced s t"
  | (created) p i where "r = Some p" "extends s t" "balanced s t" "node s (key s p) = None"
      "lookup t p = Some (File i)" "next_ino s \<le> i" "i < next_ino t" "bytes (inodes t i) = []"
      "frame {key s p} {} s t" "\<exists>x \<in> set (suffixes s). p = temp_base directory prefix @ x"
      "lookup t directory = Some Dir"
proof (cases "CHR ''/'' \<in> set prefix")
  case True
  then show ?thesis using assms that(1)
    by (simp add: CreateTempFile_def ex.refl balanced_refl)
next
  case False
  obtain made s1 where mk: "run_state (CreateDirectory directory) s = (made, s1)" by (rule prod.exhaust)
  note c = CreateDirectory_run [OF mk]
  have e1: "extends s s1" using c(1) by (rule frame_extends) simp
  show ?thesis
  proof (cases made)
    case False
    then have "r = None" "t = s1" using assms mk \<open>CHR ''/'' \<notin> set prefix\<close> by (simp_all add: CreateTempFile_def)
    then show ?thesis using that(1) e1 c(2) by simp
  next
    case made: True
    obtain fd s2 where tmp: "run_state (mkstemp (JoinPath directory (prefix @ ''XXXXXX''))) s1 = (fd, s2)"
      by (rule prod.exhaust)
    from tmp show ?thesis
    proof (cases rule: mkstemp_run)
      case failed
      then have "r = None" "t = s2" using assms mk made False tmp by (simp_all add: CreateTempFile_def)
      then show ?thesis
        using that(1) e1 balanced_trans [OF c(2) quiet_balanced [OF failed(2)]] failed(2) by (simp add: quiet_eqs)
    next
      case (created p)
      obtain cl s3 where cl: "run_state (close (next_fd s1)) s2 = (cl, s3)" by (rule prod.exhaust)
      note q3 = close_run [OF cl]
      have p1: "node s1 (key s1 p) = None"
        using created(2,5) by (simp add: lookup_def split: if_splits)
      have k: "key s1 p = key s p" by (rule frame_key [OF c(1)])
      have np: "node s (key s p) = None"
        using p1 extends_node [OF e1] k by (cases "node s (key s p)") fastforce+
      have f3: "frame {key s p} {} s1 s3"
        using created(8) q3 k by (simp add: frame_def quiet_def silent_def)
      have fr: "frame {key s p} {} s s3"
        by (rule frame_trans [OF frame_mono [OF c(1)] f3]) simp_all
      have e3: "extends s s3" by (rule frame_extends [OF fr]) (simp add: np)
      have b3: "balanced s s3"
        unfolding balanced_def
      proof
        assume wf: "fs_wf s"
        then have w1: "fs_wf s1" "fds s1 = fds s" using c(2) by (simp_all add: balanced_def)
        have "fs_wf s2" by (rule created(11) [OF w1(1)])
        then have "fs_wf (s2\<lparr>fds := (fds s2)(next_fd s1 := None)\<rparr>)" by (auto simp: fs_wf_def)
        then have "fs_wf s3" using q3 by (simp add: quiet_eqs)
        moreover have "fds s1 (next_fd s1) = None"
          using w1(1) unfolding fs_wf_def by (metis less_irrefl option.exhaust)
        then have "fds s3 g = fds s g" for g
          using q3 created(9) w1(2) by (cases "g = next_fd s1") (auto simp: quiet_def)
        then have "fds s3 = fds s" by (simp add: fun_eq_iff)
        ultimately show "fs_wf s3 \<and> fds s3 = fds s" by simp
      qed
      show ?thesis
      proof (cases cl)
        case True
        then have "r = Some p" "t = s3"
          using assms mk made False tmp created(1) cl by (simp_all add: CreateTempFile_def)
        moreover have "node s3 = node s2" "inodes s3 = inodes s2" "next_ino s3 = next_ino s2"
            "lookup s3 p = lookup s2 p"
          using q3 by (simp_all add: quiet_def silent_def lookup_def key_def)
        moreover have "lookup s3 directory = Some Dir"
        proof -
          have d1: "lookup s1 directory = Some Dir" using c(6) made by simp
          then have ne: "c_str directory \<noteq> []" "node s1 (key s1 directory) = Some Dir"
            by (simp_all add: lookup_def split: if_splits)
          have "extends s1 s3" by (rule frame_extends [OF f3]) (simp add: p1 [unfolded k])
          then have "node s3 (key s1 directory) = Some Dir" by (rule extends_node) (rule ne(2))
          then show ?thesis using ne(1) frame_key [OF f3] by (simp add: lookup_def)
        qed
        ultimately show ?thesis
          using that(2) [of p "next_ino s1"] e3 b3 np created(4-7) fr c(4,5)
          by (auto simp: temp_base_def Let_def)
      next
        case False
        obtain un s4 where un: "run_state (unlink p) s3 = (un, s4)" by (rule prod.exhaust)
        have "r = None" "t = s4"
          using assms mk made \<open>CHR ''/'' \<notin> set prefix\<close> tmp created(1) cl False un
          by (simp_all add: CreateTempFile_def)
        moreover have "extends s s4"
          using un
        proof (cases rule: unlink_run)
          case failed
          then show ?thesis using e3 by (simp add: quiet_eqs)
        next
          case (removed i)
          have "key s3 p = key s p" using frame_key [OF fr] .
          then show ?thesis using extends_remove [OF e3 np] removed(3) by simp
        qed
        ultimately show ?thesis
          using that(1) balanced_trans [OF b3 unlink_balanced [OF un]] by blast
      qed
    qed
  qed
qed

lemma SyncDirectory_run:
  assumes "run_state (SyncDirectory directory) s = (r, t)"
  shows "tidy s t"
proof -
  obtain fd s1 where op: "run_state (open_directory directory) s = (fd, s1)" by (rule prod.exhaust)
  from op show ?thesis
  proof (cases rule: open_directory_run)
    case failed
    then show ?thesis using assms op by (simp add: SyncDirectory_def quiet_tidy)
  next
    case (opened u)
    note fd = new_fd_run [OF opened(2)]
    obtain ok s2 where sy: "run_state (fsync (next_fd u)) s1 = (ok, s2)" by (rule prod.exhaust)
    obtain cl s3 where cl: "run_state (close (next_fd u)) s2 = (cl, s3)" by (rule prod.exhaust)
    have "t = s3" using assms op fd(1) sy cl by (auto simp: SyncDirectory_def split: if_splits)
    then have "tidy u t"
      using open_close_tidy [OF opened(2) [unfolded fd(1)] state_io_relD [OF qu.rel_fsync sy] cl] by simp
    then show ?thesis using tidy_trans [OF quiet_tidy [OF opened(1)]] by blast
  qed
qed

lemma CommitNoReplace_run:
  assumes "run_state (CommitNoReplace tmp dest) s = (r, t)"
  obtains (failed) "\<not> r" "extends s t" "balanced s t" "inodes t = inodes s" "next_ino t = next_ino s"
      "\<forall>k. k \<noteq> key s dest \<longrightarrow> node t k = node s k"
  | (committed) i where "r" "lookup s tmp = Some (File i)" "lookup s dest = None" "parent_exists s dest"
      "silent (s\<lparr>node := (node s)(key s dest \<mapsto> File i, key s tmp := None)\<rparr>) t" "balanced s t"
proof -
  obtain l s1 where ln: "run_state (link tmp dest) s = (l, s1)" by (rule prod.exhaust)
  from ln show thesis
  proof (cases rule: link_run)
    case failed
    then have "\<not> r" "t = s1" using assms ln by (simp_all add: CommitNoReplace_def)
    then show ?thesis using that(1) failed(2) quiet_balanced
      by (auto simp: quiet_eqs ex.refl)
  next
    case (linked i)
    let ?u = "s\<lparr>node := (node s)(key s dest \<mapsto> File i)\<rparr>"
    have nd: "node s (key s dest) = None" using linked(3,4) by (simp add: lookup_def parent_exists_def split: if_splits)
    have nt: "node s (key s tmp) = Some (File i)" using linked(2) by (simp add: lookup_def split: if_splits)
    have eu: "extends s ?u" using nd by (auto simp: extends_def frame_def)
    have bu: "balanced s ?u" using nt nd by (auto simp: balanced_def fs_wf_def)
    have b1: "balanced s s1" by (rule balanced_trans [OF bu quiet_balanced [OF linked(5)]])
    have e1: "extends s s1" using eu linked(5) by (simp add: quiet_eqs)
    obtain un s2 where un: "run_state (unlink tmp) s1 = (un, s2)" by (rule prod.exhaust)
    note b2 = balanced_trans [OF b1 unlink_balanced [OF un]]
    from un show ?thesis
    proof (cases rule: unlink_run)
      case failed
      obtain x s3 where un3: "run_state (unlink dest) s2 = (x, s3)" by (rule prod.exhaust)
      have r: "\<not> r" "t = s3\<lparr>errno := errno s2\<rparr>"
        using assms ln linked(1) un failed(1) un3
        by (auto simp: CommitNoReplace_def get_errno_def set_errno_def)
      have q12: "quiet ?u s2" using linked(5) failed(2) quiet_trans by blast
      have qt: "quiet s3 t" using r(2) by (simp add: qu.errno)
      have bt: "balanced s t"
        using balanced_trans [OF b2 unlink_balanced [OF un3]] balanced_trans quiet_balanced [OF qt] by blast
      from un3 show ?thesis
      proof (cases rule: unlink_run)
        case failed
        then have "quiet ?u t" using q12 qt quiet_trans by blast
        then show ?thesis using that(1) [OF r(1)] eu bt by (simp add: quiet_eqs)
      next
        case (removed j)
        then have q: "quiet (s2\<lparr>node := (node s2)(key s2 dest := None)\<rparr>) t" using qt quiet_trans by blast
        have k: "key s2 dest = key s dest" using q12 by (simp add: quiet_def silent_def key_def)
        have "extends s s2" using eu q12 by (simp add: quiet_eqs)
        then have "extends s t" using extends_remove nd q k by metis
        then show ?thesis using that(1) [OF r(1)] bt q q12 k by (simp add: quiet_def silent_def)
      qed
    next
      case (removed j)
      obtain y s3 where sy: "run_state (SyncDirectory (ParentPath dest)) s2 = (y, s3)" by (rule prod.exhaust)
      have r: "r" "t = s3"
        using assms ln linked(1) un removed(1) sy by (simp_all add: CommitNoReplace_def)
      have td: "tidy s2 t" using SyncDirectory_run [OF sy] r(2) by simp
      have k: "key s1 tmp = key s tmp" using linked(5) by (simp add: quiet_def silent_def key_def)
      have "silent (s\<lparr>node := (node s)(key s dest \<mapsto> File i, key s tmp := None)\<rparr>) t"
        using linked(5) removed(3) td k by (simp add: tidy_def quiet_def silent_def)
      moreover have "balanced s t" using balanced_trans [OF b2] td by (simp add: tidy_def)
      ultimately show ?thesis using that(2) r(1) linked(2-4) by blast
    qed
  qed
qed

subsection \<open>Success when no call fails\<close>

lemma FileSize_done:
  assumes "tape s = []" "lookup s f = Some (File i)"
  shows "run_state (FileSize f) s = (int (length (bytes (inodes s i))), s)"
  using assms by (simp add: FileSize_def stat_def syscall_def run_next stat_node_def)

lemma read_loop_done:
  assumes "tape s = []" "fds s fd = Some d" "fd_ino d = Some i" "position + len \<le> length (bytes (inodes s i))"
  shows "read_loop fd position len [] s = (Some (take len (drop position (bytes (inodes s i)))), s)"
proof (cases "len = 0")
  case False
  have "run_state (pread fd len position) s = (Some (take len (drop position (bytes (inodes s i)))), s)"
    using assms by (simp add: pread_def run_next transfer_def)
  with False assms(4) show ?thesis
    by (simp add: read_loop.simps [of fd position len "[]" s] read_loop.simps [of fd position len "take _ _" s])
qed (simp add: read_loop.simps)

text \<open>A file that was read is closed again: only the number of the next descriptor has changed.\<close>

definition reopened :: "'z os_scheme \<Rightarrow> 'z os_scheme" where
  "reopened s = s\<lparr>fds := (fds s)(next_fd s := None), next_fd := next_fd s + 1\<rparr>"

lemma reopened_same [simp]:
  "tape (reopened s) = tape s" "lookup (reopened s) p = lookup s p" "inodes (reopened s) = inodes s"
  by (simp_all add: reopened_def lookup_def key_def)

lemma GetPosLen_done:
  assumes "tape s = []" "lookup s f = Some (File i)" "position + len \<le> length (bytes (inodes s i))"
    and "position \<le> off_t_max"
  shows "run_state (GetPosLen f position len) s = (Some (take len (drop position (bytes (inodes s i)))), reopened s)"
proof -
  let ?t = "s\<lparr>fds := (fds s)(next_fd s \<mapsto> \<lparr>fd_ino = Some i, fd_pos = 0\<rparr>), next_fd := next_fd s + 1\<rparr>"
  have op: "run_state (open_rdonly f) s = (Some (next_fd s), ?t)"
    using assms by (simp add: open_rdonly_def syscall_def run_next new_fd_def)
  have "read_loop (next_fd s) position len [] ?t =
      (Some (take len (drop position (bytes (inodes ?t i)))), ?t)"
    by (rule read_loop_done [where d = "\<lparr>fd_ino = Some i, fd_pos = 0\<rparr>"]) (simp_all add: assms(1,3))
  with op assms show ?thesis
    by (simp add: GetPosLen_def FileSize_done close_def syscall_def run_next reopened_def)
qed

lemma GetContent_reopens:
  assumes "tape s = []" "lookup s f = Some (File i)" "length (bytes (inodes s i)) < 2 ^ 64"
  shows "run_state (GetContent f) s = (Some (bytes (inodes s i)), reopened s)"
  using GetPosLen_done [OF assms(1,2), of 0 "length (bytes (inodes s i))"] assms
  by (simp add: GetContent_def FileSize_done)

lemma GetContent_done:
  assumes "tape s = []" "lookup s f = Some (File i)" "length (bytes (inodes s i)) < 2 ^ 64"
  shows "result (GetContent f) s = Some (bytes (inodes s i))"
  using GetContent_reopens [OF assms] by (simp add: result_def)

lemma write_loop_done:
  assumes "tape s = []" "fds s fd = Some d" "fd_ino d = Some i"
  obtains t where "write_loop fd content 0 s = (True, t)" "tape t = []"
proof (cases "content = []")
  case True
  then show thesis using that [of s] assms(1) by (simp add: write_loop.simps)
next
  case False
  have "run_state (write_fd fd content) s = (Some (length content), write_at fd d i content s)"
    using assms by (simp add: write_fd_def run_next transfer_def)
  with False have "write_loop fd content 0 s = (True, write_at fd d i content s)"
    by (simp add: write_loop.simps [of fd content 0 s] write_loop.simps [of fd content "length content"])
  then show thesis using that assms(1) by (simp add: write_at_def)
qed

definition writable :: "'z os_scheme \<Rightarrow> string \<Rightarrow> bool" where
  "writable s f \<longleftrightarrow> (case lookup s f of None \<Rightarrow> parent_exists s f | Some Dir \<Rightarrow> False | Some (File i) \<Rightarrow> True)"

lemma SetContent_done:
  assumes "tape s = []" "writable s f"
  shows "result (SetContent f content) s" and "tape (final (SetContent f content) s) = []"
proof -
  obtain u i where op: "run_state (open_trunc f) s = (Some (next_fd s), u)" "tape u = []"
      "fds u (next_fd s) = Some \<lparr>fd_ino = Some i, fd_pos = 0\<rparr>"
  proof (cases "lookup s f")
    case None
    then show thesis using assms that
      by (simp add: open_trunc_def syscall_def run_next new_fd_def writable_def create_at_def)
  next
    case (Some n)
    then show thesis using assms that
      by (cases n) (simp_all add: open_trunc_def syscall_def run_next new_fd_def writable_def)
  qed
  obtain v where "write_loop (next_fd s) content 0 u = (True, v)" "tape v = []"
    using write_loop_done [OF op(2,3)] by auto
  with op show "result (SetContent f content) s" "tape (final (SetContent f content) s) = []"
    by (simp_all add: SetContent_def result_def final_def fsync_def close_def syscall_def run_next)
qed

lemma CreateDirectory_done:
  assumes "tape s = []" "lookup s d = Some Dir"
  shows "run_state (CreateDirectory d) s = (True, s)"
  using assms
  by (simp add: CreateDirectory_def fs_exists_def fs_is_directory_def fs_status_def run_next)

text \<open>A directory in which a temporary file can be made.\<close>

definition temp_ready :: "'z os_scheme \<Rightarrow> string \<Rightarrow> string \<Rightarrow> bool" where
  "temp_ready s directory prefix \<longleftrightarrow> SLASH \<notin> set prefix \<and> lookup s directory = Some Dir \<and>
     NUL \<notin> set (JoinPath directory (prefix @ ''XXXXXX'')) \<and>
     (case first_free s (temp_base directory prefix) (suffixes s) of
        None \<Rightarrow> False | Some (p, rest) \<Rightarrow> parent_exists s p)"

lemma path_join_suffix: "\<exists>e. path_join d (f @ ''XXXXXX'') = e @ ''XXXXXX''"
  by (auto simp: path_join_def)

lemma CreateTempFile_done:
  assumes "tape s = []" "temp_ready s directory prefix"
  obtains p t where "run_state (CreateTempFile directory prefix) s = (Some p, t)" "tape t = []"
    "node t = (node s)(key s p \<mapsto> File (next_ino s))" "cwd t = cwd s" "lookup s p = None"
    "c_str p \<noteq> []"
proof -
  let ?tpl = "JoinPath directory (prefix @ ''XXXXXX'')"
  obtain p rest where ff: "first_free s (temp_base directory prefix) (suffixes s) = Some (p, rest)"
    and pe: "parent_exists s p"
    using assms(2) by (auto simp: temp_ready_def split: option.splits)
  have tail: "drop (length ?tpl - 6) ?tpl = ''XXXXXX''"
    using path_join_suffix [of directory prefix] by (auto simp: JoinPath_def)
  let ?u = "create_at (key s p) (s\<lparr>suffixes := rest\<rparr>)"
  let ?v = "?u\<lparr>fds := (fds ?u)(next_fd s \<mapsto> \<lparr>fd_ino = Some (next_ino s), fd_pos = 0\<rparr>),
         next_fd := next_fd s + 1\<rparr>"
  have mk: "run_state (mkstemp ?tpl) s = (Some (next_fd s, p), ?v)"
    using assms ff pe tail
    by (simp add: mkstemp_def syscall_def run_next temp_ready_def temp_base_def Let_def new_fd_def create_at_def)
  have run: "run_state (CreateTempFile directory prefix) s = (Some p, ?v\<lparr>fds := (fds ?v)(next_fd s := None)\<rparr>)"
    using assms mk CreateDirectory_done [OF assms(1), of directory]
    by (simp add: CreateTempFile_def temp_ready_def close_def syscall_def run_next create_at_def)
  show thesis
    by (rule that [OF run]) (use first_free_Some [OF ff] assms(1) pe in \<open>simp_all add: create_at_def parent_exists_def\<close>)
qed

lemma rename_done:
  assumes "tape s = []" "lookup s old = Some (File i)" "lookup s new \<noteq> Some Dir" "parent_exists s new"
  shows "result (rename_file old new) s"
  using assms by (auto simp: rename_file_def syscall_def run_next result_def)

lemma SetContent_GetContent_done:
  assumes "result (SetContent f content) s" "tape (final (SetContent f content) s) = []" "length content < 2 ^ 64"
  shows "result (GetContent f) (final (SetContent f content) s) = Some content"
proof -
  obtain t where set: "run_state (SetContent f content) s = (True, t)"
    using assms(1) by (metis run_result_final)
  then have t: "final (SetContent f content) s = t" by (simp add: final_def)
  from set obtain i where "lookup t f = Some (File i)" "bytes (inodes t i) = content"
    by (cases rule: SetContent_run) simp_all
  then show ?thesis using GetContent_done [of t f i] assms(2,3) unfolding t by simp
qed

subsection \<open>Properties\<close>

text \<open>What \<open>SetContent\<close> reported as written is what \<open>GetContent\<close> returns: after a successful write, a read
  returns either nothing (a call failed) or exactly the bytes written, however the write was cut
  into short transfers and interrupted; and it does return them when no call fails.\<close>

theorem set_content_get_content:
  assumes "result (SetContent f content) s"
  shows "result (GetContent f) (final (SetContent f content) s) \<in> {None, Some content} \<and>
    (tape (final (SetContent f content) s) = [] \<and> length content < 2 ^ 64 \<longrightarrow>
      result (GetContent f) (final (SetContent f content) s) = Some content)"
proof -
  obtain t where set: "run_state (SetContent f content) s = (True, t)"
    using assms by (metis run_result_final)
  then have t: "final (SetContent f content) s = t" by (simp add: final_def)
  from set obtain i where f: "lookup t f = Some (File i)" "bytes (inodes t i) = content"
    by (cases rule: SetContent_run) simp_all
  obtain r u where get: "run_state (GetContent f) t = (r, u)" by (rule prod.exhaust)
  have "r = Some d \<Longrightarrow> d = content" for d
    using GetContent_run(2) [OF get _ f(1)] f(2) by simp
  then have "result (GetContent f) t \<in> {None, Some content}"
    by (cases r) (auto simp: result_def get)
  moreover have "result (GetContent f) t = Some content" if "tape t = []" "length content < 2 ^ 64"
    using SetContent_GetContent_done [OF assms] that unfolding t by simp
  ultimately show ?thesis by (simp add: t)
qed

lemma set_content_get_content_witness:
  "result (GetContent ''f'') (final (SetContent ''f'' ''abcdef'')
     (boot [''srv''] [Done, Short 2, Fault EINTR] [])) = Some ''abcdef''"
proof -
  let ?s = "boot [''srv''] [Done, Short 2, Fault EINTR] []"
  have "result (SetContent ''f'' ''abcdef'') ?s" by code_simp
  moreover have "tape (final (SetContent ''f'' ''abcdef'') ?s) = []" by code_simp
  ultimately show ?thesis
    using set_content_get_content [of "''f''" "''abcdef''" ?s] by simp
qed

text \<open>C31. Publishing a temporary file never replaces anything. When \<open>CommitNoReplace\<close> succeeds, the final
  name did not exist before, now denotes the temporary file, and the temporary name is gone; when
  it fails, at any point, every name and every file that existed is as it was.\<close>

theorem commit_no_replace:
  fixes s :: "'z os_scheme" and tmp dest :: string
  defines "t \<equiv> final (CommitNoReplace tmp dest) s"
  shows "if result (CommitNoReplace tmp dest) s
     then lookup s dest = None \<and> lookup t dest = lookup s tmp \<and> lookup t tmp = None \<and>
       inodes t = inodes s \<and>
       node t = (node s)(key s dest := lookup s tmp, key s tmp := None)
     else extends s t"
proof -
  obtain r where run: "run_state (CommitNoReplace tmp dest) s = (r, t)"
    unfolding t_def by (metis run_result_final)
  then have "result (CommitNoReplace tmp dest) s = r" by (simp add: result_def)
  with run show ?thesis
  proof (cases rule: CommitNoReplace_run)
    case (committed i)
    have k: "key t p = key s p" for p using committed(5) by (simp add: silent_def key_def)
    have "key s dest \<noteq> key s tmp"
      using committed(2-4) by (auto simp: lookup_def parent_exists_def split: if_splits)
    with committed \<open>result (CommitNoReplace tmp dest) s = r\<close> show ?thesis
      by (auto simp: lookup_def k silent_def parent_exists_def split: if_splits)
  qed (simp add: \<open>result (CommitNoReplace tmp dest) s = r\<close>)
qed

text \<open>Descriptors are given back on every path: after each \<open>FileUtil\<close> method, whatever failed inside it, the
  open descriptors are those that were open before, and the file system is still well-formed.\<close>

theorem file_util_closes_descriptors:
  assumes "fs_wf s"
  shows "list_all (\<lambda>t. fds t = fds s \<and> fs_wf t)
    [final (GetPosLen f p l) s, final (GetContent f) s, final (SetContent f c) s,
     final (Compress lib f c q) s, final (UnCompress lib f g) s, final (CreateDirectory f) s,
     final (CreateTempFile f c) s, final (CommitNoReplace f g) s, final (SyncDirectory f) s]"
proof -
  have set: "balanced s (final (SetContent f c) s)" for f c
    using run_result_final [of "SetContent f c" s] by (cases rule: SetContent_run) (auto dest: quiet_balanced)
  have "balanced s (final (CreateTempFile f c) s)"
    using run_result_final [of "CreateTempFile f c" s] by (cases rule: CreateTempFile_run) auto
  moreover have "balanced s (final (CommitNoReplace f g) s)"
    using run_result_final [of "CommitNoReplace f g" s] by (cases rule: CommitNoReplace_run) auto
  ultimately show ?thesis
    using assms set GetPosLen_run(1) [OF run_result_final [of _ s]] GetContent_run(1) [OF run_result_final [of _ s]]
      UnCompress_run(2) [OF run_result_final [of _ s]] CreateDirectory_run(2) [OF run_result_final [of _ s]]
      SyncDirectory_run [OF run_result_final [of _ s]]
    by (simp add: balanced_def tidy_def Compress_def)
qed

lemma boot_wf: "fs_wf (boot dir outcomes random)"
  by (auto simp: fs_wf_def boot_def split: if_splits)

lemma file_util_closes_descriptors_witness:
  "fds (final (SetContent ''f'' ''abc'') (boot [] [Done, Short 1, Fault EIO] [])) = (\<lambda>fd. None)"
  using file_util_closes_descriptors [OF boot_wf [of "[]" "[Done, Short 1, Fault EIO]" "[]"],
      of "''f''" 0 0 "''abc''" stored_lib 4 "''g''"]
  by (simp add: boot_def)

end
