(* ===== verification/Json.thy ===== *)
theory Json
  imports Url Fs_Path "HOL-Library.AList"
begin

text \<open>
  The jsoncpp library is not part of the repository: \<^verbatim>\<open>Json::Value\<close> is a type parameter and the
  operations the program calls on it are the record \<open>json_lib\<close>. \<^verbatim>\<open>JsonUtil\<close> of
  \<^verbatim>\<open>src/src/server/Util.hpp\<close> and of \<^verbatim>\<open>src/log_system/logs_code/Util.hpp\<close> (the same text) is modelled on
  top of it. \<open>json_laws\<close> states what the documentation of jsoncpp says of these operations: what is
  read from a value that was assigned to, and that a written document reads back as a value no
  accessor can tell from the original. A reference implementation at the end satisfies the laws.
\<close>

record 'j json_lib =
  js_parse :: "string \<Rightarrow> string + 'j"
  js_write :: "'j \<Rightarrow> string option"
  js_isNull :: "'j \<Rightarrow> bool"
  js_isObject :: "'j \<Rightarrow> bool"
  js_isArray :: "'j \<Rightarrow> bool"
  js_isString :: "'j \<Rightarrow> bool"
  js_isBool :: "'j \<Rightarrow> bool"
  js_isInt :: "'j \<Rightarrow> bool"
  js_isUInt :: "'j \<Rightarrow> bool"
  js_isInt64 :: "'j \<Rightarrow> bool"
  js_isUInt64 :: "'j \<Rightarrow> bool"
  js_asString :: "'j \<Rightarrow> string"
  js_asBool :: "'j \<Rightarrow> bool"
  js_asInt :: "'j \<Rightarrow> int"
  js_asUInt :: "'j \<Rightarrow> nat"
  js_asInt64 :: "'j \<Rightarrow> int"
  js_asUInt64 :: "'j \<Rightarrow> nat"
  js_isMember :: "'j \<Rightarrow> string \<Rightarrow> bool"
  js_at :: "'j \<Rightarrow> string \<Rightarrow> 'j"
  js_size :: "'j \<Rightarrow> nat"
  js_index :: "'j \<Rightarrow> nat \<Rightarrow> 'j"
  js_null :: 'j
  js_array :: 'j
  js_of_int :: "int \<Rightarrow> 'j"
  js_of_uint :: "nat \<Rightarrow> 'j"
  js_of_string :: "string \<Rightarrow> 'j"
  js_set :: "'j \<Rightarrow> string \<Rightarrow> 'j \<Rightarrow> 'j"
  js_append :: "'j \<Rightarrow> 'j \<Rightarrow> 'j"

subsection \<open>JsonUtil\<close>

text \<open>\<^verbatim>\<open>js_write\<close> is the stream writer: \<open>None\<close> when \<^verbatim>\<open>write\<close> does not return zero.\<close>

definition Serialize :: "'j json_lib \<Rightarrow> 'j \<Rightarrow> string option" where
  "Serialize L value = js_write L value"

definition UnSerialize :: "'j json_lib \<Rightarrow> string \<Rightarrow> string + 'j" where
  "UnSerialize L input = js_parse L input"

subsection \<open>What the library promises\<close>

text \<open>Two values no accessor used by the program can tell apart.\<close>

definition same_leaf :: "'j json_lib \<Rightarrow> 'j \<Rightarrow> 'j \<Rightarrow> bool" where
  "same_leaf L j k \<longleftrightarrow> js_isNull L j = js_isNull L k \<and> js_isObject L j = js_isObject L k \<and>
     js_isArray L j = js_isArray L k \<and> js_isString L j = js_isString L k \<and>
     js_isInt64 L j = js_isInt64 L k \<and> js_isUInt64 L j = js_isUInt64 L k \<and>
     js_asString L j = js_asString L k \<and> js_asInt64 L j = js_asInt64 L k \<and>
     js_asUInt64 L j = js_asUInt64 L k \<and> js_size L j = js_size L k \<and>
     js_isMember L j = js_isMember L k"

definition reads_back :: "'j json_lib \<Rightarrow> ('j \<Rightarrow> 'j \<Rightarrow> bool) \<Rightarrow> bool" where
  "reads_back L R \<longleftrightarrow>
     (\<forall>j s. js_write L j = Some s \<longrightarrow> (\<exists>k. js_parse L s = Inr k \<and> R j k)) \<and>
     (\<forall>j k. R j k \<longrightarrow> same_leaf L j k \<and> (\<forall>i. R (js_index L j i) (js_index L k i)) \<and>
        (\<forall>n. R (js_at L j n) (js_at L k n)))"

definition assign_laws :: "'j json_lib \<Rightarrow> bool" where
  "assign_laws L \<longleftrightarrow>
     js_isArray L (js_array L) \<and> js_size L (js_array L) = 0 \<and>
     (\<forall>a x. js_isArray L a \<longrightarrow> js_isArray L (js_append L a x) \<and> \<not> js_isNull L (js_append L a x) \<and>
        js_size L (js_append L a x) = Suc (js_size L a) \<and>
        (\<forall>i. js_index L (js_append L a x) i = (if i = js_size L a then x else js_index L a i))) \<and>
     \<not> js_isNull L (js_array L) \<and>
     js_isNull L (js_null L) \<and> (\<forall>k. \<not> js_isMember L (js_null L) k) \<and>
     (\<forall>v k x. js_isNull L v \<or> js_isObject L v \<longrightarrow> js_isObject L (js_set L v k x) \<and>
        (\<forall>n. js_at L (js_set L v k x) n = (if n = k then x else js_at L v n)) \<and>
        (\<forall>n. js_isMember L (js_set L v k x) n = (n = k \<or> js_isMember L v n)))"

definition scalar_laws :: "'j json_lib \<Rightarrow> bool" where
  "scalar_laws L \<longleftrightarrow>
     (\<forall>s. js_isString L (js_of_string L s) \<and> js_asString L (js_of_string L s) = s) \<and>
     (\<forall>i. - (2 ^ 63) \<le> i \<longrightarrow> i < 2 ^ 63 \<longrightarrow> js_isInt64 L (js_of_int L i) \<and> js_asInt64 L (js_of_int L i) = i) \<and>
     (\<forall>n. n < 2 ^ 64 \<longrightarrow> js_isUInt64 L (js_of_uint L n) \<and> js_asUInt64 L (js_of_uint L n) = n \<and>
        (js_isInt64 L (js_of_uint L n) \<longrightarrow> js_asInt64 L (js_of_uint L n) = int n))"

definition json_laws :: "'j json_lib \<Rightarrow> bool" where
  "json_laws L \<longleftrightarrow> assign_laws L \<and> scalar_laws L \<and> (\<exists>R. reads_back L R)"

subsection \<open>A reference implementation\<close>

datatype json = JNull | JBool bool | JInt int | JString string | JArray "json list" | JObject "(string \<times> json) list"

text \<open>
  A document is written in postfix order as tokens separated by slashes: \<open>t\<close> and \<open>f\<close> for booleans, a number in decimal after
  \<open>i\<close> or \<open>m\<close>, a URL-escaped string after \<open>s\<close>, \<open>n\<close> for null, \<open>a\<close> and \<open>o\<close> for empty containers, \<open>p\<close> to append the
  value on top of the stack, and \<open>k\<close> with an escaped name to add it as a member. Strings that contain NUL
  are refused.
\<close>

datatype token = TNull | TBool bool | TInt int | TString string | TArray | TObject | TAppend | TMember string

fun flatten :: "json \<Rightarrow> token list" where
  "flatten JNull = [TNull]"
| "flatten (JBool b) = [TBool b]"
| "flatten (JInt i) = [TInt i]"
| "flatten (JString s) = [TString s]"
| "flatten (JArray xs) = TArray # concat (map (\<lambda>x. flatten x @ [TAppend]) xs)"
| "flatten (JObject ms) = TObject # concat (map (\<lambda>m. flatten (snd m) @ [TMember (fst m)]) ms)"

fun run_tokens :: "token list \<Rightarrow> json list \<Rightarrow> json list option" where
  "run_tokens [] st = Some st"
| "run_tokens (TNull # ts) st = run_tokens ts (JNull # st)"
| "run_tokens (TBool b # ts) st = run_tokens ts (JBool b # st)"
| "run_tokens (TInt i # ts) st = run_tokens ts (JInt i # st)"
| "run_tokens (TString s # ts) st = run_tokens ts (JString s # st)"
| "run_tokens (TArray # ts) st = run_tokens ts (JArray [] # st)"
| "run_tokens (TObject # ts) st = run_tokens ts (JObject [] # st)"
| "run_tokens (TAppend # ts) (x # JArray xs # st) = run_tokens ts (JArray (xs @ [x]) # st)"
| "run_tokens (TMember k # ts) (x # JObject ms # st) = run_tokens ts (JObject (ms @ [(k, x)]) # st)"
| "run_tokens _ _ = None"

lemma run_array:
  assumes "\<And>x ts st. x \<in> set ys \<Longrightarrow> run_tokens (flatten x @ ts) st = run_tokens ts (x # st)"
  shows "run_tokens (concat (map (\<lambda>x. flatten x @ [TAppend]) ys) @ ts) (JArray xs # st) =
     run_tokens ts (JArray (xs @ ys) # st)"
  using assms by (induction ys arbitrary: xs) simp_all

lemma run_object:
  assumes "\<And>m ts st. m \<in> set ys \<Longrightarrow> run_tokens (flatten (snd m) @ ts) st = run_tokens ts (snd m # st)"
  shows "run_tokens (concat (map (\<lambda>m. flatten (snd m) @ [TMember (fst m)]) ys) @ ts) (JObject ms # st) =
     run_tokens ts (JObject (ms @ ys) # st)"
  using assms by (induction ys arbitrary: ms) simp_all

lemma run_flatten: "run_tokens (flatten j @ ts) st = run_tokens ts (j # st)"
proof (induction j arbitrary: ts st)
  case (JArray xs)
  then show ?case using run_array [of xs ts "[]" st] by simp
next
  case (JObject ms)
  have "run_tokens (flatten (snd m) @ ts') st' = run_tokens ts' (snd m # st')" if "m \<in> set ms" for m ts' st'
    using JObject [of m "snd m" ts' st'] that by (cases m) auto
  then show ?case using run_object [of ms ts "[]" st] by simp
qed simp_all

definition int_text :: "int \<Rightarrow> string" where
  "int_text i = (if i < 0 then CHR ''m'' # to_dec (nat (- i)) else CHR ''i'' # to_dec (nat i))"

fun token_text :: "token \<Rightarrow> string" where
  "token_text TNull = ''n''"
| "token_text (TBool b) = (if b then ''t'' else ''f'')"
| "token_text (TInt i) = int_text i"
| "token_text (TString s) = CHR ''s'' # UrlEncode s False"
| "token_text TArray = ''a''"
| "token_text TObject = ''o''"
| "token_text TAppend = ''p''"
| "token_text (TMember k) = CHR ''k'' # UrlEncode k False"

fun text_token :: "string \<Rightarrow> token option" where
  "text_token [] = None"
| "text_token (c # t) =
     (if c = CHR ''n'' then Some TNull
      else if c = CHR ''t'' then Some (TBool True)
      else if c = CHR ''f'' then Some (TBool False)
      else if c = CHR ''i'' then Some (TInt (int (dec_value t)))
      else if c = CHR ''m'' then Some (TInt (- int (dec_value t)))
      else if c = CHR ''s'' then map_option TString (url_decoded t)
      else if c = CHR ''a'' then Some TArray
      else if c = CHR ''o'' then Some TObject
      else if c = CHR ''p'' then Some TAppend
      else if c = CHR ''k'' then map_option TMember (url_decoded t)
      else None)"

fun writable_token :: "token \<Rightarrow> bool" where
  "writable_token (TString s) = (NUL \<notin> set s)"
| "writable_token (TMember s) = (NUL \<notin> set s)"
| "writable_token _ = True"

definition write_json :: "json \<Rightarrow> string option" where
  "write_json j = (if list_all writable_token (flatten j)
     then Some (join_names (map token_text (flatten j))) else None)"

definition parse_json :: "string \<Rightarrow> string + json" where
  "parse_json s = (case those (map text_token (path_names s)) of
     None \<Rightarrow> Inl ''bad token''
   | Some ts \<Rightarrow> (case run_tokens ts [] of Some [j] \<Rightarrow> Inr j | _ \<Rightarrow> Inl ''syntax error''))"

lemma url_decoded_encode: "NUL \<notin> set s \<Longrightarrow> url_decoded (UrlEncode s p) = Some s"
  by (rule url.dec_of_image) simp_all

lemma text_token_text: "writable_token t \<Longrightarrow> text_token (token_text t) = Some t"
  by (cases t) (simp_all add: int_text_def str_simps url_decoded_encode)

lemma UrlEncode_no_slash: "SLASH \<notin> set (UrlEncode s False)"
  using UrlEncode_safe [of SLASH s False] by (auto simp: url_safe_def unreserved_def)

lemma token_text_plain: "plain_name (token_text t)"
proof -
  have "SLASH \<notin> set (to_dec n)" for n by (rule to_dec_no) (simp add: is_digit_def less_eq_char_def)
  then show ?thesis
    by (cases t) (simp_all add: plain_name_def int_text_def UrlEncode_no_slash)
qed

lemma parse_write: "write_json j = Some s \<Longrightarrow> parse_json s = Inr j"
proof -
  assume "write_json j = Some s"
  then have w: "list_all writable_token (flatten j)" and s: "s = join_names (map token_text (flatten j))"
    by (simp_all add: write_json_def split: if_splits)
  have "path_names s = map token_text (flatten j)"
    unfolding s by (rule path_names_join_names) (simp add: list_all_iff token_text_plain)
  moreover have "those (map (text_token \<circ> token_text) ts) = Some ts" if "list_all writable_token ts" for ts
    using that by (induction ts) (simp_all add: text_token_text)
  ultimately have "those (map text_token (path_names s)) = Some (flatten j)" using w by simp
  moreover have "run_tokens (flatten j) [] = Some [j]" using run_flatten [of j "[]" "[]"] by simp
  ultimately show ?thesis by (simp add: parse_json_def)
qed

definition as_int :: "json \<Rightarrow> int" where
  "as_int j = (case j of JInt i \<Rightarrow> i | _ \<Rightarrow> 0)"

definition is_int_in :: "int \<Rightarrow> int \<Rightarrow> json \<Rightarrow> bool" where
  "is_int_in lo hi j = (case j of JInt i \<Rightarrow> lo \<le> i \<and> i < hi | _ \<Rightarrow> False)"

definition members :: "json \<Rightarrow> (string \<times> json) list" where
  "members j = (case j of JObject ms \<Rightarrow> ms | _ \<Rightarrow> [])"

definition elements :: "json \<Rightarrow> json list" where
  "elements j = (case j of JArray xs \<Rightarrow> xs | _ \<Rightarrow> [])"

definition ref_json :: "json json_lib" where
  "ref_json = \<lparr>
     js_parse = parse_json, js_write = write_json,
     js_isNull = (\<lambda>j. j = JNull),
     js_isObject = (\<lambda>j. case j of JObject _ \<Rightarrow> True | _ \<Rightarrow> False),
     js_isArray = (\<lambda>j. case j of JArray _ \<Rightarrow> True | _ \<Rightarrow> False),
     js_isString = (\<lambda>j. case j of JString _ \<Rightarrow> True | _ \<Rightarrow> False),
     js_isBool = (\<lambda>j. case j of JBool _ \<Rightarrow> True | _ \<Rightarrow> False),
     js_isInt = is_int_in (- (2 ^ 31)) (2 ^ 31), js_isUInt = is_int_in 0 (2 ^ 32),
     js_isInt64 = is_int_in (- (2 ^ 63)) (2 ^ 63), js_isUInt64 = is_int_in 0 (2 ^ 64),
     js_asString = (\<lambda>j. case j of JString s \<Rightarrow> s | _ \<Rightarrow> []),
     js_asBool = (\<lambda>j. j = JBool True),
     js_asInt = as_int, js_asUInt = (\<lambda>j. nat (as_int j)),
     js_asInt64 = as_int, js_asUInt64 = (\<lambda>j. nat (as_int j)),
     js_isMember = (\<lambda>j k. k \<in> fst ` set (members j)),
     js_at = (\<lambda>j k. case map_of (members j) k of Some x \<Rightarrow> x | None \<Rightarrow> JNull),
     js_size = (\<lambda>j. length (elements j)),
     js_index = (\<lambda>j i. if i < length (elements j) then elements j ! i else JNull),
     js_null = JNull, js_array = JArray [],
     js_of_int = JInt, js_of_uint = (\<lambda>n. JInt (int n)), js_of_string = JString,
     js_set = (\<lambda>j k x. JObject (AList.update k x (members j))),
     js_append = (\<lambda>j x. JArray (elements j @ [x]))\<rparr>"

lemma ref_json_laws: "json_laws ref_json"
proof -
  have "assign_laws ref_json"
    unfolding assign_laws_def ref_json_def
    by (auto simp: members_def elements_def nth_append update_conv dom_update simp del: image_iff split: json.splits)
  moreover have "scalar_laws ref_json"
    unfolding scalar_laws_def ref_json_def by (simp add: is_int_in_def as_int_def)
  moreover have "reads_back ref_json (=)"
    unfolding reads_back_def by (auto simp: same_leaf_def ref_json_def parse_write)
  ultimately show ?thesis unfolding json_laws_def by blast
qed

end
