(* ===== verification/Config.thy ===== *)
theory Config
  imports Json File_Util
begin

text \<open>
  \<^verbatim>\<open>src/src/server/Config.hpp\<close>: the configuration of the storage server, read once when the singleton
  is created. An exception is its message on the left of a sum. The getters are the selectors of
  the record. Integers are mathematical, since every one of them is checked against a range that
  its C++ type holds.
\<close>

record config =
  server_port :: nat
  server_ip :: string
  download_prefix :: string
  deep_storage_dir :: string
  low_storage_dir :: string
  temp_dir :: string
  storage_info_file :: string
  auth_salt :: string
  auth_hash :: string
  bundle_format :: int
  auth_iterations :: int
  session_ttl_seconds :: int
  max_upload_size :: nat
  cookie_secure :: bool

subsection \<open>Reading one member\<close>

definition ReadString :: "'j json_lib \<Rightarrow> 'j \<Rightarrow> string \<Rightarrow> string + string" where
  "ReadString L root name =
     (if \<not> js_isMember L root name \<or> \<not> js_isString L (js_at L root name) \<or>
         js_asString L (js_at L root name) = []
      then Inl (name @ '' must be a non-empty string'')
      else Inr (js_asString L (js_at L root name)))"

definition ReadPort :: "'j json_lib \<Rightarrow> 'j \<Rightarrow> string \<Rightarrow> string + nat" where
  "ReadPort L root name =
     (if \<not> js_isMember L root name \<or> \<not> js_isUInt L (js_at L root name)
      then Inl (name @ '' must be an integer'')
      else let val = js_asUInt L (js_at L root name)
           in if val = 0 \<or> 65535 < val then Inl (name @ '' must be in 1..65535'') else Inr val)"

definition ReadPositiveInt :: "'j json_lib \<Rightarrow> 'j \<Rightarrow> string \<Rightarrow> int \<Rightarrow> int \<Rightarrow> string + int" where
  "ReadPositiveInt L root name minimum maximum =
     (if \<not> js_isMember L root name \<or> \<not> js_isInt L (js_at L root name)
      then Inl (name @ '' must be an integer'')
      else let val = js_asInt L (js_at L root name)
           in if val < minimum \<or> maximum < val then Inl (name @ '' is out of range'') else Inr val)"

definition ReadSize :: "'j json_lib \<Rightarrow> 'j \<Rightarrow> string \<Rightarrow> nat \<Rightarrow> nat \<Rightarrow> string + nat" where
  "ReadSize L root name minimum maximum =
     (if \<not> js_isMember L root name \<or> \<not> js_isUInt64 L (js_at L root name)
      then Inl (name @ '' must be an unsigned integer'')
      else let val = js_asUInt64 L (js_at L root name)
           in if val < minimum \<or> maximum < val \<or> 2 ^ 64 \<le> val then Inl (name @ '' is out of range'')
              else Inr val)"

definition ReadBool :: "'j json_lib \<Rightarrow> 'j \<Rightarrow> string \<Rightarrow> string + bool" where
  "ReadBool L root name =
     (if \<not> js_isMember L root name \<or> \<not> js_isBool L (js_at L root name)
      then Inl (name @ '' must be boolean'')
      else Inr (js_asBool L (js_at L root name)))"

subsection \<open>The whole configuration\<close>

definition and_then :: "'e + 'a \<Rightarrow> ('a \<Rightarrow> 'e + 'b) \<Rightarrow> 'e + 'b" where
  "and_then r f = (case r of Inl e \<Rightarrow> Inl e | Inr a \<Rightarrow> f a)"

lemma and_then_Inr: "and_then r f = Inr b \<longleftrightarrow> (\<exists>a. r = Inr a \<and> f a = Inr b)"
  by (cases r) (simp_all add: and_then_def)

lemma and_then_simps [simp]: "and_then (Inl e) f = Inl e" "and_then (Inr a) f = f a"
  by (simp_all add: and_then_def)

text \<open>The members, in the order they are read; the first that is missing or wrong is reported.\<close>

definition read_members :: "'j json_lib \<Rightarrow> 'j \<Rightarrow> string + config" where
  "read_members L root =
     and_then (ReadPort L root ''server_port'') (\<lambda>port.
     and_then (ReadString L root ''server_ip'') (\<lambda>ip.
     and_then (ReadString L root ''download_prefix'') (\<lambda>prefix.
     and_then (ReadString L root ''deep_storage_dir'') (\<lambda>deep.
     and_then (ReadString L root ''low_storage_dir'') (\<lambda>low.
     and_then (ReadString L root ''temp_dir'') (\<lambda>temp.
     and_then (ReadString L root ''storage_info'') (\<lambda>info.
     and_then (ReadString L root ''auth_salt'') (\<lambda>salt.
     and_then (ReadString L root ''auth_hash'') (\<lambda>hash.
     and_then (ReadPositiveInt L root ''bundle_format'' 0 5) (\<lambda>format.
     and_then (ReadPositiveInt L root ''auth_iterations'' 10000 10000000) (\<lambda>iterations.
     and_then (ReadPositiveInt L root ''session_ttl_seconds'' 60 (86400 * 30)) (\<lambda>ttl.
     and_then (ReadSize L root ''max_upload_size'' 1 (4 * 1024 * 1024 * 1024)) (\<lambda>upload.
     and_then (ReadBool L root ''cookie_secure'') (\<lambda>secure.
       Inr \<lparr>server_port = port, server_ip = ip, download_prefix = prefix, deep_storage_dir = deep,
         low_storage_dir = low, temp_dir = temp, storage_info_file = info, auth_salt = salt,
         auth_hash = hash, bundle_format = format, auth_iterations = iterations,
         session_ttl_seconds = ttl, max_upload_size = upload, cookie_secure = secure\<rparr>))))))))))))))"

text \<open>An environment variable that is set to a non-empty string replaces a member.\<close>

definition override :: "string option \<Rightarrow> string \<Rightarrow> string" where
  "override env val = (case env of Some v \<Rightarrow> if v \<noteq> [] then v else val | None \<Rightarrow> val)"

definition is_hex_lower :: "char \<Rightarrow> bool" where
  "is_hex_lower ch \<longleftrightarrow> CHR ''0'' \<le> ch \<and> ch \<le> CHR ''9'' \<or> CHR ''a'' \<le> ch \<and> ch \<le> CHR ''f''"

definition check_config :: "config \<Rightarrow> string + config" where
  "check_config c =
     (if hd (download_prefix c) \<noteq> CHR ''/'' \<or> last (download_prefix c) \<noteq> CHR ''/''
      then Inl (''download_prefix must start and end with '' @ [CHR 0x27, CHR ''/'', CHR 0x27])
      else if length (auth_hash c) \<noteq> 64
      then Inl ''auth_hash must be a 32-byte lowercase hex digest''
      else if \<not> list_all is_hex_lower (auth_hash c)
      then Inl ''auth_hash contains non-hex characters''
      else let low = lexically_normal (low_storage_dir c);
               deep = lexically_normal (deep_storage_dir c);
               temporary = lexically_normal (temp_dir c)
           in if path_eq low deep \<or> path_eq low temporary \<or> path_eq deep temporary
              then Inl ''storage and temporary directories must be different''
              else Inr c)"

definition read_root :: "'j json_lib \<Rightarrow> (string \<Rightarrow> string option) \<Rightarrow> 'j \<Rightarrow> string + config" where
  "read_root L getenv root = and_then (read_members L root) (\<lambda>c.
     check_config (c\<lparr>auth_salt := override (getenv ''CLOUD_STORAGE_AUTH_SALT'') (auth_salt c),
                     auth_hash := override (getenv ''CLOUD_STORAGE_AUTH_HASH'') (auth_hash c)\<rparr>))"

definition ReadConfig :: "'j json_lib \<Rightarrow> (string \<Rightarrow> string option) \<Rightarrow> ('z, string + config) io" where
  "ReadConfig L getenv = do {
     let path = override (getenv ''CLOUD_STORAGE_CONFIG'') ''Storage.conf'';
     content \<leftarrow> GetContent path;
     give (case content of
       None \<Rightarrow> Inl (''cannot read storage config: '' @ path)
     | Some content \<Rightarrow> (case UnSerialize L content of
         Inl error \<Rightarrow> Inl (''invalid storage config: '' @ error)
       | Inr root \<Rightarrow>
           if \<not> js_isObject L root then Inl ''invalid storage config: ''
           else read_root L getenv root)) }"

subsection \<open>Accepted configurations\<close>

definition config_ok :: "config \<Rightarrow> bool" where
  "config_ok c \<longleftrightarrow>
     1 \<le> server_port c \<and> server_port c < 2 ^ 16 \<and>
     0 \<le> bundle_format c \<and> bundle_format c \<le> 5 \<and>
     10000 \<le> auth_iterations c \<and> auth_iterations c \<le> 10000000 \<and>
     60 \<le> session_ttl_seconds c \<and> session_ttl_seconds c \<le> 2592000 \<and>
     1 \<le> max_upload_size c \<and> max_upload_size c \<le> 2 ^ 32 \<and>
     server_ip c \<noteq> [] \<and> deep_storage_dir c \<noteq> [] \<and> low_storage_dir c \<noteq> [] \<and> temp_dir c \<noteq> [] \<and>
     storage_info_file c \<noteq> [] \<and> auth_salt c \<noteq> [] \<and>
     is_absolute (download_prefix c) \<and> last (download_prefix c) = SLASH \<and>
     length (auth_hash c) = 64 \<and> list_all is_hex_lower (auth_hash c) \<and>
     \<not> path_eq (lexically_normal (low_storage_dir c)) (lexically_normal (deep_storage_dir c)) \<and>
     \<not> path_eq (lexically_normal (low_storage_dir c)) (lexically_normal (temp_dir c)) \<and>
     \<not> path_eq (lexically_normal (deep_storage_dir c)) (lexically_normal (temp_dir c))"

lemma ReadString_Inr: "ReadString L root n = Inr s \<Longrightarrow> s \<noteq> []"
  by (auto simp: ReadString_def split: if_splits)

lemma ReadPort_Inr: "ReadPort L root n = Inr p \<Longrightarrow> 1 \<le> p \<and> p \<le> 65535"
  by (auto simp: ReadPort_def Let_def split: if_splits)

lemma ReadPositiveInt_Inr: "ReadPositiveInt L root n lo hi = Inr i \<Longrightarrow> lo \<le> i \<and> i \<le> hi"
  by (auto simp: ReadPositiveInt_def Let_def split: if_splits)

lemma ReadSize_Inr: "ReadSize L root n lo hi = Inr i \<Longrightarrow> lo \<le> i \<and> i \<le> hi"
  by (auto simp: ReadSize_def Let_def split: if_splits)

definition members_ok :: "config \<Rightarrow> bool" where
  "members_ok c \<longleftrightarrow>
     1 \<le> server_port c \<and> server_port c \<le> 65535 \<and> 0 \<le> bundle_format c \<and> bundle_format c \<le> 5 \<and>
     10000 \<le> auth_iterations c \<and> auth_iterations c \<le> 10000000 \<and>
     60 \<le> session_ttl_seconds c \<and> session_ttl_seconds c \<le> 86400 * 30 \<and>
     1 \<le> max_upload_size c \<and> max_upload_size c \<le> 4 * 1024 * 1024 * 1024 \<and>
     server_ip c \<noteq> [] \<and> download_prefix c \<noteq> [] \<and> deep_storage_dir c \<noteq> [] \<and>
     low_storage_dir c \<noteq> [] \<and> temp_dir c \<noteq> [] \<and> storage_info_file c \<noteq> [] \<and> auth_salt c \<noteq> []"

lemma read_members_ok: "read_members L root = Inr c \<Longrightarrow> members_ok c"
  unfolding read_members_def and_then_Inr
  by (auto dest!: ReadString_Inr ReadPort_Inr ReadPositiveInt_Inr ReadSize_Inr simp: members_ok_def)

lemma override_ne: "val \<noteq> [] \<Longrightarrow> override env val \<noteq> []"
  by (auto simp: override_def split: option.splits)

lemma check_config_Inr: "check_config c = Inr d \<Longrightarrow> d = c \<and>
     hd (download_prefix c) = SLASH \<and> last (download_prefix c) = SLASH \<and>
     length (auth_hash c) = 64 \<and> list_all is_hex_lower (auth_hash c) \<and>
     \<not> path_eq (lexically_normal (low_storage_dir c)) (lexically_normal (deep_storage_dir c)) \<and>
     \<not> path_eq (lexically_normal (low_storage_dir c)) (lexically_normal (temp_dir c)) \<and>
     \<not> path_eq (lexically_normal (deep_storage_dir c)) (lexically_normal (temp_dir c))"
  by (simp add: check_config_def Let_def split: if_splits)

lemma read_root_ok:
  assumes "read_root L getenv root = Inr c"
  shows "config_ok c"
proof -
  from assms obtain m where m: "read_members L root = Inr m"
    and c: "check_config (m\<lparr>auth_salt := override (getenv ''CLOUD_STORAGE_AUTH_SALT'') (auth_salt m),
      auth_hash := override (getenv ''CLOUD_STORAGE_AUTH_HASH'') (auth_hash m)\<rparr>) = Inr c"
    by (auto simp: read_root_def and_then_Inr)
  show ?thesis
    using read_members_ok [OF m] check_config_Inr [OF c]
    by (simp add: members_ok_def config_ok_def is_absolute_def override_ne)
qed

subsection \<open>Properties\<close>

text \<open>C37. A configuration that \<open>ReadConfig\<close> accepts is sound: the port is a valid one, every number is in its range, no
  string is empty, the download prefix starts and ends with a slash, the password hash is 64
  lower-case hexadecimal digits, also when it comes from the environment, and the three directories
  have different normalised paths.\<close>

theorem read_config_sound:
  assumes "result (ReadConfig L getenv) s = Inr c"
  shows "config_ok c"
proof -
  obtain r t where get: "run_state (GetContent (override (getenv ''CLOUD_STORAGE_CONFIG'') ''Storage.conf'')) s = (r, t)"
    by (rule prod.exhaust)
  with assms obtain root where "read_root L getenv root = Inr c"
    by (auto simp: ReadConfig_def result_def Let_def split: option.splits sum.splits if_splits)
  then show ?thesis by (rule read_root_ok)
qed

definition shipped_conf :: json where
  "shipped_conf = JObject
     [(''server_port'', JInt 8081), (''server_ip'', JString ''127.0.0.1''),
      (''download_prefix'', JString ''/download/''), (''deep_storage_dir'', JString ''./deep_storage/''),
      (''low_storage_dir'', JString ''./low_storage/''), (''temp_dir'', JString ''./tmp/''),
      (''bundle_format'', JInt 4), (''max_upload_size'', JInt 104857600),
      (''storage_info'', JString ''./storage.data''), (''auth_salt'', JString ''CloudStorageSalt2026''),
      (''auth_iterations'', JInt 120000),
      (''auth_hash'', JString ''7af3029340d2209847c00e9547da3c1429f4b4cafbe3d7cf2a75a05218a9efe5''),
      (''session_ttl_seconds'', JInt 3600), (''cookie_secure'', JBool False)]"

definition shipped :: config where
  "shipped = \<lparr>server_port = 8081, server_ip = ''127.0.0.1'', download_prefix = ''/download/'',
     deep_storage_dir = ''./deep_storage/'', low_storage_dir = ''./low_storage/'', temp_dir = ''./tmp/'',
     storage_info_file = ''./storage.data'', auth_salt = ''CloudStorageSalt2026'',
     auth_hash = ''7af3029340d2209847c00e9547da3c1429f4b4cafbe3d7cf2a75a05218a9efe5'',
     bundle_format = 4, auth_iterations = 120000, session_ttl_seconds = 3600,
     max_upload_size = 104857600, cookie_secure = False\<rparr>"

definition ref_config_lib :: "json json_lib" where
  "ref_config_lib = ref_json\<lparr>js_parse := (\<lambda>s. if s = ''shipped'' then Inr shipped_conf else Inl ''syntax error'')\<rparr>"

lemma ref_config_selectors:
  "js_parse ref_config_lib ''shipped'' = Inr shipped_conf"
  "js_isObject ref_config_lib (JObject ms) \<longleftrightarrow> True"
  "js_isString ref_config_lib (JString str) \<longleftrightarrow> True" "js_asString ref_config_lib (JString str) = str"
  "js_isInt ref_config_lib (JInt i) \<longleftrightarrow> - (2 ^ 31) \<le> i \<and> i < 2 ^ 31" "js_asInt ref_config_lib (JInt i) = i"
  "js_isUInt ref_config_lib (JInt i) \<longleftrightarrow> 0 \<le> i \<and> i < 2 ^ 32" "js_asUInt ref_config_lib (JInt i) = nat i"
  "js_isUInt64 ref_config_lib (JInt i) \<longleftrightarrow> 0 \<le> i \<and> i < 2 ^ 64" "js_asUInt64 ref_config_lib (JInt i) = nat i"
  "js_isBool ref_config_lib (JBool b) \<longleftrightarrow> True" "js_asBool ref_config_lib (JBool b) = b"
  "js_at ref_config_lib (JObject ms) k = (case map_of ms k of Some x \<Rightarrow> x | None \<Rightarrow> JNull)"
  "js_isMember ref_config_lib (JObject ms) k \<longleftrightarrow> k \<in> fst ` set ms"
  by (simp_all add: ref_config_lib_def ref_json_def is_int_in_def as_int_def members_def)

lemma shipped_members: "read_members ref_config_lib shipped_conf = Inr shipped"
  by (simp add: read_members_def ReadString_def ReadPort_def ReadPositiveInt_def ReadSize_def ReadBool_def
      ref_config_selectors shipped_conf_def shipped_def)

lemma shipped_dirs:
  "lexically_normal ''./low_storage/'' = ''low_storage/''"
  "lexically_normal ''./deep_storage/'' = ''deep_storage/''"
  "lexically_normal ''./tmp/'' = ''tmp/''"
  by code_simp+

lemma shipped_checked: "check_config shipped = Inr shipped"
  by (simp add: check_config_def shipped_def shipped_dirs is_hex_lower_def less_eq_char_def
      path_eq_def path_elems_def is_absolute_def path_names_def trailing_slash_def)

lemma shipped_accepted: "read_root ref_config_lib (\<lambda>_. None) shipped_conf = Inr shipped"
proof -
  have "shipped\<lparr>auth_salt := auth_salt shipped, auth_hash := auth_hash shipped\<rparr> = shipped" by simp
  then show ?thesis by (simp add: read_root_def shipped_members override_def shipped_checked)
qed

lemma read_config_sound_witness: "config_ok shipped"
proof -
  let ?s = "final (SetContent ''Storage.conf'' ''shipped'') (boot [] [] [])"
  have "writable (boot [] [] []) ''Storage.conf''"
    by (simp add: boot_def writable_def lookup_def parent_exists_def key_def path_names_def is_absolute_def c_str_def)
  then have "result (GetContent ''Storage.conf'') ?s = Some ''shipped''"
    by (intro SetContent_GetContent_done SetContent_done) (simp_all add: boot_def)
  moreover define u where "u = ?s"
  ultimately obtain t where get: "run_state (GetContent ''Storage.conf'') u = (Some ''shipped'', t)"
    by (metis run_result_final)
  have "js_isObject ref_config_lib shipped_conf" by (simp add: shipped_conf_def ref_config_selectors)
  then have "result (ReadConfig ref_config_lib (\<lambda>_. None)) u = Inr shipped"
    by (simp add: ReadConfig_def result_def override_def get UnSerialize_def ref_config_selectors(1) shipped_accepted Let_def)
  then show ?thesis by (rule read_config_sound)
qed

text \<open>The check that the directories differ compares paths element by element, so it accepts one directory
  written with and without a trailing slash: then files of both storage types, and temporary files,
  share a directory.\<close>

lemma normal_plain_name:
  assumes "plain_name d" "d \<notin> {''.'', ''..''}"
  shows "lexically_normal d = d" "lexically_normal (d @ ''/'') = d @ ''/''"
    "path_elems d = [d]" "path_elems (d @ ''/'') = [d, []]"
proof -
  have d: "d \<noteq> []" "SLASH \<notin> set d" using assms(1) by (simp_all add: plain_name_def)
  then have a: "\<not> is_absolute d" "\<not> is_absolute (d @ ''/'')" by (auto simp: is_absolute_def dest: hd_in_set)
  have n: "path_names d = [d]" "path_names (d @ ''/'') = [d]"
    using path_names_plain_name [OF assms(1)] path_names_append [of d "[]"] by (simp_all add: path_names_def)
  have t: "\<not> trailing_slash d" "trailing_slash (d @ ''/'')"
    using d n by (auto simp: trailing_slash_def dest: last_in_set)
  show "lexically_normal d = d" "lexically_normal (d @ ''/'') = d @ ''/''"
    using a n t d assms(2) by (simp_all add: lexically_normal_def normal_names_def)
  show "path_elems d = [d]" "path_elems (d @ ''/'') = [d, []]"
    using a n t by (simp_all add: path_elems_def)
qed

lemma key_trailing_slash: "d \<noteq> [] \<Longrightarrow> key s (d @ ''/'') = key s d"
proof -
  assume "d \<noteq> []"
  have "path_names (c_str (d @ ''/'')) = path_names (c_str d)"
  proof (cases "NUL \<in> set d")
    case True
    then show ?thesis by (simp add: c_str_def)
  next
    case False
    then show ?thesis using path_names_append [of d "[]"] by (simp add: c_str_id path_names_def)
  qed
  with \<open>d \<noteq> []\<close> show ?thesis by (simp add: key_def is_absolute_def)
qed

theorem same_directory_accepted:
  assumes "check_config c = Inr c" and "low_storage_dir c = d"
    and "plain_name d" "d \<notin> {''.'', ''..''}"
    and "\<not> path_eq (d @ ''/'') (lexically_normal (temp_dir c))"
  shows "check_config (c\<lparr>deep_storage_dir := d @ ''/''\<rparr>) = Inr (c\<lparr>deep_storage_dir := d @ ''/''\<rparr>) \<and>
     key s (d @ ''/'') = key s d"
proof -
  have "d \<noteq> []" using assms(3) by (simp add: plain_name_def)
  moreover have "\<not> path_eq d (d @ ''/'')"
    using normal_plain_name [OF assms(3,4)] by (simp add: path_eq_def)
  ultimately show ?thesis
    using check_config_Inr [OF assms(1)] assms normal_plain_name [OF assms(3,4)]
    by (simp add: check_config_def key_trailing_slash)
qed

lemma same_directory_accepted_witness:
  "check_config (shipped\<lparr>low_storage_dir := ''files'', deep_storage_dir := ''files/''\<rparr>) =
     Inr (shipped\<lparr>low_storage_dir := ''files'', deep_storage_dir := ''files/''\<rparr>)"
proof -
  let ?c = "shipped\<lparr>low_storage_dir := ''files''\<rparr>"
  have plain: "plain_name ''files''" by (simp add: plain_name_def)
  have files: "lexically_normal ''files'' = ''files''" using normal_plain_name [OF plain] by simp
  have "check_config ?c = Inr ?c"
    by (simp add: check_config_def shipped_def shipped_dirs files is_hex_lower_def less_eq_char_def
        path_eq_def path_elems_def is_absolute_def path_names_def trailing_slash_def)
  moreover have "\<not> path_eq (''files'' @ ''/'') (lexically_normal (temp_dir ?c))"
    by (simp add: shipped_def shipped_dirs path_eq_def path_elems_def is_absolute_def path_names_def trailing_slash_def)
  ultimately show ?thesis
    using same_directory_accepted [of ?c "''files''" "boot [] [] []", OF _ _ plain] by simp
qed

end
