(* ===== verification/Data_Manager.thy ===== *)
theory Data_Manager
  imports Config "HOL-Library.Multiset"
begin

text \<open>
  \<^verbatim>\<open>src/src/server/DataManager.hpp\<close> and \<^verbatim>\<open>DataManager.cpp\<close>: the metadata of the stored files. The table lives in
  memory, and every change writes a snapshot of the changed table to a temporary file and renames
  it over the metadata file before the change becomes visible. The server handles one request at a
  time, so that the locks have no effect on the results and are left out. \<open>env\<close> collects what the code finds
  outside itself: the JSON library, the configuration singleton, the compressor, and the order in which
  an \<^verbatim>\<open>unordered_map\<close> is iterated.
\<close>

record storage_info =
  si_mtime :: int
  si_atime :: int
  si_fsize :: nat
  si_path :: string
  si_url :: string
  si_type :: string

datatype data_result = OK | NOT_FOUND | ALREADY_EXISTS | PERSIST_FAILED

type_synonym table = "(string, storage_info) hash_map"

record 'j env =
  json :: "'j json_lib"
  conf :: config
  compressor :: bundle_lib
  hash_order :: "table \<Rightarrow> table"

record data_state = os +
  storage_file :: string
  table :: table

type_synonym ('z, 'a) dm = "('z data_state_scheme, 'a) state"

subsection \<open>StorageInfo\<close>

definition NewStorageInfo :: "'j env \<Rightarrow> string \<Rightarrow> string \<Rightarrow> string \<Rightarrow> ('z, storage_info option) io" where
  "NewStorageInfo E actual_path final_path storage_type =
     (if storage_type \<noteq> ''low'' \<and> storage_type \<noteq> ''deep'' then give None
      else do {
        len \<leftarrow> FileSize actual_path;
        modified \<leftarrow> LastModifyTime actual_path;
        accessed \<leftarrow> LastAccessTime actual_path;
        give (if len < 0 \<or> modified < 0 \<or> accessed < 0 then None
          else Some \<lparr>si_mtime = modified, si_atime = accessed, si_fsize = nat len,
            si_path = final_path, si_url = download_prefix (conf E) @ FileName final_path,
            si_type = storage_type\<rparr>) })"

definition storage_dir :: "config \<Rightarrow> string \<Rightarrow> string" where
  "storage_dir c type = (if type = ''deep'' then deep_storage_dir c else low_storage_dir c)"

text \<open>
  The conditions in the order of the code. A size that is not an unsigned number is read as a signed one.
\<close>

definition ParseStorageInfo :: "'j env \<Rightarrow> 'j \<Rightarrow> storage_info option" where
  "ParseStorageInfo E val =
     (let L = json E; get = js_at L val in
      if \<not> js_isObject L val \<or> \<not> js_isString L (get ''storage_path_'') \<or> \<not> js_isString L (get ''url_'') \<or>
         js_asString L (get ''storage_path_'') = [] \<or> js_asString L (get ''url_'') = [] \<or>
         \<not> (js_isUInt64 L (get ''fsize_'') \<or> js_isInt64 L (get ''fsize_'')) \<or>
         \<not> js_isInt64 L (get ''mtime_'') \<or> \<not> js_isInt64 L (get ''atime_'')
      then None
      else
        let signed_size = (if js_isInt64 L (get ''fsize_'') then js_asInt64 L (get ''fsize_'') else 0);
            modified = js_asInt64 L (get ''mtime_'');
            accessed = js_asInt64 L (get ''atime_'')
        in if (js_isInt64 L (get ''fsize_'') \<and> signed_size < 0) \<or> modified < 0 \<or> accessed < 0 then None
        else
          let fsize = (if js_isUInt64 L (get ''fsize_'') then js_asUInt64 L (get ''fsize_'') else nat signed_size);
              path = js_asString L (get ''storage_path_'');
              url = js_asString L (get ''url_'');
              type =
                (if js_isMember L val ''storage_type_'' \<and> js_isString L (get ''storage_type_'')
                 then js_asString L (get ''storage_type_'')
                 else if path_eq (lexically_normal (parent_path path))
                           (lexically_normal (deep_storage_dir (conf E)))
                 then ''deep'' else ''low'')
          in if type \<noteq> ''low'' \<and> type \<noteq> ''deep'' then None
          else
            let normal = lexically_normal path;
                expected = lexically_normal (storage_dir (conf E) type)
            in if path_filename normal = [] \<or> \<not> path_eq (parent_path normal) expected then None
            else if url = download_prefix (conf E) @ path_filename normal
            then Some \<lparr>si_mtime = modified, si_atime = accessed, si_fsize = fsize, si_path = path,
              si_url = url, si_type = type\<rparr>
            else None)"

subsection \<open>Loading\<close>

fun load_entries :: "'j env \<Rightarrow> 'j list \<Rightarrow> table \<Rightarrow> table option" where
  "load_entries E [] loaded = Some loaded"
| "load_entries E (v # vs) loaded =
     (case ParseStorageInfo E v of
        None \<Rightarrow> None
      | Some info \<Rightarrow>
          if hm_find loaded (si_url info) \<noteq> None then None
          else load_entries E vs (loaded @ [(si_url info, info)]))"

definition InitLoad :: "'j env \<Rightarrow> ('z, bool) dm" where
  "InitLoad E = do {
     file \<leftarrow> gets storage_file;
     present \<leftarrow> Exists file;
     if \<not> fst present then give True
     else do {
       body \<leftarrow> GetContent file;
       case body of
         None \<Rightarrow> give False
       | Some body \<Rightarrow> (case UnSerialize (json E) body of
           Inl error \<Rightarrow> give False
         | Inr root \<Rightarrow>
             if js_isNull (json E) root then give True
             else if \<not> js_isArray (json E) root then give False
             else (case load_entries E (map (js_index (json E) root) [0..<js_size (json E) root]) [] of
               None \<Rightarrow> give False
             | Some loaded \<Rightarrow> do { modify (\<lambda>s. s\<lparr>table := loaded\<rparr>); give True })) } }"

text \<open>The constructor: the exception it throws is its message.\<close>

definition DataManager :: "'j env \<Rightarrow> ('z, string option) dm" where
  "DataManager E = do {
     modify (\<lambda>s. s\<lparr>storage_file := storage_info_file (conf E), table := []\<rparr>);
     ok \<leftarrow> InitLoad E;
     give (if ok then None else Some ''cannot load storage metadata'') }"

subsection \<open>Persisting\<close>

definition info_json :: "'j json_lib \<Rightarrow> storage_info \<Rightarrow> 'j" where
  "info_json L info =
     (let item = js_null L;
          item = js_set L item ''mtime_'' (js_of_int L (si_mtime info));
          item = js_set L item ''atime_'' (js_of_int L (si_atime info));
          item = js_set L item ''fsize_'' (js_of_uint L (si_fsize info));
          item = js_set L item ''url_'' (js_of_string L (si_url info));
          item = js_set L item ''storage_path_'' (js_of_string L (si_path info));
          item = js_set L item ''storage_type_'' (js_of_string L (si_type info))
      in item)"

definition table_json :: "'j json_lib \<Rightarrow> table \<Rightarrow> 'j" where
  "table_json L entries = foldl (\<lambda>root entry. js_append L root (info_json L (snd entry))) (js_array L) entries"

definition Persist :: "'j env \<Rightarrow> string \<Rightarrow> table \<Rightarrow> ('z, bool) io" where
  "Persist E file tbl =
     (case Serialize (json E) (table_json (json E) (hash_order E tbl)) of
        None \<Rightarrow> give False
      | Some body \<Rightarrow> do {
          let parent = ParentPath file;
          made \<leftarrow> CreateDirectory parent;
          if \<not> made then give False
          else do {
            temporary \<leftarrow> CreateTempFile parent ''.storage-'';
            case temporary of
              None \<Rightarrow> give False
            | Some temporary_path \<Rightarrow> do {
                ok \<leftarrow> SetContent temporary_path body;
                if \<not> ok then do { remove_file temporary_path; give False }
                else do {
                  renamed \<leftarrow> rename_file temporary_path file;
                  if \<not> renamed then do { remove_file temporary_path; give False }
                  else do { SyncDirectory parent; give True } } } } })"

subsection \<open>The operations\<close>

definition Insert :: "'j env \<Rightarrow> storage_info \<Rightarrow> ('z, data_result) dm" where
  "Insert E info = do {
     next' \<leftarrow> gets table;
     if hm_find next' (si_url info) \<noteq> None then give ALREADY_EXISTS
     else do {
       let next' = next' @ [(si_url info, info)];
       file \<leftarrow> gets storage_file;
       ok \<leftarrow> Persist E file next';
       if \<not> ok then give PERSIST_FAILED
       else do { modify (\<lambda>s. s\<lparr>table := next'\<rparr>); give OK } } }"

definition Delete_info :: "'j env \<Rightarrow> string \<Rightarrow> ('z, data_result) dm" where
  "Delete_info E url = do {
     next' \<leftarrow> gets table;
     if hm_find next' url = None then give NOT_FOUND
     else do {
       let next' = hm_erase url next';
       file \<leftarrow> gets storage_file;
       ok \<leftarrow> Persist E file next';
       if \<not> ok then give PERSIST_FAILED
       else do { modify (\<lambda>s. s\<lparr>table := next'\<rparr>); give OK } } }"

definition GetOneByURL :: "string \<Rightarrow> ('z, storage_info option) dm" where
  "GetOneByURL url = gets (\<lambda>s. hm_find (table s) url)"

definition GetAll :: "'j env \<Rightarrow> ('z, storage_info list) dm" where
  "GetAll E = gets (\<lambda>s. map snd (hash_order E (table s)))"

subsection \<open>Reading a saved record\<close>

text \<open>The conditions under which a record that was saved is accepted when it is loaded.\<close>

definition acceptable :: "config \<Rightarrow> storage_info \<Rightarrow> bool" where
  "acceptable c info \<longleftrightarrow> si_path info \<noteq> [] \<and> si_url info \<noteq> [] \<and> si_type info \<in> {''low'', ''deep''} \<and>
     path_filename (lexically_normal (si_path info)) \<noteq> [] \<and>
     path_eq (parent_path (lexically_normal (si_path info))) (lexically_normal (storage_dir c (si_type info))) \<and>
     si_url info = download_prefix c @ path_filename (lexically_normal (si_path info))"

text \<open>Times and sizes fit their machine types, as they do when they come from \<^verbatim>\<open>stat\<close>.\<close>

definition representable :: "storage_info \<Rightarrow> bool" where
  "representable info \<longleftrightarrow> 0 \<le> si_mtime info \<and> si_mtime info < 2 ^ 63 \<and> 0 \<le> si_atime info \<and>
     si_atime info < 2 ^ 63 \<and> si_fsize info < 2 ^ 64"

lemma info_json_members:
  assumes "assign_laws L"
  shows "js_isObject L (info_json L info)"
    "js_at L (info_json L info) ''mtime_'' = js_of_int L (si_mtime info)"
    "js_at L (info_json L info) ''atime_'' = js_of_int L (si_atime info)"
    "js_at L (info_json L info) ''fsize_'' = js_of_uint L (si_fsize info)"
    "js_at L (info_json L info) ''url_'' = js_of_string L (si_url info)"
    "js_at L (info_json L info) ''storage_path_'' = js_of_string L (si_path info)"
    "js_at L (info_json L info) ''storage_type_'' = js_of_string L (si_type info)"
    "js_isMember L (info_json L info) ''storage_type_''"
proof -
  have set: "js_isObject L (js_set L v k x)" "js_at L (js_set L v k x) n = (if n = k then x else js_at L v n)"
    "js_isMember L (js_set L v k x) n = (n = k \<or> js_isMember L v n)"
    if "js_isNull L v \<or> js_isObject L v" for v k x n
    using assms that unfolding assign_laws_def by blast+
  have null: "js_isNull L (js_null L)" using assms by (simp add: assign_laws_def)
  show "js_isObject L (info_json L info)"
    "js_at L (info_json L info) ''mtime_'' = js_of_int L (si_mtime info)"
    "js_at L (info_json L info) ''atime_'' = js_of_int L (si_atime info)"
    "js_at L (info_json L info) ''fsize_'' = js_of_uint L (si_fsize info)"
    "js_at L (info_json L info) ''url_'' = js_of_string L (si_url info)"
    "js_at L (info_json L info) ''storage_path_'' = js_of_string L (si_path info)"
    "js_at L (info_json L info) ''storage_type_'' = js_of_string L (si_type info)"
    "js_isMember L (info_json L info) ''storage_type_''"
    by (simp_all add: info_json_def Let_def set null)
qed

lemma same_leaf_eqs:
  assumes "same_leaf L j k"
  shows "js_isObject L k = js_isObject L j" "js_isString L k = js_isString L j"
    "js_isInt64 L k = js_isInt64 L j" "js_isUInt64 L k = js_isUInt64 L j"
    "js_asString L k = js_asString L j" "js_asInt64 L k = js_asInt64 L j"
    "js_asUInt64 L k = js_asUInt64 L j" "js_isMember L k = js_isMember L j"
    "js_isNull L k = js_isNull L j" "js_isArray L k = js_isArray L j" "js_size L k = js_size L j"
  using assms by (simp_all add: same_leaf_def)

lemma parse_saved:
  assumes "assign_laws (json E)" "scalar_laws (json E)" "reads_back (json E) R"
    and "R (info_json (json E) info) k" and "representable info"
  shows "ParseStorageInfo E k = (if acceptable (conf E) info then Some info else None)"
proof -
  let ?L = "json E" and ?v = "info_json (json E) info"
  note m = info_json_members [OF assms(1), of info]
  have same: "same_leaf ?L ?v k" and at: "\<And>n. same_leaf ?L (js_at ?L ?v n) (js_at ?L k n)"
    using assms(3,4) unfolding reads_back_def by blast+
  have int: "js_isInt64 ?L (js_of_int ?L i)" "js_asInt64 ?L (js_of_int ?L i) = i" if "0 \<le> i" "i < 2 ^ 63" for i
  proof -
    have "- (2 ^ 63) \<le> i" using that(1) by simp
    then show "js_isInt64 ?L (js_of_int ?L i)" "js_asInt64 ?L (js_of_int ?L i) = i"
      using assms(2) that(2) unfolding scalar_laws_def by blast+
  qed
  have uint: "js_isUInt64 ?L (js_of_uint ?L (si_fsize info))" "js_asUInt64 ?L (js_of_uint ?L (si_fsize info)) = si_fsize info"
    "js_isInt64 ?L (js_of_uint ?L (si_fsize info)) \<Longrightarrow> js_asInt64 ?L (js_of_uint ?L (si_fsize info)) = int (si_fsize info)"
    using assms(2,5) unfolding scalar_laws_def representable_def by blast+
  have str: "js_isString ?L (js_of_string ?L x)" "js_asString ?L (js_of_string ?L x) = x" for x
    using assms(2) unfolding scalar_laws_def by blast+
  have rd: "js_isObject ?L k" "js_isMember ?L k ''storage_type_''"
    "js_isString ?L (js_at ?L k ''storage_path_'')" "js_asString ?L (js_at ?L k ''storage_path_'') = si_path info"
    "js_isString ?L (js_at ?L k ''url_'')" "js_asString ?L (js_at ?L k ''url_'') = si_url info"
    "js_isString ?L (js_at ?L k ''storage_type_'')" "js_asString ?L (js_at ?L k ''storage_type_'') = si_type info"
    "js_isInt64 ?L (js_at ?L k ''mtime_'')" "js_asInt64 ?L (js_at ?L k ''mtime_'') = si_mtime info"
    "js_isInt64 ?L (js_at ?L k ''atime_'')" "js_asInt64 ?L (js_at ?L k ''atime_'') = si_atime info"
    "js_isUInt64 ?L (js_at ?L k ''fsize_'')" "js_asUInt64 ?L (js_at ?L k ''fsize_'') = si_fsize info"
    using assms(5)
    by (simp_all add: same_leaf_eqs [OF same] same_leaf_eqs [OF at] m str int uint representable_def)
  have sz: "js_isInt64 ?L (js_at ?L k ''fsize_'') \<Longrightarrow> js_asInt64 ?L (js_at ?L k ''fsize_'') = int (si_fsize info)"
    using uint(3) by (simp add: same_leaf_eqs [OF at] m)
  show ?thesis
    using assms(5)
    by (auto simp: ParseStorageInfo_def Let_def rd sz acceptable_def representable_def)
qed

subsection \<open>Reading a saved table\<close>

text \<open>Every entry stands under its own URL.\<close>

definition keyed :: "table \<Rightarrow> bool" where
  "keyed tbl \<longleftrightarrow> list_all (\<lambda>e. fst e = si_url (snd e)) tbl"

lemma table_json_facts:
  assumes "assign_laws L"
  shows "js_isArray L (table_json L es) \<and> \<not> js_isNull L (table_json L es) \<and>
     js_size L (table_json L es) = length es \<and>
     (\<forall>i < length es. js_index L (table_json L es) i = info_json L (snd (es ! i)))"
proof (induction es rule: rev_induct)
  case Nil
  show ?case using assms by (simp add: table_json_def assign_laws_def)
next
  case (snoc e es)
  have app: "js_isArray L (js_append L a x)" "\<not> js_isNull L (js_append L a x)"
    "js_size L (js_append L a x) = Suc (js_size L a)"
    "js_index L (js_append L a x) i = (if i = js_size L a then x else js_index L a i)"
    if "js_isArray L a" for a x i
    using assms that unfolding assign_laws_def by blast+
  have "table_json L (es @ [e]) = js_append L (table_json L es) (info_json L (snd e))"
    by (simp add: table_json_def)
  then show ?case using snoc app by (auto simp: nth_append)
qed

lemma load_saved:
  assumes "assign_laws (json E)" "scalar_laws (json E)" "reads_back (json E) R"
    and "list_all2 (\<lambda>e k. R (info_json (json E) (snd e)) k) es ks"
    and "list_all (\<lambda>e. representable (snd e)) es" and "keyed es" and "distinct (map fst (loaded @ es))"
  shows "load_entries E ks loaded =
     (if list_all (\<lambda>e. acceptable (conf E) (snd e)) es then Some (loaded @ es) else None)"
  using assms(4-7)
proof (induction es ks arbitrary: loaded rule: list_all2_induct)
  case (Cons e es k ks)
  have parse: "ParseStorageInfo E k = (if acceptable (conf E) (snd e) then Some (snd e) else None)"
    by (rule parse_saved [OF assms(1-3)]) (use Cons in simp_all)
  have e: "(si_url (snd e), snd e) = e" using Cons.prems(2) by (cases e) (simp add: keyed_def)
  have "hm_find loaded (si_url (snd e)) = None"
  proof -
    have "fst e \<notin> fst ` set loaded" using Cons.prems(3) by auto
    moreover have "fst e = si_url (snd e)" using Cons.prems(2) by (simp add: keyed_def)
    ultimately show ?thesis by (simp add: hm_find_def map_of_eq_None_iff)
  qed
  then show ?case
    using parse e Cons.IH [of "loaded @ [e]"] Cons.prems by (simp add: keyed_def)
qed simp

text \<open>A table in whatever order it is iterated is the same map.\<close>

definition order_ok :: "'j env \<Rightarrow> bool" where
  "order_ok E \<longleftrightarrow> (\<forall>t. mset (hash_order E t) = mset t)"

lemma order_facts:
  assumes "order_ok E"
  shows "set (hash_order E t) = set t" "distinct (map fst (hash_order E t)) = distinct (map fst t)"
    and "hm_ok t \<Longrightarrow> hm_find (hash_order E t) = hm_find t"
proof -
  have m: "mset (hash_order E t) = mset t" using assms by (simp add: order_ok_def)
  show set: "set (hash_order E t) = set t" using m by (metis set_mset_mset)
  show dist: "distinct (map fst (hash_order E t)) = distinct (map fst t)"
    using m by (metis mset_map mset_eq_imp_distinct_iff)
  show "hm_find (hash_order E t) = hm_find t" if "hm_ok t"
    using that set dist map_of_inject_set [of "hash_order E t" t]
    by (simp add: hm_ok_def hm_find_def fun_eq_iff)
qed

subsection \<open>Persisting under every fault\<close>

lemma data_more: "os.more t = os.more s \<Longrightarrow> table t = table s \<and> storage_file t = storage_file s \<and> data_state.more t = data_state.more s"
  by (cases s; cases t) simp

text \<open>The names that did not exist, and the one that is replaced.\<close>

definition replaces :: "string list \<Rightarrow> 'z os_scheme \<Rightarrow> 'z os_scheme \<Rightarrow> bool" where
  "replaces k0 s t \<longleftrightarrow> frame ({k. node s k = None} \<union> {k0}) {} s t"

lemma extends_replaces: "extends s t \<Longrightarrow> replaces k s t"
  unfolding extends_def replaces_def by (rule frame_mono) auto

lemma extends_fresh_write:
  assumes "extends s t" "frame {} {i} t u" "next_ino s \<le> i"
  shows "extends s u"
  unfolding extends_def
  by (rule frame_compose [where J = "{i}", OF assms(1) [unfolded extends_def] frame_mono [OF assms(2)]])
     (use assms(3) in auto)

lemma remove_extends:
  assumes "extends s t" "node s (key s p) = None" "run_state (remove_file p) t = (r, u)"
  shows "extends s u"
  using assms(3) unfolding remove_file_def
proof (cases rule: unlink_run)
  case failed
  with assms(1) show ?thesis by (simp add: quiet_eqs)
next
  case (removed i)
  have "key t p = key s p" using frame_key assms(1) unfolding extends_def by blast
  with removed(3) show ?thesis using extends_remove [OF assms(1,2)] by simp
qed

lemma Persist_run:
  assumes "run_state (Persist E file tbl) s = (r, t)"
  obtains (failed) "\<not> r" "extends s t" "balanced s t"
  | (stored) body i where "r" "Serialize (json E) (table_json (json E) (hash_order E tbl)) = Some body"
      "lookup t file = Some (File i)" "bytes (inodes t i) = body" "next_ino s \<le> i" "i < next_ino t"
      "replaces (key s file) s t" "balanced s t"
proof (cases "Serialize (json E) (table_json (json E) (hash_order E tbl))")
  case None
  then show ?thesis using assms that(1) by (simp add: Persist_def ex.refl balanced_refl)
next
  case (Some body)
  let ?parent = "ParentPath file"
  obtain mkd s1 where mk: "run_state (CreateDirectory ?parent) s = (mkd, s1)" by (rule prod.exhaust)
  note c = CreateDirectory_run [OF mk]
  have e1: "extends s s1" using c(1) by (rule frame_extends) simp
  show ?thesis
  proof (cases mkd)
    case False
    then have "\<not> r" "t = s1" using assms Some mk by (simp_all add: Persist_def Let_def)
    then show ?thesis using that(1) e1 c(2) by simp
  next
    case mkd: True
    obtain tmp s2 where tf: "run_state (CreateTempFile ?parent ''.storage-'') s1 = (tmp, s2)" by (rule prod.exhaust)
    from tf show ?thesis
    proof (cases rule: CreateTempFile_run)
      case failed
      then have "\<not> r" "t = s2" using assms Some mk mkd tf by (simp_all add: Persist_def Let_def)
      then show ?thesis using that(1) extends_trans [OF e1 failed(2)] balanced_trans [OF c(2) failed(3)] by simp
    next
      case (created p i)
      have k1: "key s1 p = key s p" by (rule frame_key [OF c(1)])
      have np: "node s (key s p) = None"
        using created(4) extends_node [OF e1] unfolding k1 by (cases "node s (key s p)") fastforce+
      have e2: "extends s s2" by (rule extends_trans [OF e1 created(2)])
      have b2: "balanced s s2" by (rule balanced_trans [OF c(2) created(3)])
      have i: "next_ino s \<le> i" "target s2 p = i" "made s2 p = {}"
        using created(5,6) c(4) by (simp_all add: target_def made_def)
      obtain ok s3 where set: "run_state (SetContent p body) s2 = (ok, s3)" by (rule prod.exhaust)
      have all3: "extends s s3 \<and> balanced s s3 \<and> next_ino s2 \<le> next_ino s3 \<and>
          (ok \<longrightarrow> lookup s3 p = Some (File i) \<and> bytes (inodes s3 i) = body)"
        using set
      proof (cases rule: SetContent_run)
        case failed
        then show ?thesis using e2 balanced_trans [OF b2 quiet_balanced [OF failed(2)]] by (simp add: quiet_eqs)
      next
        case stopped
        then have f: "frame {} {i} s2 s3" by (simp add: i)
        show ?thesis using stopped extends_fresh_write [OF e2 f i(1)] balanced_trans [OF b2] f
          by (simp add: frame_def [of "{}"])
      next
        case stored
        then have f: "frame {} {i} s2 s3" by (simp add: i)
        show ?thesis using stored extends_fresh_write [OF e2 f i(1)] balanced_trans [OF b2] f i(2)
          by (simp add: frame_def [of "{}"])
      qed
      then have s3: "extends s s3" "balanced s s3" "ok \<Longrightarrow> lookup s3 p = Some (File i) \<and> bytes (inodes s3 i) = body"
        and ino3: "next_ino s2 \<le> next_ino s3" by blast+
      show ?thesis
      proof (cases ok)
        case False
        obtain x s4 where rm: "run_state (remove_file p) s3 = (x, s4)" by (rule prod.exhaust)
        have "\<not> r" "t = s4"
          using assms Some mk mkd tf created(1) set False rm by (simp_all add: Persist_def Let_def)
        then show ?thesis
          using that(1) remove_extends [OF s3(1) np rm]
            balanced_trans [OF s3(2) unlink_balanced [OF rm [unfolded remove_file_def]]] by simp
      next
        case True
        obtain rn s4 where ren: "run_state (rename_file p file) s3 = (rn, s4)" by (rule prod.exhaust)
        have k3: "key s3 q = key s q" for q using frame_key s3(1) unfolding extends_def by blast
        have ld: "lookup s3 p = Some (File i)" "bytes (inodes s3 i) = body" using s3(3) True by simp_all
        have fin: "r \<and> tidy s4 t" if rn
        proof -
          obtain y s5 where sy: "run_state (SyncDirectory ?parent) s4 = (y, s5)" by (rule prod.exhaust)
          have "r" "t = s5" using assms Some mk mkd tf created(1) set True ren that sy
            by (simp_all add: Persist_def Let_def)
          then show ?thesis using SyncDirectory_run [OF sy] by simp
        qed
        from ren show ?thesis
        proof (cases rule: rename_run)
          case failed
          obtain x s5 where rm: "run_state (remove_file p) s4 = (x, s5)" by (rule prod.exhaust)
          have r: "\<not> r" "t = s5"
            using assms Some mk mkd tf created(1) set True ren failed(1) rm by (simp_all add: Persist_def Let_def)
          have "extends s s4" "balanced s s4"
                using s3(1) failed(2) balanced_trans [OF s3(2) quiet_balanced [OF failed(2)]] by (simp_all add: quiet_eqs)
          then show ?thesis
            using that(1) r remove_extends [OF _ np rm]
              balanced_trans [OF _ unlink_balanced [OF rm [unfolded remove_file_def]]] by simp
        next
          case (same j)
          then have j: "j = i" using ld by simp
          have f: "r" "tidy s4 t" using fin same(1) by simp_all
          have st: "silent s3 t" using si.trans [OF quiet_silent [OF same(4)]] f(2) unfolding tidy_def by blast
          have "lookup t file = Some (File i)" "bytes (inodes t i) = body" "next_ino t = next_ino s3"
            using same(3) ld j silent_eqs [OF st] by simp_all
          moreover have "extends s t"
            by (rule extends_trans [OF s3(1) silent_extends [OF st]])
          moreover have "balanced s t"
            using s3(2) quiet_balanced [OF same(4)] f(2) balanced_trans unfolding tidy_def by blast
          ultimately show ?thesis
            using that(2) [of body i] f(1) Some i(1) created(7) ino3 extends_replaces [of s t] by simp
        next
          case (moved j)
          then have j: "j = i" using ld by simp
          let ?u = "s3\<lparr>node := (node s3)(key s3 file \<mapsto> File j, key s3 p := None)\<rparr>"
          have f: "r" "tidy s4 t" using fin moved(1) by simp_all
          have ne: "key s file \<noteq> key s p" and cf: "c_str file \<noteq> []"
            using moved(2,3,5) by (auto simp: k3 lookup_def parent_exists_def split: if_splits)
          have st: "silent ?u t" using moved(6) f(2) si.trans quiet_silent unfolding tidy_def by blast
          have "key t q = key s3 q" for q using st by (simp add: silent_def key_def)
          then have kt: "key t q = key s q" for q using k3 by simp
          have "lookup t file = Some (File i)"
            using st cf ne j kt by (simp add: silent_def lookup_def k3)
          moreover have "bytes (inodes t i) = body" "next_ino t = next_ino s3"
            using st ld by (simp_all add: silent_def)
          moreover have "replaces (key s file) s t"
            using s3(1) st np unfolding replaces_def extends_def by (auto simp: frame_def silent_def k3)
          moreover have "balanced s3 ?u"
            using moved(2,5) by (auto simp: balanced_def fs_wf_def lookup_def parent_exists_def split: if_splits)
          then have "balanced s t"
            using s3(2) quiet_balanced [OF moved(6)] f(2) balanced_trans unfolding tidy_def by blast
          ultimately show ?thesis
            using that(2) [of body i] f(1) Some i(1) created(7) ino3 by simp
        qed
      qed
    qed
  qed
qed

subsection \<open>Changes of the table\<close>

definition table_body :: "'j env \<Rightarrow> table \<Rightarrow> string option" where
  "table_body E tbl = Serialize (json E) (table_json (json E) (hash_order E tbl))"

text \<open>The metadata file holds a snapshot of the table in memory.\<close>

definition synced :: "'j env \<Rightarrow> 'z data_state_scheme \<Rightarrow> bool" where
  "synced E s \<longleftrightarrow> (\<exists>i. lookup s (storage_file s) = Some (File i) \<and>
     table_body E (table s) = Some (bytes (inodes s i)))"

lemma file_kept:
  assumes "extends s t" "lookup s p = Some (File i)" "fs_wf s"
  shows "lookup t p = Some (File i)" and "inodes t i = inodes s i"
proof -
  have k: "key t p = key s p" using frame_key assms(1) unfolding extends_def by blast
  have n: "c_str p \<noteq> []" "node s (key s p) = Some (File i)"
    using assms(2) by (simp_all add: lookup_def split: if_splits)
  show "lookup t p = Some (File i)"
    using extends_node [OF assms(1) n(2)] n(1) k by (simp add: lookup_def)
  have "i < next_ino s" using assms(3) n(2) by (simp add: fs_wf_def)
  then show "inodes t i = inodes s i" by (rule extends_inode [OF assms(1)])
qed

lemma table_update [simp]:
  "lookup (s\<lparr>table := x\<rparr>) p = lookup s p" "key (s\<lparr>table := x\<rparr>) p = key s p"
  "fs_wf (s\<lparr>table := x\<rparr>) = fs_wf s"
  by (simp_all add: lookup_def key_def fs_wf_def)

lemma synced_kept:
  assumes "extends s t" "synced E s" "fs_wf s"
  shows "synced E t"
proof -
  note m = data_more [of t s, OF frame_more [OF assms(1) [unfolded extends_def]]]
  obtain i where i: "lookup s (storage_file s) = Some (File i)" "table_body E (table s) = Some (bytes (inodes s i))"
    using assms(2) by (auto simp: synced_def)
  from file_kept [OF assms(1) i(1) assms(3)] i(2) m show ?thesis by (auto simp: synced_def)
qed

text \<open>\<open>Insert\<close> and \<open>Delete\<close> share their second half: persist the changed table, then show it.\<close>

definition commit_table :: "'j env \<Rightarrow> table \<Rightarrow> ('z, data_result) dm" where
  "commit_table E next' = do {
     file \<leftarrow> gets storage_file;
     ok \<leftarrow> Persist E file next';
     if \<not> ok then give PERSIST_FAILED
     else do { modify (\<lambda>s. s\<lparr>table := next'\<rparr>); give OK } }"

lemma commit_table_run:
  assumes "run_state (commit_table E next') s = (r, t)"
  obtains (failed) "r = PERSIST_FAILED" "extends s t" "balanced s t" "table t = table s"
  | (committed) u where "r = OK" "replaces (key s (storage_file s)) s u" "t = u\<lparr>table := next'\<rparr>" "balanced s u"
      "synced E t"
proof -
  obtain ok u where p: "run_state (Persist E (storage_file s) next') s = (ok, u)" by (rule prod.exhaust)
  from p show thesis
  proof (cases rule: Persist_run)
    case failed
    then have "r = PERSIST_FAILED" "t = u" using assms p by (simp_all add: commit_table_def)
    then show ?thesis
      using that(1) failed data_more [OF frame_more [OF failed(2) [unfolded extends_def]]] by simp
  next
    case (stored body i)
    then have r: "r = OK" "t = u\<lparr>table := next'\<rparr>" using assms p by (simp_all add: commit_table_def)
    have "storage_file u = storage_file s"
      using data_more [OF frame_more [OF stored(7) [unfolded replaces_def]]] by simp
    then have "synced E t" using stored(2-4) r(2) by (simp add: synced_def table_body_def)
    then show ?thesis using that(2) r stored(7,8) by blast
  qed
qed

lemma Insert_run:
  assumes "run_state (Insert E info) s = (r, t)"
  obtains (present) "r = ALREADY_EXISTS" "hm_find (table s) (si_url info) \<noteq> None" "t = s"
  | (absent) "hm_find (table s) (si_url info) = None"
      "run_state (commit_table E (table s @ [(si_url info, info)])) s = (r, t)"
  using assms
  by (cases "hm_find (table s) (si_url info)") (auto simp: Insert_def commit_table_def Let_def)

lemma Delete_run:
  assumes "run_state (Delete_info E url) s = (r, t)"
  obtains (absent) "r = NOT_FOUND" "hm_find (table s) url = None" "t = s"
  | (present) "hm_find (table s) url \<noteq> None" "run_state (commit_table E (hm_erase url (table s))) s = (r, t)"
  using assms
  by (cases "hm_find (table s) url") (auto simp: Delete_info_def commit_table_def Let_def)

lemma commit_table_synced:
  assumes "run_state (commit_table E next') s = (r, t)" "synced E s" "fs_wf s"
  shows "synced E t" and "fs_wf t"
proof -
  from assms(1) have "synced E t \<and> fs_wf t"
  proof (cases rule: commit_table_run)
    case failed
    then show ?thesis using synced_kept [OF failed(2) assms(2,3)] assms(3) by (simp add: balanced_def)
  next
    case (committed u)
    then show ?thesis using assms(3) by (simp add: balanced_def)
  qed
  then show "synced E t" "fs_wf t" by blast+
qed

text \<open>
  What a metadata file says. A start may read a file that somebody else has written, or the records in another order than
  the one in which the table would be written again; so a file says a table if it is a snapshot of it or loads to it.
\<close>

definition loads :: "'j env \<Rightarrow> string \<Rightarrow> table option" where
  "loads E body = (case UnSerialize (json E) body of
       Inl error \<Rightarrow> None
     | Inr root \<Rightarrow>
         if js_isNull (json E) root then Some []
         else if \<not> js_isArray (json E) root then None
         else load_entries E (map (js_index (json E) root) [0..<js_size (json E) root]) [])"

definition says :: "'j env \<Rightarrow> string \<Rightarrow> table \<Rightarrow> bool" where
  "says E body tbl \<longleftrightarrow> table_body E tbl = Some body \<or> loads E body = Some tbl"

text \<open>The metadata file says the table in memory.\<close>

definition agrees :: "'j env \<Rightarrow> 'z data_state_scheme \<Rightarrow> bool" where
  "agrees E s \<longleftrightarrow> (\<exists>i. lookup s (storage_file s) = Some (File i) \<and> says E (bytes (inodes s i)) (table s))"

lemma synced_agrees: "synced E s \<Longrightarrow> agrees E s"
  by (auto simp: synced_def agrees_def says_def)

lemma agrees_exists: "agrees E s \<Longrightarrow> node s (key s (storage_file s)) \<noteq> None"
  by (auto simp: agrees_def lookup_def split: if_splits)

text \<open>Loading: the table is as it was, or the one that the file loads to.\<close>

lemma InitLoad_run:
  assumes "run_state (InitLoad E) s = (r, t)"
  obtains (failed) "\<not> r" "tidy s t"
  | (absent) "r" "quiet s t" "\<not> fst (result (Exists (storage_file s)) s)"
  | (loaded) u body tbl where "r" "fst (result (Exists (storage_file s)) s)" "lookup s (storage_file s) \<noteq> None"
      "\<And>i. lookup s (storage_file s) = Some (File i) \<Longrightarrow> body = bytes (inodes s i)"
      "loads E body = Some tbl" "tidy s u" "tbl = [] \<and> t = u \<or> t = u\<lparr>table := tbl\<rparr>"
proof -
  obtain x s1 where ex: "run_state (Exists (storage_file s)) s = (x, s1)" by (rule prod.exhaust)
  note e = Exists_run [OF ex]
  show thesis
  proof (cases "fst x")
    case False
    then show thesis using absent assms e(1) ex by (simp add: InitLoad_def result_def)
  next
    case True
    obtain g s2 where get: "run_state (GetContent (storage_file s)) s1 = (g, s2)" by (rule prod.exhaust)
    note c = GetContent_run [OF get]
    have td: "tidy s s2" by (rule tidy_trans [OF quiet_tidy [OF e(1)] c(1)])
    show thesis
    proof (cases g)
      case None
      then show thesis using failed td assms ex True get by (simp add: InitLoad_def)
    next
      case (Some body)
      have body: "body = bytes (inodes s i)" if "lookup s (storage_file s) = Some (File i)" for i
        using c(2) [OF Some] that e(1) by (simp add: quiet_eqs)
      show thesis
      proof (cases "loads E body")
        case None
        have "\<not> r \<and> t = s2" using assms ex True get Some None
          by (auto simp: InitLoad_def loads_def split: sum.splits if_splits option.splits)
        then show thesis using failed td by simp
      next
        case loads: (Some tbl)
        then have "r \<and> (tbl = [] \<and> t = s2 \<or> t = s2\<lparr>table := tbl\<rparr>)" using assms ex True get Some
          by (auto simp: InitLoad_def loads_def split: sum.splits if_splits option.splits)
        then show thesis
          using loaded [OF _ _ e(2) body loads td] ex True by (auto simp: result_def)
      qed
    qed
  qed
qed

lemma assign_new: "hm_find m k = None \<Longrightarrow> m @ [(k, v)] = hm_assign k v m"
  by (force simp: hm_assign_def hm_erase_def hm_find_def map_of_eq_None_iff intro!: filter_True [symmetric])

lemma commit_table_table:
  assumes "run_state (commit_table E next') s = (r, t)"
  shows "r = OK \<and> table t = next' \<or> r = PERSIST_FAILED \<and> table t = table s"
  using assms by (cases rule: commit_table_run) simp_all

subsection \<open>Loading what was persisted\<close>

lemma Exists_done:
  assumes "tape s = []"
  shows "run_state (Exists f) s = ((lookup s f \<noteq> None, False), s)"
  using assms by (simp add: Exists_def fs_exists_def fs_status_def run_next)

lemma InitLoad_done:
  assumes "tape t = []" "lookup t (storage_file t) = Some (File i)" "bytes (inodes t i) = body"
    and "length body < 2 ^ 64" and "UnSerialize (json E) body = Inr root"
    and "js_isArray (json E) root" "\<not> js_isNull (json E) root"
    and "load_entries E (map (js_index (json E) root) [0..<js_size (json E) root]) [] = res"
  shows "case res of None \<Rightarrow> \<not> result (InitLoad E) t
    | Some loaded \<Rightarrow> result (InitLoad E) t \<and> table (final (InitLoad E) t) = loaded"
proof -
  have g: "result (GetContent (storage_file t)) t = Some body"
    using GetContent_done [OF assms(1,2)] assms(3,4) by simp
  then obtain u where get: "run_state (GetContent (storage_file t)) t = (Some body, u)"
    by (metis run_result_final)
  show ?thesis
    using assms get
    by (cases res) (simp_all add: InitLoad_def result_def final_def Exists_done)
qed

lemma parse_persisted:
  assumes "json_laws (json E)" "order_ok E" "hm_ok tbl" "keyed tbl"
    and "list_all (\<lambda>e. representable (snd e)) tbl" "table_body E tbl = Some body"
  obtains root where "UnSerialize (json E) body = Inr root" "js_isArray (json E) root" "\<not> js_isNull (json E) root"
    "load_entries E (map (js_index (json E) root) [0..<js_size (json E) root]) [] =
       (if list_all (\<lambda>e. acceptable (conf E) (snd e)) tbl then Some (hash_order E tbl) else None)"
proof -
  let ?L = "json E" and ?es = "hash_order E tbl"
  obtain R where laws: "assign_laws ?L" "scalar_laws ?L" "reads_back ?L R"
    using assms(1) by (auto simp: json_laws_def)
  note ord = order_facts [OF assms(2), of tbl]
  have "js_write ?L (table_json ?L ?es) = Some body"
    using assms(6) by (simp add: table_body_def Serialize_def)
  then have "\<exists>k. js_parse ?L body = Inr k \<and> R (table_json ?L ?es) k"
    using laws(3) unfolding reads_back_def by blast
  then obtain root where root: "UnSerialize ?L body = Inr root" "R (table_json ?L ?es) root"
    unfolding UnSerialize_def by blast
  then have same: "same_leaf ?L (table_json ?L ?es) root"
    and idx: "\<And>i. R (js_index ?L (table_json ?L ?es) i) (js_index ?L root i)"
    using laws(3) unfolding reads_back_def by blast+
  note tj = table_json_facts [OF laws(1), of ?es]
  have facts: "js_isArray ?L root" "\<not> js_isNull ?L root" "js_size ?L root = length ?es"
    using tj by (simp_all add: same_leaf_eqs [OF same])
  have all2: "list_all2 (\<lambda>e k. R (info_json ?L (snd e)) k) ?es (map (js_index ?L root) [0..<length ?es])"
    using tj idx by (auto simp: list_all2_conv_all_nth) metis
  have sets: "list_all P ?es = list_all P tbl" for P using ord(1) by (simp add: list_all_iff)
  have "load_entries E (map (js_index ?L root) [0..<length ?es]) [] =
      (if list_all (\<lambda>e. acceptable (conf E) (snd e)) ?es then Some ([] @ ?es) else None)"
    by (rule load_saved [OF laws all2])
      (use assms(3-5) ord(2) in \<open>simp_all add: sets keyed_def hm_ok_def\<close>)
  then have "load_entries E (map (js_index ?L root) [0..<js_size ?L root]) [] =
      (if list_all (\<lambda>e. acceptable (conf E) (snd e)) tbl then Some ?es else None)"
    by (simp add: sets facts(3))
  with that root(1) facts(1,2) show thesis by blast
qed

text \<open>A record as \<open>Upload\<close> makes it: a safe file name in the directory of its type.\<close>

definition uploaded :: "config \<Rightarrow> string \<Rightarrow> storage_info \<Rightarrow> bool" where
  "uploaded c f info \<longleftrightarrow> plain_name f \<and> f \<noteq> ''.'' \<and> f \<noteq> ''..'' \<and> si_type info \<in> {''low'', ''deep''} \<and>
     si_path info = JoinPath (storage_dir c (si_type info)) f \<and> si_url info = download_prefix c @ f"

lemma uploaded_acceptable:
  assumes "uploaded c f info" "storage_dir c (si_type info) \<noteq> []"
  shows "acceptable c info \<longleftrightarrow> restorable_dir (storage_dir c (si_type info))"
proof -
  let ?d = "storage_dir c (si_type info)"
  have f: "plain_name f" "f \<noteq> ''.''" "f \<noteq> ''..''" using assms(1) by (simp_all add: uploaded_def)
  have "f \<noteq> []" using f(1) by (simp add: plain_name_def)
  then show ?thesis
    using assms(1) normal_join_parent [OF assms(2) f] normal_join_filename [OF assms(2) f]
      path_join_facts(5) [OF assms(2) f(1)]
    by (auto simp: acceptable_def uploaded_def JoinPath_def)
qed

lemma persisted_body:
  assumes "result (Persist E file tbl) s" and "t = final (Persist E file tbl) s"
  obtains body i where "table_body E tbl = Some body" "lookup t file = Some (File i)" "bytes (inodes t i) = body"
proof -
  have run: "run_state (Persist E file tbl) s = (True, t)"
    using assms by (metis (full_types) run_result_final)
  from run that show thesis
    by (cases rule: Persist_run) (simp_all add: table_body_def)
qed

subsection \<open>Success when no call fails\<close>

lemma rename_tape: "tape s = [] \<Longrightarrow> tape (final (rename_file a b) s) = []"
  by (auto simp: rename_file_def syscall_def run_next final_def fail_def split: option.split node.split)

lemma SyncDirectory_tape: "tape s = [] \<Longrightarrow> tape (final (SyncDirectory d) s) = []"
  by (auto simp: SyncDirectory_def open_directory_def fsync_def close_def syscall_def run_next final_def
      fail_def new_fd_def split: option.split node.split)

lemma Persist_done:
  assumes "tape s = []" "table_body E tbl = Some body" "temp_ready s (ParentPath file) ''.storage-''"
    and "lookup s file \<noteq> Some Dir" "parent_exists s file"
  shows "result (Persist E file tbl) s \<and> tape (final (Persist E file tbl) s) = []"
proof -
  let ?parent = "ParentPath file"
  have dir: "run_state (CreateDirectory ?parent) s = (True, s)"
    using assms(3) CreateDirectory_done [OF assms(1)] by (simp add: temp_ready_def)
  obtain p t where tmp: "run_state (CreateTempFile ?parent ''.storage-'') s = (Some p, t)" "tape t = []"
      "node t = (node s)(key s p \<mapsto> File (next_ino s))" "cwd t = cwd s" "lookup s p = None" "c_str p \<noteq> []"
    using CreateTempFile_done [OF assms(1,3)] by blast
  have kt: "key t q = key s q" for q using tmp(4) by (simp add: key_def)
  have np: "node s (key s p) = None" using tmp(5,6) by (simp add: lookup_def)
  have lp: "lookup t p = Some (File (next_ino s))" using tmp(3,6) kt by (simp add: lookup_def)
  then have "writable t p" by (simp add: writable_def)
  note set = SetContent_done [OF tmp(2) this, of body]
  obtain u where u: "run_state (SetContent p body) t = (True, u)" "tape u = []"
    using set by (metis run_result_final)
  have nu: "node u = node t" "lookup u p = Some (File (next_ino s))"
    using u(1) lp by (cases rule: SetContent_run; simp add: target_def)+
  have "frame (made t p) {target t p} t u"
    using u(1) by (cases rule: SetContent_run) simp_all
  then have ku: "key u q = key s q" for q using frame_key kt by metis
  have "key s p \<noteq> butlast (key s file)" using np assms(5) by (auto simp: parent_exists_def)
  then have "parent_exists u file" using assms(5) nu(1) tmp(3) ku by (simp add: parent_exists_def)
  moreover have "lookup u file \<noteq> Some Dir"
    using assms(4) nu(1) tmp(3) ku by (auto simp: lookup_def split: if_splits)
  ultimately have "result (rename_file p file) u" using rename_done [OF u(2) nu(2)] by blast
  then obtain v where v: "run_state (rename_file p file) u = (True, v)" "tape v = []"
    using rename_tape [OF u(2)] by (metis run_result_final)
  obtain y w where "run_state (SyncDirectory ?parent) v = (y, w)" "tape w = []"
    using SyncDirectory_tape [OF v(2)] by (metis run_result_final)
  with dir tmp(1) u(1) v(1) assms(2) show ?thesis
    by (simp add: Persist_def result_def final_def table_body_def Let_def)
qed

subsection \<open>Properties\<close>

text \<open>C25. The metadata operations implement a map from URLs to records. \<open>Insert\<close> adds a record under its URL
  exactly when it reports success and only if there was none, \<open>Delete\<close> removes one exactly when it
  reports success, in every other case the map is unchanged, lookups read the map, and listing
  returns each record once.\<close>

theorem data_manager_implements_map:
  fixes s :: "'z data_state_scheme" and E :: "'j env"
  assumes "hm_ok (table s)"
  defines "m \<equiv> hm.view (table s)"
  shows "hm.view (table (final (Insert E info) s)) =
      (if result (Insert E info) s = OK then m(si_url info \<mapsto> info) else m) \<and>
    (result (Insert E info) s = OK \<longrightarrow> m (si_url info) = None) \<and>
    hm.view (table (final (Delete_info E url) s)) =
      (if result (Delete_info E url) s = OK then m(url := None) else m) \<and>
    (result (Delete_info E url) s = NOT_FOUND \<longleftrightarrow> m url = None) \<and>
    hm_ok (table (final (Insert E info) s)) \<and> hm_ok (table (final (Delete_info E url) s)) \<and>
    result (GetOneByURL url) s = m url \<and>
    (order_ok E \<longrightarrow> mset (result (GetAll E) s) = mset (map snd (table s)))"
proof -
  obtain r t where ins: "run_state (Insert E info) s = (r, t)" by (rule prod.exhaust)
  have I: "hm.view (table t) = (if r = OK then m(si_url info \<mapsto> info) else m) \<and>
      (r = OK \<longrightarrow> m (si_url info) = None) \<and> hm_ok (table t)"
    using ins
  proof (cases rule: Insert_run)
    case absent
    then show ?thesis
      using commit_table_table [OF absent(2)] assign_new [OF absent(1)] hm.view_put [OF assms(1)] hm.inv_put [OF assms(1)]
      by (auto simp: m_def assms(1) hm.view_def)
  qed (use assms(1) in \<open>simp add: m_def\<close>)
  obtain r' t' where del: "run_state (Delete_info E url) s = (r', t')" by (rule prod.exhaust)
  have D: "hm.view (table t') = (if r' = OK then m(url := None) else m) \<and>
      (r' = NOT_FOUND \<longleftrightarrow> m url = None) \<and> hm_ok (table t')"
    using del
  proof (cases rule: Delete_run)
    case present
    then show ?thesis
      using commit_table_table [OF present(2)] hm.view_del [OF assms(1)] hm.inv_del [OF assms(1)]
      by (auto simp: m_def assms(1) hm.view_def)
  qed (use assms(1) in \<open>simp add: m_def hm.view_def\<close>)
  have "mset (result (GetAll E) s) = mset (map snd (table s))" if "order_ok E"
    using that by (simp add: GetAll_def result_def order_ok_def)
  with I D show ?thesis
    by (simp add: result_def final_def ins del GetOneByURL_def m_def hm.view_def)
qed

text \<open>C26. The metadata file never lags behind the memory. If it holds a snapshot of the table, it does so again
  after every \<open>Insert\<close> and \<open>Delete\<close>, whether they succeed or fail and wherever a system call failed.\<close>

theorem metadata_stays_synced:
  assumes "synced E s" and "fs_wf s"
  shows "synced E (final (Insert E info) s) \<and> synced E (final (Delete_info E url) s)"
proof -
  obtain r t where ins: "run_state (Insert E info) s = (r, t)" by (rule prod.exhaust)
  obtain r' t' where del: "run_state (Delete_info E url) s = (r', t')" by (rule prod.exhaust)
  have "synced E t"
    using ins by (cases rule: Insert_run) (use assms commit_table_synced(1) in blast)+
  moreover have "synced E t'"
    using del by (cases rule: Delete_run) (use assms commit_table_synced(1) in blast)+
  ultimately show ?thesis by (simp add: final_def ins del)
qed

subsection \<open>Starting\<close>

lemma ParseStorageInfo_acceptable: "ParseStorageInfo E v = Some info \<Longrightarrow> acceptable (conf E) info"
  by (auto simp: ParseStorageInfo_def Let_def acceptable_def split: if_splits)

definition loaded_ok :: "config \<Rightarrow> table \<Rightarrow> bool" where
  "loaded_ok c tbl \<longleftrightarrow> hm_ok tbl \<and> keyed tbl \<and> list_all (\<lambda>e. acceptable c (snd e)) tbl"

lemma load_entries_ok: "load_entries E vs acc = Some tbl \<Longrightarrow> loaded_ok (conf E) acc \<Longrightarrow> loaded_ok (conf E) tbl"
proof (induction vs arbitrary: acc)
  case (Cons v vs)
  then obtain info where p: "ParseStorageInfo E v = Some info" "hm_find acc (si_url info) = None"
    "load_entries E vs (acc @ [(si_url info, info)]) = Some tbl"
    by (auto split: option.splits if_splits)
  have "loaded_ok (conf E) (acc @ [(si_url info, info)])"
    using Cons.prems(2) p(2) ParseStorageInfo_acceptable [OF p(1)]
    by (auto simp: loaded_ok_def hm_ok_def keyed_def hm_find_def map_of_eq_None_iff)
  with Cons.IH [OF p(3)] show ?case .
qed simp

lemma loads_ok: "loads E body = Some tbl \<Longrightarrow> loaded_ok (conf E) tbl"
  using load_entries_ok [of E _ "[]" tbl]
  by (auto simp: loads_def loaded_ok_def hm_ok_def keyed_def split: sum.splits if_splits)

text \<open>What a file says is loaded, if the loader accepts every record.\<close>

lemma says_loads:
  assumes "json_laws (json E)" "order_ok E" "hm_ok tbl" "keyed tbl" "list_all (\<lambda>e. representable (snd e)) tbl" "says E body tbl"
  shows "if list_all (\<lambda>e. acceptable (conf E) (snd e)) tbl
    then \<exists>tbl'. loads E body = Some tbl' \<and> hm_find tbl' = hm_find tbl \<and> set tbl' = set tbl
    else loads E body = None"
proof (cases "loads E body = Some tbl")
  case True
  then show ?thesis using loads_ok [OF True] by (simp add: loaded_ok_def)
next
  case False
  then have "table_body E tbl = Some body" using assms(6) by (simp add: says_def)
  from parse_persisted [OF assms(1-5) this] obtain root where "UnSerialize (json E) body = Inr root"
    "js_isArray (json E) root" "\<not> js_isNull (json E) root"
    "load_entries E (map (js_index (json E) root) [0..<js_size (json E) root]) [] =
       (if list_all (\<lambda>e. acceptable (conf E) (snd e)) tbl then Some (hash_order E tbl) else None)" by blast
  then show ?thesis using order_facts [OF assms(2), of tbl] assms(3) by (simp add: loads_def)
qed

lemma Exists_table: "result (Exists f) (s\<lparr>storage_file := x, table := y\<rparr>) = result (Exists f) (s :: 'z data_state_scheme)"
  by (simp add: result_def Exists_def fs_exists_def fs_status_def syscall_def next_outcome_def stat_node_def lookup_def key_def
      fail_def split: list.split outcome.split option.split node.split)

text \<open>
  A start that succeeds: the metadata name is not that of a directory, the check that the file exists tells the truth, and the
  constructor does not throw.
\<close>

definition starts :: "'j env \<Rightarrow> 'z data_state_scheme \<Rightarrow> 'z data_state_scheme \<Rightarrow> bool" where
  "starts E s t \<longleftrightarrow> fs_wf s \<and> lookup s (storage_info_file (conf E)) \<noteq> Some Dir \<and>
     (fst (result (Exists (storage_info_file (conf E))) s) \<longleftrightarrow> lookup s (storage_info_file (conf E)) \<noteq> None) \<and>
     run_state (DataManager E) s = (None, t)"

lemma starts_facts:
  assumes "starts E s t"
  shows "fs_wf t" "storage_file t = storage_info_file (conf E)" "loaded_ok (conf E) (table t)"
    "node t = node s" "inodes t = inodes s" "cwd t = cwd s"
    "if lookup s (storage_info_file (conf E)) = None then table t = [] else agrees E t"
proof -
  let ?f = "storage_info_file (conf E)"
  let ?u = "s\<lparr>storage_file := ?f, table := []\<rparr>"
  obtain r v where init: "run_state (InitLoad E) ?u = (r, v)" by (rule prod.exhaust)
  have r: "r" "t = v" using assms init by (auto simp: starts_def DataManager_def split: if_splits)
  have same: "lookup ?u p = lookup s p" "fs_wf ?u = fs_wf s" for p by (simp_all add: lookup_def key_def fs_wf_def)
  have wf: "fs_wf ?u" using assms by (simp add: starts_def fs_wf_def)
  have facts: "fs_wf t \<and> storage_file t = ?f \<and> node t = node s \<and> inodes t = inodes s \<and> cwd t = cwd s"
    if "tidy ?u w" "t = w \<or> t = w\<lparr>table := tbl\<rparr>" for w tbl
  proof -
    have "silent ?u w" "fs_wf w" using that(1) wf by (simp_all add: tidy_def balanced_def)
    then have "storage_file w = ?f" "node w = node s" "inodes w = inodes s" "cwd w = cwd s"
      using data_more [of w ?u] by (simp_all add: silent_def)
    with \<open>fs_wf w\<close> that(2) show ?thesis by auto
  qed
  have "(fs_wf t \<and> storage_file t = ?f \<and> node t = node s \<and> inodes t = inodes s \<and> cwd t = cwd s) \<and>
      loaded_ok (conf E) (table t) \<and> (if lookup s ?f = None then table t = [] else agrees E t)"
    using init
  proof (cases rule: InitLoad_run)
    case failed
    then show ?thesis using r by simp
  next
    case absent
    have "\<not> fst (result (Exists ?f) s)" using absent(3) Exists_table [where f = ?f and s = s and x = ?f and y = "[]"] by simp
    then have "lookup s ?f = None" using assms by (simp add: starts_def)
    moreover have "table t = []" using absent(2) r data_more [of t ?u] by (simp add: quiet_def silent_def)
    ultimately show ?thesis using facts [OF quiet_tidy [OF absent(2)]] r by (simp add: loaded_ok_def hm_ok_def keyed_def)
  next
    case (loaded w body tbl)
    have t: "t = w \<or> t = w\<lparr>table := tbl\<rparr>" using loaded(7) r by auto
    note f = facts [OF loaded(6) t]
    have "table w = []" using loaded(6) data_more [of w ?u] by (simp add: tidy_def silent_def)
    then have tbl: "table t = tbl" using loaded(7) r by auto
    have "lookup s ?f \<noteq> None" using loaded(3) same(1) [of ?f] by simp
    moreover from this obtain i where i: "lookup s ?f = Some (File i)"
      using assms by (cases "lookup s ?f") (auto simp: starts_def intro: node.exhaust)
    have "body = bytes (inodes s i)" using loaded(4) [of i] i same(1) [of ?f] by simp
    moreover have "lookup t ?f = lookup s ?f" by (simp add: lookup_def key_def f)
    ultimately show ?thesis using f i tbl loaded(5) loads_ok [OF loaded(5)] by (auto simp: agrees_def says_def)
  qed
  then show "fs_wf t" "storage_file t = ?f" "loaded_ok (conf E) (table t)" "node t = node s" "inodes t = inodes s" "cwd t = cwd s"
    "if lookup s ?f = None then table t = [] else agrees E t" by blast+
qed

text \<open>A start when no call fails.\<close>

lemma DataManager_done:
  assumes "tape s = []" "lookup s (storage_info_file (conf E)) = Some (File i)" "length (bytes (inodes s i)) < 2 ^ 64"
  shows "case loads E (bytes (inodes s i)) of
      None \<Rightarrow> result (DataManager E) s = Some ''cannot load storage metadata''
    | Some tbl \<Rightarrow> result (DataManager E) s = None \<and> table (final (DataManager E) s) = tbl"
proof -
  let ?f = "storage_info_file (conf E)" and ?body = "bytes (inodes s i)"
  let ?u = "s\<lparr>storage_file := ?f, table := []\<rparr>"
  have u: "tape ?u = []" "lookup ?u ?f = Some (File i)" "length (bytes (inodes ?u i)) < 2 ^ 64"
    using assms by (simp_all add: lookup_def key_def split: if_splits)
  obtain v where get: "run_state (GetContent ?f) ?u = (Some ?body, v)"
    using GetContent_reopens [OF u] by simp
  have "table v = []"
    using data_more [of v ?u] GetContent_run(1) [OF get] by (simp add: tidy_def silent_def)
  then show ?thesis
    using u get
    by (auto simp: DataManager_def InitLoad_def loads_def result_def final_def Exists_done split: sum.split option.split)
qed

lemma DataManager_absent:
  assumes "tape s = []" "lookup s (storage_info_file (conf E)) = None"
  shows "result (DataManager E) s = None \<and> table (final (DataManager E) s) = []"
proof -
  have "lookup (s\<lparr>storage_file := f, table := []\<rparr>) p = lookup s p" for f p by (simp add: lookup_def key_def)
  then show ?thesis using assms by (simp add: DataManager_def InitLoad_def result_def final_def Exists_done)
qed

subsection \<open>Examples\<close>

definition ref_env :: "config \<Rightarrow> json env" where
  "ref_env c = \<lparr>json = ref_json, conf = c, compressor = stored_lib, hash_order = rev\<rparr>"

definition data_boot :: "string \<Rightarrow> table \<Rightarrow> outcome list \<Rightarrow> data_state" where
  "data_boot file tbl outcomes = os.extend (boot [] outcomes [''aaaaaa'', ''bbbbbb'', ''cccccc'']) (data_state.fields file tbl)"

definition sample :: "string \<Rightarrow> storage_info" where
  "sample d = \<lparr>si_mtime = 7, si_atime = 8, si_fsize = 9, si_path = path_join d ''a'',
     si_url = ''/download/a'', si_type = ''low''\<rparr>"

lemma sample_uploaded: "uploaded (shipped\<lparr>low_storage_dir := d\<rparr>) ''a'' (sample d)"
  by (simp add: uploaded_def plain_name_def sample_def storage_dir_def JoinPath_def shipped_def)

subsection \<open>Witnesses\<close>

definition sample_table :: "string \<Rightarrow> table" where
  "sample_table d = [(''/download/a'', sample d)]"

lemma sample_writes:
  assumes "NUL \<notin> set d"
  shows "table_body (ref_env c) (sample_table d) \<noteq> None"
proof -
  have "NUL \<notin> set (path_join d ''a'')" using assms by (simp add: path_join_def)
  then show ?thesis
    by (simp add: table_body_def sample_table_def ref_env_def Serialize_def table_json_def info_json_def Let_def
        ref_json_def members_def elements_def write_json_def sample_def)
qed

lemma data_boot_fields:
  "cwd (data_boot f tbl ts) = []" "tape (data_boot f tbl ts) = ts" "storage_file (data_boot f tbl ts) = f"
  "table (data_boot f tbl ts) = tbl" "suffixes (data_boot f tbl ts) = [''aaaaaa'', ''bbbbbb'', ''cccccc'']"
  "node (data_boot f tbl ts) k = (if k = [] then Some Dir else None)"
  by (simp_all add: data_boot_def boot_def os.defs data_state.defs)

lemma data_boot_key: "key (data_boot f tbl ts) p = walk (path_names (c_str p)) []"
  by (simp add: key_def data_boot_fields)

lemma data_boot_paths:
  "walk (path_names ''meta'') [] = [''meta'']" "c_str ''meta'' = ''meta''"
  "walk (path_names ''.'') [] = []" "c_str ''.'' = ''.''" "ParentPath ''meta'' = ''.''"
  "temp_base ''.'' ''.storage-'' = ''./.storage-''"
  "walk (path_names ''./.storage-aaaaaa'') [] = [''.storage-aaaaaa'']"
  "c_str ''./.storage-aaaaaa'' = ''./.storage-aaaaaa''"
  "JoinPath ''.'' ''.storage-XXXXXX'' = ''./.storage-XXXXXX''"
  "walk (path_names ''./storage.data'') [] = [''storage.data'']" "c_str ''./storage.data'' = ''./storage.data''"
  "ParentPath ''./storage.data'' = ''.''"
  by code_simp+

lemma boot_ready:
  assumes "file = ''meta'' \<or> file = ''./storage.data''"
  shows "temp_ready (data_boot file tbl []) (ParentPath file) ''.storage-''"
    "parent_exists (data_boot file tbl []) file" "lookup (data_boot file tbl []) file \<noteq> Some Dir"
  using assms
  by (auto simp: temp_ready_def lookup_def parent_exists_def data_boot_fields data_boot_key data_boot_paths)

lemma sample_persists:
  assumes "NUL \<notin> set d" "file = ''meta'' \<or> file = ''./storage.data''"
  shows "result (Persist (ref_env c) file (sample_table d)) (data_boot file tbl []) \<and>
     tape (final (Persist (ref_env c) file (sample_table d)) (data_boot file tbl [])) = []"
  using sample_writes [OF assms(1), of c]
    Persist_done [OF _ _ boot_ready(1,3,2) [OF assms(2)], where E = "ref_env c" and tbl = "sample_table d"]
  by (auto simp: data_boot_fields)

fun token_bound :: "token \<Rightarrow> nat" where
  "token_bound (TString s) = 1 + 3 * length s"
| "token_bound (TMember s) = 1 + 3 * length s"
| "token_bound (TInt i) = 2 + nat \<bar>i\<bar>"
| "token_bound _ = 1"

lemma length_to_dec: "length (to_dec n) \<le> n + 1"
proof (induction n rule: to_dec.induct)
  case (1 n)
  then show ?case by (cases "n < 10") (simp_all add: to_dec.simps [of n])
qed

lemma length_token: "length (token_text t) \<le> token_bound t"
proof (cases t)
  case (TInt i)
  then show ?thesis
    using length_to_dec [of "nat i"] length_to_dec [of "nat (- i)"] by (auto simp: int_text_def)
qed (use length_UrlEncode in \<open>auto\<close>)

lemma length_join_tokens:
  "length (join_names (map token_text ts)) \<le> sum_list (map (\<lambda>t. Suc (token_bound t)) ts)"
proof (induction ts)
  case (Cons t ts)
  then show ?case using length_token [of t] by (cases ts) auto
qed simp

lemma sample_body_length:
  "length (the (table_body (ref_env c) (sample_table d))) < 2 ^ 64" if "d \<in> {''files'', ''./low_storage/''}"
proof -
  let ?j = "table_json ref_json (sample_table d)"
  have "table_body (ref_env c) (sample_table d) = Some (join_names (map token_text (flatten ?j)))"
    using sample_writes [of d c] that
    by (auto simp: table_body_def sample_table_def ref_env_def Serialize_def write_json_def ref_json_def split: if_splits)
  moreover have "sum_list (map (\<lambda>t. Suc (token_bound t)) (flatten ?j)) < 1000"
    using that
    by (auto simp: sample_table_def table_json_def info_json_def ref_json_def members_def elements_def sample_def
        path_join_def path_filename_def is_absolute_def)
  ultimately show ?thesis using length_join_tokens [of "flatten ?j"] by simp
qed

definition sample_state :: data_state where
  "sample_state = data_boot ''meta'' [] []"

lemma data_manager_implements_map_witness:
  "result (GetOneByURL ''/download/a'') sample_state = None \<and>
   hm_ok (table (final (Insert (ref_env shipped) (sample ''files'')) sample_state))"
proof -
  have "hm_ok (table sample_state)" by (simp add: sample_state_def data_boot_fields hm_ok_def)
  from data_manager_implements_map [OF this, of "ref_env shipped" "sample ''files''" "''/download/a''"]
  show ?thesis by (simp add: hm.view_def hm_find_def sample_state_def data_boot_fields)
qed

lemma sample_inserted:
  "result (Insert (ref_env c) (sample ''files'')) sample_state = OK"
  "synced (ref_env c) (final (Insert (ref_env c) (sample ''files'')) sample_state)"
  "fs_wf (final (Insert (ref_env c) (sample ''files'')) sample_state)"
proof -
  have nul: "NUL \<notin> set ''files''" by simp
  have new: "table sample_state @ [(si_url (sample ''files''), sample ''files'')] = sample_table ''files''"
    by (simp add: sample_state_def data_boot_fields sample_table_def sample_def)
  have tbl: "table sample_state = []" by (simp add: sample_state_def data_boot_fields)
  obtain r t where run: "run_state (Insert (ref_env c) (sample ''files'')) sample_state = (r, t)"
    by (rule prod.exhaust)
  then have "run_state (commit_table (ref_env c) (sample_table ''files'')) sample_state = (r, t)"
    using new tbl by (cases rule: Insert_run) (simp_all add: hm_find_def)
  moreover have "r \<noteq> PERSIST_FAILED"
    using \<open>run_state (commit_table _ _) _ = _\<close> sample_persists [OF nul, of "''meta''" c "[]"]
    by (auto simp: commit_table_def result_def sample_state_def data_boot_fields split: prod.splits)
  ultimately have "r = OK \<and> synced (ref_env c) t \<and> fs_wf t"
  proof (cases rule: commit_table_run)
    case (committed u)
    have "fs_wf sample_state" by (auto simp: sample_state_def data_boot_def boot_def fs_wf_def os.defs data_state.defs split: if_splits)
    with committed show ?thesis by (simp add: balanced_def)
  qed simp
  then show "result (Insert (ref_env c) (sample ''files'')) sample_state = OK"
    "synced (ref_env c) (final (Insert (ref_env c) (sample ''files'')) sample_state)"
    "fs_wf (final (Insert (ref_env c) (sample ''files'')) sample_state)"
    by (simp_all add: result_def final_def run)
qed

lemma metadata_stays_synced_witness:
  "synced (ref_env shipped) (final (Delete_info (ref_env shipped) ''/download/a'')
     (final (Insert (ref_env shipped) (sample ''files'')) sample_state))"
  using metadata_stays_synced [OF sample_inserted(2,3), of shipped "sample ''files''" "''/download/a''"] by blast

definition sample_config :: config where
  "sample_config = shipped\<lparr>low_storage_dir := ''files''\<rparr>"

lemma ref_env_ok: "json_laws (json (ref_env c))" "order_ok (ref_env c)"
  using ref_json_laws by (simp_all add: ref_env_def order_ok_def)

lemma sample_restorable: "restorable_dir ''files''" "\<not> restorable_dir ''./low_storage/''"
  by code_simp+

subsection \<open>The shipped configuration\<close>

text \<open>C34. With the configuration file of the repository the server does not start again once it has stored a
  file: the storage directories it names end with a slash, so their normalised paths never equal the
  parent of a stored path, the loader refuses every record the server itself has written, and the
  constructor throws.\<close>

theorem shipped_config_cannot_restart:
  assumes "json_laws (json E)" "order_ok E" "conf E = shipped" "hm_ok tbl" "keyed tbl" "tbl \<noteq> []"
    and "list_all (\<lambda>e. representable (snd e) \<and> (\<exists>f. uploaded shipped f (snd e))) tbl"
    and "result (Persist E (storage_info_file shipped) tbl) s"
    and "tape (final (Persist E (storage_info_file shipped) tbl) s) = []"
    and "length (the (table_body E tbl)) < 2 ^ 64"
  shows "result (DataManager E) (final (Persist E (storage_info_file shipped) tbl) s) =
    Some ''cannot load storage metadata''"
proof -
  define t where "t = final (Persist E (storage_info_file shipped) tbl) s"
  define u where "u = t\<lparr>storage_file := storage_info_file shipped, table := []\<rparr>"
  obtain body i where b: "table_body E tbl = Some body" "lookup t (storage_info_file shipped) = Some (File i)"
      "bytes (inodes t i) = body"
    using persisted_body [OF assms(8) t_def] by blast
  have rep: "list_all (\<lambda>e. representable (snd e)) tbl" using assms(7) by (simp add: list_all_iff)
  obtain root where root: "UnSerialize (json E) body = Inr root" "js_isArray (json E) root" "\<not> js_isNull (json E) root"
    "load_entries E (map (js_index (json E) root) [0..<js_size (json E) root]) [] =
       (if list_all (\<lambda>e. acceptable (conf E) (snd e)) tbl then Some (hash_order E tbl) else None)"
    using parse_persisted [OF assms(1,2,4,5) rep b(1)] by blast
  have dirs: "storage_dir shipped type \<in> {''./low_storage/'', ''./deep_storage/''}" for type
    by (simp add: storage_dir_def shipped_def)
  have "\<not> restorable_dir ''./deep_storage/''" by code_simp
  then have "\<not> acceptable (conf E) (snd e)" if "e \<in> set tbl" for e
    using that assms(3,7) uploaded_acceptable dirs [of "si_type (snd e)"] sample_restorable(2)
    by (fastforce simp: list_all_iff)
  moreover obtain e where "e \<in> set tbl" using assms(6) by (meson list.set_sel(1))
  ultimately have "\<not> list_all (\<lambda>e. acceptable (conf E) (snd e)) tbl" unfolding list_all_iff by blast
  then have none: "load_entries E (map (js_index (json E) root) [0..<js_size (json E) root]) [] = None"
    using root(4) by simp
  have lk: "lookup u q = lookup t q" for q by (simp add: u_def lookup_def key_def)
  have u: "tape u = []" "lookup u (storage_file u) = Some (File i)" "bytes (inodes u i) = body" "length body < 2 ^ 64"
    using assms(9,10) b lk by (simp_all add: u_def t_def)
  from InitLoad_done [OF u root(1-3) none] have "\<not> result (InitLoad E) u" by simp
  then obtain v where "run_state (InitLoad E) u = (False, v)" by (metis (full_types) run_result_final)
  then show ?thesis
    unfolding t_def [symmetric] by (simp add: DataManager_def result_def assms(3) u_def)
qed

lemma shipped_config_cannot_restart_witness:
  "result (DataManager (ref_env shipped)) (final (Persist (ref_env shipped) ''./storage.data''
     (sample_table ''./low_storage/'')) (data_boot ''./storage.data'' [] [])) =
   Some ''cannot load storage metadata''"
proof -
  let ?E = "ref_env shipped" and ?t = "sample_table ''./low_storage/''"
  let ?s = "data_boot ''./storage.data'' [] []"
  have fname: "storage_info_file shipped = ''./storage.data''" by (simp add: shipped_def)
  have conf: "conf ?E = shipped" by (simp add: ref_env_def)
  have persisted: "result (Persist ?E (storage_info_file shipped) ?t) ?s"
    "tape (final (Persist ?E (storage_info_file shipped) ?t) ?s) = []"
    using sample_persists [of "''./low_storage/''" "''./storage.data''" shipped "[]"] by (simp_all add: fname)
  have up: "uploaded shipped ''a'' (sample ''./low_storage/'')"
    by (simp add: uploaded_def plain_name_def sample_def storage_dir_def JoinPath_def shipped_def)
  have tbl: "hm_ok ?t" "keyed ?t" "?t \<noteq> []"
    by (simp_all add: sample_table_def hm_ok_def keyed_def sample_def)
  have "list_all (\<lambda>e. representable (snd e) \<and> (\<exists>f. uploaded shipped f (snd e))) ?t"
    using up by (auto simp: sample_table_def representable_def sample_def)
  from shipped_config_cannot_restart [OF ref_env_ok conf tbl this persisted sample_body_length]
  show ?thesis by (simp add: fname)
qed

end
