(* ===== verification/Session.thy ===== *)
theory Session
  imports Data_Manager
begin

text \<open>
  \<^verbatim>\<open>src/src/server/Service.cpp\<close>: \<^verbatim>\<open>SessionStore\<close> and \<^verbatim>\<open>LoginRateLimiter\<close>, the two singletons that decide who may use the
  server. Time is in nanoseconds since the epoch, as \<^verbatim>\<open>std::chrono::system_clock\<close> counts it, and is a field
  of the state that only the environment changes. \<^verbatim>\<open>RAND_bytes\<close> of OpenSSL is the list \<open>random\<close> of its
  next results: 32 bytes, or a failure.
\<close>

record session_record =
  csrf_token :: string
  expires_at :: int

record attempt =
  window_started :: int
  blocked_until :: int
  failures :: int

record server_state = data_state +
  sessions :: "(string, session_record) hash_map"
  attempts :: "(string, attempt) hash_map"
  random :: "string option list"
  now :: int

type_synonym ('z, 'a) srv = "('z server_state_scheme, 'a) state"

definition seconds :: "int \<Rightarrow> int" where
  "seconds n = n * 1000000000"

definition one_minute :: int where
  "one_minute = seconds 60"

subsection \<open>Tokens\<close>

definition hex_lower :: string where
  "hex_lower = ''0123456789abcdef''"

text \<open>The loop that \<open>RandomToken\<close>, \<open>DerivePasswordHash\<close> and \<open>Sha256Hex\<close> share.\<close>

fun to_hex :: "string \<Rightarrow> string" where
  "to_hex [] = []"
| "to_hex (b # bs) = hex_lower ! drop_bit 4 (ord b) # hex_lower ! (ord b AND 15) # to_hex bs"

definition RandomToken :: "('z, string option) srv" where
  "RandomToken = State (\<lambda>s. case random s of
     [] \<Rightarrow> (None, s)
   | r # rs \<Rightarrow> (map_option to_hex r, s\<lparr>random := rs\<rparr>))"

subsection \<open>SessionStore\<close>

definition RemoveExpiredLocked :: "('z, unit) srv" where
  "RemoveExpiredLocked = modify (\<lambda>s. s\<lparr>sessions := filter (\<lambda>e. \<not> expires_at (snd e) \<le> now s) (sessions s)\<rparr>)"

text \<open>The result of \<open>Create\<close> is the session token and the CSRF token.\<close>

definition Create :: "int \<Rightarrow> ('z, (string \<times> string) option) srv" where
  "Create ttl_seconds = do {
     session \<leftarrow> RandomToken;
     case session of
       None \<Rightarrow> give None
     | Some session \<Rightarrow> do {
         csrf \<leftarrow> RandomToken;
         case csrf of
           None \<Rightarrow> give None
         | Some csrf \<Rightarrow> do {
             RemoveExpiredLocked;
             modify (\<lambda>s. s\<lparr>sessions := hm_assign session
               \<lparr>csrf_token = csrf, expires_at = now s + seconds ttl_seconds\<rparr> (sessions s)\<rparr>);
             give (Some (session, csrf)) } } }"

definition Validate :: "string \<Rightarrow> ('z, session_record option) srv" where
  "Validate token = do {
     s \<leftarrow> State_Monad.get;
     case hm_find (sessions s) token of
       None \<Rightarrow> give None
     | Some r \<Rightarrow>
         if expires_at r \<le> now s then do {
           modify (\<lambda>s. s\<lparr>sessions := hm_erase token (sessions s)\<rparr>);
           give None }
         else give (Some r) }"

definition Remove_session :: "string \<Rightarrow> ('z, unit) srv" where
  "Remove_session token = modify (\<lambda>s. s\<lparr>sessions := hm_erase token (sessions s)\<rparr>)"

subsection \<open>LoginRateLimiter\<close>

definition Allow :: "string \<Rightarrow> ('z, bool) srv" where
  "Allow address = do {
     s \<leftarrow> State_Monad.get;
     case hm_find (attempts s) address of
       None \<Rightarrow> give True
     | Some a \<Rightarrow>
         if now s < blocked_until a then give False
         else if one_minute < now s - window_started a then do {
           modify (\<lambda>s. s\<lparr>attempts := hm_erase address (attempts s)\<rparr>);
           give True }
         else give True }"

definition new_attempt :: attempt where
  "new_attempt = \<lparr>window_started = 0, blocked_until = 0, failures = 0\<rparr>"

definition fail_attempt :: "int \<Rightarrow> attempt \<Rightarrow> attempt" where
  "fail_attempt t a =
     (let a = (if window_started a = 0 \<or> one_minute < t - window_started a
               then a\<lparr>window_started := t, failures := 0\<rparr> else a);
          a = a\<lparr>failures := failures a + 1\<rparr>
      in if 5 \<le> failures a then a\<lparr>blocked_until := t + one_minute\<rparr> else a)"

text \<open>\<open>attempts_[address]\<close> makes a default entry when there is none.\<close>

definition Failure :: "string \<Rightarrow> ('z, unit) srv" where
  "Failure address = modify (\<lambda>s. s\<lparr>attempts := hm_assign address
     (fail_attempt (now s) (case hm_find (attempts s) address of Some a \<Rightarrow> a | None \<Rightarrow> new_attempt))
     (attempts s)\<rparr>)"

definition Success :: "string \<Rightarrow> ('z, unit) srv" where
  "Success address = modify (\<lambda>s. s\<lparr>attempts := hm_erase address (attempts s)\<rparr>)"

subsection \<open>Tokens are hexadecimal\<close>

lemma hex_lower_digit: "n < 16 \<Longrightarrow> is_hex_lower (hex_lower ! n)"
proof -
  have "\<forall>n \<in> set [0..<16]. is_hex_lower (hex_lower ! n)" by code_simp
  then show "n < 16 \<Longrightarrow> ?thesis" by simp
qed

lemma to_hex_digits: "list_all is_hex_lower (to_hex bs)"
  by (induction bs) (simp_all add: byte_simps hex_lower_digit less_mult_imp_div_less)

lemma length_to_hex: "length (to_hex bs) = 2 * length bs"
  by (induction bs) auto

lemma hex_lower_inj: "m < 16 \<Longrightarrow> n < 16 \<Longrightarrow> hex_lower ! m = hex_lower ! n \<longleftrightarrow> m = n"
proof -
  have "distinct hex_lower" by code_simp
  moreover have "length hex_lower = 16" by code_simp
  ultimately show "m < 16 \<Longrightarrow> n < 16 \<Longrightarrow> ?thesis" using nth_eq_iff_index_eq by metis
qed

lemma to_hex_inj: "to_hex a = to_hex b \<longleftrightarrow> a = b"
proof (induction a arbitrary: b)
  case Nil
  then show ?case by (cases b) auto
next
  case (Cons x a)
  show ?case
  proof (cases b)
    case (Cons y b')
    have "ord x div 16 < 16" "ord y div 16 < 16" by (simp_all add: less_mult_imp_div_less)
    then have "hex_lower ! (ord x div 16) = hex_lower ! (ord y div 16) \<and>
        hex_lower ! (ord x mod 16) = hex_lower ! (ord y mod 16) \<longleftrightarrow> x = y"
      using hex_lower_inj by (metis mod_less_divisor nibbles ord_eq_iff zero_less_numeral)
    then show ?thesis using Cons.IH [of b'] Cons by (auto simp: byte_simps)
  qed simp
qed

subsection \<open>The sessions in force\<close>

text \<open>What the store means: the records of sessions that have not expired. Expired entries that are still in the
  table, and the sweep that removes them, are invisible.\<close>

definition live :: "'z server_state_scheme \<Rightarrow> string \<Rightarrow> session_record option" where
  "live s token = (case hm_find (sessions s) token of
     Some r \<Rightarrow> if now s < expires_at r then Some r else None
   | None \<Rightarrow> None)"

definition sessions_ok :: "'z server_state_scheme \<Rightarrow> bool" where
  "sessions_ok s \<longleftrightarrow> hm_ok (sessions s) \<and> hm_ok (attempts s)"

lemma map_of_filter_value:
  "distinct (map fst m) \<Longrightarrow>
     map_of (filter (\<lambda>e. P (snd e)) m) k = (case map_of m k of Some v \<Rightarrow> if P v then Some v else None | None \<Rightarrow> None)"
proof (induction m)
  case (Cons e m)
  have "map_of m (fst e) = None" using Cons.prems by (simp add: map_of_eq_None_iff)
  with Cons show ?case by (cases "k = fst e") auto
qed simp

lemma sweep_live:
  assumes "sessions_ok s"
  shows "live (final RemoveExpiredLocked s) = live s" "sessions_ok (final RemoveExpiredLocked s)"
    "now (final RemoveExpiredLocked s) = now s"
proof -
  have "distinct (map fst (filter P m))" if "distinct (map fst m)" for P and m :: "(string, session_record) hash_map"
    using that by (rule distinct_map_filter)
  then show "sessions_ok (final RemoveExpiredLocked s)"
    using assms by (simp add: RemoveExpiredLocked_def final_def sessions_ok_def hm_ok_def)
  show "live (final RemoveExpiredLocked s) = live s"
    using assms map_of_filter_value [of "sessions s" "\<lambda>r. now s < expires_at r"]
    by (auto simp: RemoveExpiredLocked_def final_def live_def hm_find_def sessions_ok_def hm_ok_def not_le
        fun_eq_iff split: option.splits)
  show "now (final RemoveExpiredLocked s) = now s" by (simp add: RemoveExpiredLocked_def final_def)
qed

lemma assign_live:
  assumes "sessions_ok s" "now s < expires_at r"
  shows "live (s\<lparr>sessions := hm_assign k r (sessions s)\<rparr>) = (live s)(k \<mapsto> r)"
    and "sessions_ok (s\<lparr>sessions := hm_assign k r (sessions s)\<rparr>)"
  using assms hm.find_put [of "sessions s" k r] hm.inv_put [of "sessions s" k r]
  by (auto simp: live_def sessions_ok_def fun_eq_iff split: option.split)

lemma erase_live:
  assumes "sessions_ok s"
  shows "live (s\<lparr>sessions := hm_erase k (sessions s)\<rparr>) = (live s)(k := None)"
    and "sessions_ok (s\<lparr>sessions := hm_erase k (sessions s)\<rparr>)"
  using assms hm.find_del [of "sessions s" k] hm.inv_del [of "sessions s" k]
  by (auto simp: live_def sessions_ok_def fun_eq_iff split: option.split)

lemma Validate_run:
  assumes "sessions_ok s"
  shows "result (Validate token) s = live s token" and "live (final (Validate token) s) = live s"
    and "sessions_ok (final (Validate token) s)"
proof -
  show "result (Validate token) s = live s token"
    by (auto simp: Validate_def result_def live_def split: option.splits)
  have "live s token = None" if "hm_find (sessions s) token = Some r" "expires_at r \<le> now s" for r
    using that by (simp add: live_def)
  then show "live (final (Validate token) s) = live s" "sessions_ok (final (Validate token) s)"
    using assms erase_live [OF assms, of token]
    by (auto simp: Validate_def final_def fun_upd_idem split: option.splits)
qed

lemma RandomToken_run:
  assumes "run_state RandomToken s = (r, t)"
  obtains rs where "t = s\<lparr>random := rs\<rparr>" "\<And>tok. r = Some tok \<Longrightarrow> \<exists>bs. random s = Some bs # rs \<and> tok = to_hex bs"
proof (cases "random s")
  case Nil
  then show thesis using assms that [of "random s"] by (simp add: RandomToken_def)
next
  case (Cons x xs)
  then show thesis using assms that [of xs] by (auto simp: RandomToken_def)
qed

lemma random_update [simp]:
  "live (s\<lparr>random := rs\<rparr>) = live s" "sessions_ok (s\<lparr>random := rs\<rparr>) = sessions_ok s"
  by (auto simp: live_def sessions_ok_def fun_eq_iff split: option.split)

lemma Create_run:
  assumes "run_state (Create ttl) s = (r, t)" "sessions_ok s" "0 < ttl"
  obtains (failed) rs where "r = None" "t = s\<lparr>random := rs\<rparr>"
  | (created) a b rs ss where "r = Some (to_hex a, to_hex b)" "random s = Some a # Some b # rs"
      "live t = (live s)(to_hex a \<mapsto> \<lparr>csrf_token = to_hex b, expires_at = now s + seconds ttl\<rparr>)"
      "sessions_ok t" "t = s\<lparr>random := rs, sessions := ss\<rparr>"
proof -
  obtain x u where x: "run_state RandomToken s = (x, u)" by (rule prod.exhaust)
  obtain ra where u: "u = s\<lparr>random := ra\<rparr>" "\<And>tok. x = Some tok \<Longrightarrow> \<exists>bs. random s = Some bs # ra \<and> tok = to_hex bs"
    using RandomToken_run [OF x] by blast
  show thesis
  proof (cases x)
    case None
    then show ?thesis using assms(1) x u(1) failed by (auto simp: Create_def)
  next
    case (Some tok)
    obtain y v where y: "run_state RandomToken u = (y, v)" by (rule prod.exhaust)
    obtain rb where v: "v = u\<lparr>random := rb\<rparr>" "\<And>tok. y = Some tok \<Longrightarrow> \<exists>bs. random u = Some bs # rb \<and> tok = to_hex bs"
      using RandomToken_run [OF y] by blast
    show ?thesis
    proof (cases y)
      case None
      then have "r = None" "t = s\<lparr>random := rb\<rparr>" using assms(1) x y Some u(1) v(1) by (simp_all add: Create_def)
      then show ?thesis by (rule failed)
    next
      case y': (Some csrf)
      let ?w = "final RemoveExpiredLocked v"
      let ?r = "\<lparr>csrf_token = csrf, expires_at = now s + seconds ttl\<rparr>"
      obtain a b where ab: "random s = Some a # Some b # rb" "tok = to_hex a" "csrf = to_hex b"
        using u(2) [OF Some] v(2) [OF y'] u(1) by auto
      have nv: "now v = now s" "live v = live s" "sessions_ok v"
        using u(1) v(1) assms(2) by simp_all
      have t: "r = Some (tok, csrf)" "t = ?w\<lparr>sessions := hm_assign tok ?r (sessions ?w)\<rparr>"
        using assms(1) x y Some y' nv(1)
        by (simp_all add: Create_def RemoveExpiredLocked_def final_def)
      have "live t = (live s)(tok \<mapsto> ?r)" "sessions_ok t"
        using assign_live [OF sweep_live(2) [OF nv(3)], of ?r tok] sweep_live [OF nv(3)] nv assms(3) t(2)
        by (simp_all add: seconds_def)
      moreover have "t = s\<lparr>random := rb, sessions := sessions t\<rparr>"
        using t(2) u(1) v(1) by (simp add: RemoveExpiredLocked_def final_def)
      ultimately show ?thesis using created ab t(1) by blast
    qed
  qed
qed

subsection \<open>Counting failures\<close>

text \<open>Failures of one address at given times, with nothing in between.\<close>

definition fail_at :: "string \<Rightarrow> int \<Rightarrow> 'z server_state_scheme \<Rightarrow> 'z server_state_scheme" where
  "fail_at address t s = final (Failure address) (s\<lparr>now := t\<rparr>)"

definition attempt_of :: "'z server_state_scheme \<Rightarrow> string \<Rightarrow> attempt" where
  "attempt_of s address = (case hm_find (attempts s) address of Some a \<Rightarrow> a | None \<Rightarrow> new_attempt)"

lemma fail_at_attempt:
  assumes "hm_ok (attempts s)"
  shows "attempt_of (fail_at a t s) b = (if b = a then fail_attempt t (attempt_of s a) else attempt_of s b)"
    and "hm_find (attempts (fail_at a t s)) a = Some (fail_attempt t (attempt_of s a))"
    and "hm_ok (attempts (fail_at a t s))"
  using hm.find_put [OF assms, of a] hm.inv_put [OF assms, of a]
  by (auto simp: attempt_of_def fail_at_def final_def Failure_def)

lemma fail_at_foldl:
  fixes s :: "'z server_state_scheme" and a :: string
  assumes "hm_ok (attempts s)"
  defines "u \<equiv> \<lambda>ts. foldl (\<lambda>s t. fail_at a t s) s ts"
    and "v \<equiv> \<lambda>ts. foldl (\<lambda>x t. fail_attempt t x) (attempt_of s a) ts"
  shows "attempt_of (u ts) a = v ts \<and> hm_ok (attempts (u ts)) \<and>
    (ts \<noteq> [] \<longrightarrow> hm_find (attempts (u ts)) a = Some (v ts))"
proof (induction ts rule: rev_induct)
  case Nil
  then show ?case using assms(1) by (simp add: u_def v_def)
next
  case (snoc t ts)
  then have ok: "hm_ok (attempts (u ts))" and v: "attempt_of (u ts) a = v ts" by simp_all
  have "u (ts @ [t]) = fail_at a t (u ts)" "v (ts @ [t]) = fail_attempt t (v ts)"
    by (simp_all add: u_def v_def)
  then show ?case using fail_at_attempt [OF ok] v by simp
qed

lemma five_failures:
  assumes "0 < t1" "t1 \<le> t2" "t2 \<le> t3" "t3 \<le> t4" "t4 \<le> t5" "t5 - t1 \<le> one_minute"
  shows "foldl (\<lambda>x t. fail_attempt t x) new_attempt [t1, t2, t3, t4, t5] =
    \<lparr>window_started = t1, blocked_until = t5 + one_minute, failures = 5\<rparr>"
  using assms by (simp add: fail_attempt_def new_attempt_def Let_def)

lemma four_failures:
  assumes "0 < t1" "t1 \<le> t2" "t2 \<le> t3" "t3 \<le> t4" "t4 - t1 \<le> one_minute"
  shows "foldl (\<lambda>x t. fail_attempt t x) new_attempt [t1, t2, t3, t4] =
    \<lparr>window_started = t1, blocked_until = 0, failures = 4\<rparr>"
  using assms by (simp add: fail_attempt_def new_attempt_def Let_def)

subsection \<open>Properties\<close>

text \<open>C32. The session store implements the map of sessions in force. A token is accepted exactly while its session
  has not expired and has not been removed, with the CSRF token it was created with; creating a session
  puts it in force until exactly its lifetime has passed and leaves every other session alone, even when it
  sweeps expired ones; removing one ends it; and validating never changes which sessions are in force.\<close>

theorem session_store_implements_map:
  fixes s :: "'z server_state_scheme"
  assumes "sessions_ok s" and "0 < ttl"
  shows "result (Validate token) s = live s token \<and> live (final (Validate token) s) = live s \<and>
    live (final (Remove_session token) s) = (live s)(token := None) \<and>
    live (final (Create ttl) s) = (case result (Create ttl) s of
       None \<Rightarrow> live s
     | Some (t, c) \<Rightarrow> (live s)(t \<mapsto> \<lparr>csrf_token = c, expires_at = now s + seconds ttl\<rparr>)) \<and>
    sessions_ok (final (Create ttl) s) \<and> sessions_ok (final (Validate token) s) \<and>
    sessions_ok (final (Remove_session token) s)"
proof -
  obtain r t where run: "run_state (Create ttl) s = (r, t)" by (rule prod.exhaust)
  from run assms have "live t = (case r of None \<Rightarrow> live s
     | Some (t, c) \<Rightarrow> (live s)(t \<mapsto> \<lparr>csrf_token = c, expires_at = now s + seconds ttl\<rparr>)) \<and> sessions_ok t"
    by (cases rule: Create_run) (simp_all add: assms)
  then show ?thesis
    using Validate_run [OF assms(1), of token] erase_live [OF assms(1), of token]
    by (simp add: result_def final_def run Remove_session_def)
qed

text \<open>Tokens: the two tokens of a new session are 64 hexadecimal digits each, determine the random bytes they were
  made from, and those bytes are taken off the source, so that no later token uses them.\<close>

theorem tokens_carry_all_random_bytes:
  assumes "result (Create ttl) s = Some (t, c)" and "sessions_ok s" and "0 < ttl"
    and "list_all (\<lambda>r. case r of Some bs \<Rightarrow> length bs = 32 | None \<Rightarrow> True) (random s)"
  shows "length t = 64 \<and> length c = 64 \<and> list_all is_hex_lower (t @ c) \<and>
    (\<exists>a b. random s = Some a # Some b # random (final (Create ttl) s) \<and>
      t = to_hex a \<and> c = to_hex b \<and> (t = c \<longrightarrow> a = b))"
proof -
  have run: "run_state (Create ttl) s = (Some (t, c), final (Create ttl) s)"
    using assms(1) by (metis run_result_final)
  from run assms(2,3) show ?thesis
  proof (cases rule: Create_run)
    case (created a b rs ss)
    have "random (final (Create ttl) s) = rs" by (simp add: created(5))
    then show ?thesis
      using created(1,2) assms(4) to_hex_digits [of a] to_hex_digits [of b]
      by (auto simp: length_to_hex to_hex_inj)
  qed simp
qed

text \<open>Five failed logins from one address within a minute block it: from then on, until a minute after the fifth,
  no attempt is allowed, and afterwards one is; four do not block it, a success clears the count, and
  other addresses are not affected.\<close>

theorem five_failures_block:
  fixes s :: "'z server_state_scheme" and a a' :: string and t1 t2 t3 t4 t5 t :: int
  assumes "hm_ok (attempts s)" "hm_find (attempts s) a = None" "a' \<noteq> a"
    and "0 < t1" "t1 \<le> t2" "t2 \<le> t3" "t3 \<le> t4" "t4 \<le> t5" "t5 - t1 \<le> one_minute" "t5 \<le> t"
  defines "u \<equiv> foldl (\<lambda>s t. fail_at a t s) s"
  shows "(result (Allow a) ((u [t1, t2, t3, t4, t5])\<lparr>now := t\<rparr>) \<longleftrightarrow> t5 + one_minute \<le> t) \<and>
    result (Allow a) ((u [t1, t2, t3, t4])\<lparr>now := t\<rparr>) \<and>
    result (Allow a) ((final (Success a) (u [t1, t2, t3, t4, t5]))\<lparr>now := t\<rparr>) \<and>
    attempt_of (fail_at a t1 s) a' = attempt_of s a'"
proof -
  have new: "attempt_of s a = new_attempt" using assms(2) by (simp add: attempt_of_def)
  note f = fail_at_foldl [OF assms(1), of a, folded u_def, unfolded new]
  have "t4 - t1 \<le> one_minute" using assms(8,9) by simp
  then have four: "hm_find (attempts (u [t1, t2, t3, t4])) a =
      Some \<lparr>window_started = t1, blocked_until = 0, failures = 4\<rparr>"
    using f [of "[t1, t2, t3, t4]"] four_failures assms(4-7) by (simp only: list.distinct simp_thms)
  have five: "hm_find (attempts (u [t1, t2, t3, t4, t5])) a =
      Some \<lparr>window_started = t1, blocked_until = t5 + one_minute, failures = 5\<rparr>"
    using f [of "[t1, t2, t3, t4, t5]"] five_failures assms(4-9) by (simp only: list.distinct simp_thms)
  have ok: "hm_ok (attempts (u [t1, t2, t3, t4, t5]))" using f by blast
  have "result (Allow a) ((final (Success a) (u [t1, t2, t3, t4, t5]))\<lparr>now := t\<rparr>)"
    using hm.find_del [OF ok, of a a] by (simp add: Allow_def Success_def result_def final_def)
  moreover have "attempt_of (fail_at a t1 s) a' = attempt_of s a'"
    using fail_at_attempt(1) [OF assms(1)] assms(3) by simp
  moreover have "result (Allow a) ((u [t1, t2, t3, t4, t5])\<lparr>now := t\<rparr>) \<longleftrightarrow> t5 + one_minute \<le> t"
    using five by (simp add: Allow_def result_def not_less) linarith?
  moreover have "result (Allow a) ((u [t1, t2, t3, t4])\<lparr>now := t\<rparr>)"
    using four assms(4-10) by (simp add: Allow_def result_def)
  ultimately show ?thesis by blast
qed

subsection \<open>Witnesses\<close>

definition server_boot :: "string option list \<Rightarrow> server_state" where
  "server_boot rnd = data_state.extend (data_boot ''meta'' [] []) (server_state.fields [] [] rnd 5)"

lemma server_boot_fields:
  "sessions (server_boot r) = []" "attempts (server_boot r) = []" "random (server_boot r) = r"
  "now (server_boot r) = 5" "sessions_ok (server_boot r)"
  by (simp_all add: server_boot_def data_state.defs server_state.defs sessions_ok_def hm_ok_def)

lemma session_store_implements_map_witness:
  "result (Validate ''x'') (server_boot []) = live (server_boot []) ''x'' \<and>
   sessions_ok (final (Create 60) (server_boot []))"
  using session_store_implements_map [OF server_boot_fields(5) [of "[]"], of 60 "''x''"] by simp

lemma tokens_carry_all_random_bytes_witness:
  "result (Create 60) (server_boot [Some (replicate 32 NUL), Some (replicate 32 CR)]) =
     Some (to_hex (replicate 32 NUL), to_hex (replicate 32 CR)) \<and>
   length (to_hex (replicate 32 NUL)) = 64"
proof -
  let ?s = "server_boot [Some (replicate 32 NUL), Some (replicate 32 CR)]"
  have r: "result (Create 60) ?s = Some (to_hex (replicate 32 NUL), to_hex (replicate 32 CR))"
    by (simp add: Create_def RandomToken_def RemoveExpiredLocked_def result_def server_boot_fields)
  from tokens_carry_all_random_bytes [OF this server_boot_fields(5)] r show ?thesis
    by (simp add: server_boot_fields)
qed

lemma five_failures_block_witness:
  "\<not> result (Allow ''a'') ((foldl (\<lambda>s t. fail_at ''a'' t s) (server_boot []) [1, 2, 3, 4, 5])\<lparr>now := 6\<rparr>)"
  using five_failures_block [of "server_boot []" "''a''" "''b''" 1 2 3 4 5 6]
  by (simp add: server_boot_fields hm_ok_def hm_find_def one_minute_def seconds_def)

end
