(* ===== verification/Http_Text.thy ===== *)
theory Http_Text
  imports Session
begin

text \<open>
  \<^verbatim>\<open>src/src/server/Service.cpp\<close>: the helpers of the HTTP handlers that work on text. OpenSSL and the C locale
  are parameters: \<open>memcmp_crypto\<close> is \<^verbatim>\<open>CRYPTO_memcmp\<close> on buffers of one length, \<open>pbkdf2\<close> is
  \<^verbatim>\<open>PKCS5_PBKDF2_HMAC\<close> with SHA-256 and 32 bytes of output, \<open>sha256\<close> is \<^verbatim>\<open>EVP_Digest\<close>, each \<open>None\<close> when the call
  fails, and \<open>format_time\<close> is what \<^verbatim>\<open>localtime_r\<close> and \<^verbatim>\<open>strftime\<close> print.
\<close>

record 'j service_env = "'j env" +
  memcmp_crypto :: "string \<Rightarrow> string \<Rightarrow> int"
  pbkdf2 :: "string \<Rightarrow> string \<Rightarrow> int \<Rightarrow> string option"
  sha256 :: "string \<Rightarrow> string option"
  format_time :: "int \<Rightarrow> string"

subsection \<open>Header values\<close>

definition is_blank :: "char \<Rightarrow> bool" where
  "is_blank c \<longleftrightarrow> c = CHR '' '' \<or> c = CHR 0x09"

definition find_first_not_blank :: "string \<Rightarrow> nat option" where
  "find_first_not_blank s = (let k = length (takeWhile is_blank s) in if k < length s then Some k else None)"

definition find_last_not_blank :: "string \<Rightarrow> nat" where
  "find_last_not_blank s = length s - 1 - length (takeWhile is_blank (rev s))"

definition Trim :: "string \<Rightarrow> string" where
  "Trim input =
     (case find_first_not_blank input of
        None \<Rightarrow> []
      | Some begin' \<Rightarrow> substr input begin' (find_last_not_blank input - begin' + 1))"

lemma find_char_bounds: "find_char c s pos = Some e \<Longrightarrow> pos \<le> e \<and> e < length s"
  by (auto simp: find_char_def Let_def split: if_splits)

text \<open>The loop of \<open>GetCookie\<close> over the items between semicolons.\<close>

function cookie_loop :: "string \<Rightarrow> string \<Rightarrow> nat \<Rightarrow> string option" where
  "cookie_loop name cookies position =
     (if position \<le> length cookies then
        let end' = find_char (CHR '';'') cookies position;
            item = Trim (substr cookies position
              (case end' of None \<Rightarrow> length cookies | Some e \<Rightarrow> e - position));
            separator = find_char (CHR ''='') item 0
        in case separator of
             Some p \<Rightarrow>
               if Trim (substr item 0 p) = name then Some (drop (p + 1) item)
               else (case end' of None \<Rightarrow> None | Some e \<Rightarrow> cookie_loop name cookies (e + 1))
           | None \<Rightarrow> (case end' of None \<Rightarrow> None | Some e \<Rightarrow> cookie_loop name cookies (e + 1))
      else None)"
  by auto

termination
  by (relation "measure (\<lambda>(name, cookies, position). Suc (length cookies) - position)")
     (auto dest!: find_char_bounds [OF sym])

definition GetCookie :: "string option \<Rightarrow> string \<Rightarrow> string option" where
  "GetCookie header name = (case header of None \<Rightarrow> None | Some cookies \<Rightarrow> cookie_loop name cookies 0)"

definition SecureEqual :: "('j, 'z) service_env_scheme \<Rightarrow> string \<Rightarrow> string \<Rightarrow> bool" where
  "SecureEqual E left right \<longleftrightarrow> length left = length right \<and> memcmp_crypto E left right = 0"

definition CookieSuffix :: "config \<Rightarrow> bool \<Rightarrow> string" where
  "CookieSuffix c http_only =
     ''; Path=/; SameSite=Strict; Max-Age='' @ to_dec_int (session_ttl_seconds c) @
     (if http_only then ''; HttpOnly'' else []) @ (if cookie_secure c then ''; Secure'' else [])"

subsection \<open>Digests\<close>

definition DerivePasswordHash :: "('j, 'z) service_env_scheme \<Rightarrow> string \<Rightarrow> string option" where
  "DerivePasswordHash E password =
     (if 2 ^ 31 - 1 < length password then None
      else map_option to_hex (pbkdf2 E password (auth_salt (conf E)) (auth_iterations (conf E))))"

definition Sha256Hex :: "('j, 'z) service_env_scheme \<Rightarrow> string \<Rightarrow> string" where
  "Sha256Hex E input = (case sha256 E input of None \<Rightarrow> [] | Some digest \<Rightarrow> to_hex digest)"

definition EntityTag :: "('j, 'z) service_env_scheme \<Rightarrow> storage_info \<Rightarrow> string" where
  "EntityTag E info =
     CHR 0x22 # Sha256Hex E (si_path info @ '':'' @ to_dec (si_fsize info) @ '':'' @ to_dec_int (si_mtime info)) @
     [CHR 0x22]"

subsection \<open>Names and pages\<close>

definition IsSafeFileName :: "string \<Rightarrow> bool" where
  "IsSafeFileName filename \<longleftrightarrow>
     \<not> (filename = [] \<or> 255 < length filename \<or> filename = ''.'' \<or> filename = ''..'') \<and>
     list_all (\<lambda>ch. \<not> (ch = CHR ''/'' \<or> ch = CHR 0x5C \<or> ord ch = 0 \<or> ord ch < 0x20 \<or> ord ch = 0x7F)) filename"

definition IsDownloadPath :: "config \<Rightarrow> string \<Rightarrow> bool" where
  "IsDownloadPath c path \<longleftrightarrow> length (download_prefix c) < length path \<and> starts_with path (download_prefix c)"

definition escape_char :: "char \<Rightarrow> string" where
  "escape_char ch =
     (if ch = CHR ''&'' then ''&amp;''
      else if ch = CHR ''<'' then ''&lt;''
      else if ch = CHR ''>'' then ''&gt;''
      else if ch = CHR 0x22 then ''&quot;''
      else if ch = CHR 0x27 then ''&#39;''
      else [ch])"

definition HtmlEscape :: "string \<Rightarrow> string" where
  "HtmlEscape text = concat (map escape_char text)"

definition ReplaceOnce :: "string \<Rightarrow> string \<Rightarrow> string \<Rightarrow> string option" where
  "ReplaceOnce text placeholder replacement =
     (case str_find text placeholder of
        None \<Rightarrow> None
      | Some position \<Rightarrow>
          Some (take position text @ replacement @ drop (position + length placeholder) text))"

text \<open>
  Sizes are shown with two decimals. A \<^verbatim>\<open>double\<close> holds a 64-bit integer rounded to 53 significant bits, dividing it by 1024
  is exact, and printing rounds the exact value; ties go to even both times.
\<close>

definition round_even :: "nat \<Rightarrow> nat \<Rightarrow> nat" where
  "round_even n d = (let q = n div d; r = n mod d
     in if 2 * r < d \<or> 2 * r = d \<and> even q then q else q + 1)"

fun bit_length :: "nat \<Rightarrow> nat" where
  "bit_length n = (if n = 0 then 0 else Suc (bit_length (n div 2)))"

declare bit_length.simps [simp del]

definition to_double :: "nat \<Rightarrow> nat" where
  "to_double n = (let k = bit_length n - 53 in round_even n (2 ^ k) * 2 ^ k)"

function scale_unit :: "nat \<Rightarrow> nat \<Rightarrow> nat \<Rightarrow> nat" where
  "scale_unit n d unit = (if 1024 * d \<le> n \<and> unit + 1 < 5 then scale_unit n (1024 * d) (unit + 1) else unit)"
  by auto

termination
  by (relation "measure (\<lambda>(n, d, unit). 5 - unit)") auto

declare scale_unit.simps [simp del]

definition unit_names :: "string list" where
  "unit_names = [''B'', ''KB'', ''MB'', ''GB'', ''TB'']"

definition two_digits :: "nat \<Rightarrow> string" where
  "two_digits n = [digit (n div 10 mod 10), digit (n mod 10)]"

definition FormatSize :: "nat \<Rightarrow> string" where
  "FormatSize n =
     (let size = to_double n;
          unit = scale_unit size 1 0;
          hundredths = round_even (100 * size) (1024 ^ unit)
      in to_dec (hundredths div 100) @ ''.'' @ two_digits hundredths @ '' '' @ unit_names ! unit)"

declare cookie_loop.simps [simp del]

subsection \<open>Cookies\<close>

fun split_on :: "char \<Rightarrow> string \<Rightarrow> string list" where
  "split_on d [] = [[]]"
| "split_on d (c # cs) =
     (if c = d then [] # split_on d cs else (c # hd (split_on d cs)) # tl (split_on d cs))"

lemma split_on_ne [simp]: "split_on d s \<noteq> []"
  by (cases s) auto

lemma split_on_none: "d \<notin> set s \<Longrightarrow> split_on d s = [s]"
  by (induction s) auto

lemma split_on_append: "d \<notin> set a \<Longrightarrow> split_on d (a @ d # b) = a # split_on d b"
  by (induction a) auto

text \<open>What the loop computes: the value of the first item with the name.\<close>

fun first_cookie :: "string \<Rightarrow> string list \<Rightarrow> string option" where
  "first_cookie name [] = None"
| "first_cookie name (raw # items) =
     (let item = Trim raw in
      case find_char (CHR ''='') item 0 of
        Some p \<Rightarrow> if Trim (substr item 0 p) = name then Some (drop (p + 1) item) else first_cookie name items
      | None \<Rightarrow> first_cookie name items)"

lemma cookie_loop_items:
  "position \<le> length cookies \<Longrightarrow>
     cookie_loop name cookies position = first_cookie name (split_on (CHR '';'') (drop position cookies))"
proof (induction "length cookies - position" arbitrary: position rule: less_induct)
  case less
  let ?rest = "drop position cookies"
  show ?case
  proof (cases "CHR '';'' \<in> set ?rest")
    case False
    then have fc: "find_char (CHR '';'') cookies position = None" by (simp add: find_char_None)
    have "substr cookies position (length cookies) = ?rest" by (simp add: substr_def)
    then show ?thesis
      using less.prems fc split_on_none [OF False]
      by (subst cookie_loop.simps) (simp add: Let_def split: option.split)
  next
    case True
    define a where "a = takeWhile (\<lambda>x. x \<noteq> CHR '';'') ?rest"
    obtain b where b: "?rest = a @ CHR '';'' # b" "CHR '';'' \<notin> set a"
    proof -
      obtain x y where xy: "?rest = x @ CHR '';'' # y" "CHR '';'' \<notin> set x"
        using True by (meson split_list_first)
      then have "a = x" unfolding a_def xy by (simp add: takeWhile_neq_append)
      with xy show thesis by (intro that) simp_all
    qed
    have fc: "find_char (CHR '';'') cookies position = Some (position + length a)"
      using True by (simp add: find_char_conv a_def)
    have item: "substr cookies position (position + length a - position) = a"
      by (simp add: substr_def b(1))
    have "drop (position + length a + 1) cookies = drop (length a + 1) ?rest" by (simp add: add.commute)
    also have "\<dots> = b" by (simp add: b(1))
    finally have next': "drop (position + length a + 1) cookies = b" .
    have le: "position + length a + 1 \<le> length cookies"
      using find_char_bounds [OF fc] by simp
    have IH: "cookie_loop name cookies (position + length a + 1) = first_cookie name (split_on (CHR '';'') b)"
      using less.hyps [of "position + length a + 1"] le next' by simp
    show ?thesis
      using less.prems fc item IH split_on_append [OF b(2), of b]
      by (subst cookie_loop.simps) (simp add: Let_def b(1) split: option.split)
  qed
qed

text \<open>Cookies as a browser sends them: \<open>name=value\<close> pairs separated by a semicolon and a blank.\<close>

definition clean_name :: "string \<Rightarrow> bool" where
  "clean_name n \<longleftrightarrow> n \<noteq> [] \<and> list_all (\<lambda>c. c \<noteq> CHR '';'' \<and> c \<noteq> CHR ''='' \<and> \<not> is_blank c) n"

definition clean_value :: "string \<Rightarrow> bool" where
  "clean_value v \<longleftrightarrow> list_all (\<lambda>c. c \<noteq> CHR '';'' \<and> \<not> is_blank c) v"

definition cookie_pair :: "string \<times> string \<Rightarrow> string" where
  "cookie_pair e = fst e @ CHR ''='' # snd e"

fun cookie_header :: "(string \<times> string) list \<Rightarrow> string" where
  "cookie_header [] = []"
| "cookie_header [e] = cookie_pair e"
| "cookie_header (e # es) = cookie_pair e @ '';'' @ '' '' @ cookie_header es"

lemma Trim_id: "s \<noteq> [] \<Longrightarrow> \<not> is_blank (hd s) \<Longrightarrow> \<not> is_blank (last s) \<Longrightarrow> Trim s = s"
proof -
  assume s: "s \<noteq> []" "\<not> is_blank (hd s)" "\<not> is_blank (last s)"
  have "takeWhile is_blank s = []" using s by (cases s) simp_all
  moreover have "takeWhile is_blank (rev s) = []" using s by (cases s rule: rev_cases) simp_all
  ultimately show ?thesis
    using s by (simp add: Trim_def find_first_not_blank_def find_last_not_blank_def substr_def)
qed

lemma Trim_one_blank:
  "s \<noteq> [] \<Longrightarrow> \<not> is_blank (hd s) \<Longrightarrow> \<not> is_blank (last s) \<Longrightarrow> Trim (CHR '' '' # s) = s"
proof -
  assume s: "s \<noteq> []" "\<not> is_blank (hd s)" "\<not> is_blank (last s)"
  have b: "is_blank (CHR '' '')" by (simp add: is_blank_def)
  have "takeWhile is_blank s = []" using s by (cases s) simp_all
  moreover have "takeWhile is_blank (rev s @ [CHR '' '']) = []" using s by (cases s rule: rev_cases) simp_all
  moreover have "Suc (length s - 1) = length s" using s(1) by simp
  ultimately show ?thesis
    using s b by (simp add: Trim_def find_first_not_blank_def find_last_not_blank_def substr_def)
qed

definition clean_cookie :: "string \<times> string \<Rightarrow> bool" where
  "clean_cookie e \<longleftrightarrow> clean_name (fst e) \<and> clean_value (snd e)"

lemma cookie_pair_ends:
  assumes "clean_cookie e"
  shows "cookie_pair e \<noteq> []" "\<not> is_blank (hd (cookie_pair e))" "\<not> is_blank (last (cookie_pair e))"
    "CHR '';'' \<notin> set (cookie_pair e)" "\<not> is_blank (hd (fst e))" "\<not> is_blank (last (fst e))" "fst e \<noteq> []"
    "CHR ''='' \<notin> set (fst e)"
proof -
  have n: "fst e \<noteq> []" "\<And>c. c \<in> set (fst e) \<Longrightarrow> c \<noteq> CHR '';'' \<and> c \<noteq> CHR ''='' \<and> \<not> is_blank c"
    and v: "\<And>c. c \<in> set (snd e) \<Longrightarrow> c \<noteq> CHR '';'' \<and> \<not> is_blank c"
    using assms by (auto simp: clean_cookie_def clean_name_def clean_value_def list_all_iff)
  have eq: "\<not> is_blank (CHR ''='')" by (simp add: is_blank_def)
  show "cookie_pair e \<noteq> []" by (simp add: cookie_pair_def)
  show "\<not> is_blank (hd (fst e))" "\<not> is_blank (last (fst e))" "fst e \<noteq> []" "CHR ''='' \<notin> set (fst e)"
    using n by auto
  then show "\<not> is_blank (hd (cookie_pair e))" by (simp add: cookie_pair_def)
  show "\<not> is_blank (last (cookie_pair e))"
    using v eq by (cases "snd e = []") (simp_all add: cookie_pair_def)
  show "CHR '';'' \<notin> set (cookie_pair e)"
    using n(2) v by (auto simp: cookie_pair_def)
qed

lemma first_cookie_pair:
  assumes "clean_cookie e" "raw = cookie_pair e \<or> raw = CHR '' '' # cookie_pair e"
  shows "first_cookie name (raw # items) = (if fst e = name then Some (snd e) else first_cookie name items)"
proof -
  note c = cookie_pair_ends [OF assms(1)]
  have "Trim raw = cookie_pair e" using assms(2) Trim_id [OF c(1-3)] Trim_one_blank [OF c(1-3)] by auto
  moreover have "find_char (CHR ''='') (cookie_pair e) 0 = Some (length (fst e))"
    unfolding cookie_pair_def by (rule find_char_0_append [OF c(8)])
  moreover have "Trim (substr (cookie_pair e) 0 (length (fst e))) = fst e"
    using Trim_id [OF c(7,5,6)] by (simp add: substr_def cookie_pair_def)
  ultimately show ?thesis by (simp add: cookie_pair_def)
qed

lemma split_header:
  "list_all clean_cookie (e # es) \<Longrightarrow>
     split_on (CHR '';'') (cookie_header (e # es)) = cookie_pair e # map (\<lambda>e. CHR '' '' # cookie_pair e) es"
proof (induction es arbitrary: e)
  case Nil
  then show ?case using cookie_pair_ends(4) by (simp add: split_on_none)
next
  case (Cons f es)
  then have "split_on (CHR '';'') (cookie_header (e # f # es)) =
      cookie_pair e # split_on (CHR '';'') (CHR '' '' # cookie_header (f # es))"
    using cookie_pair_ends(4) [of e] by (simp add: split_on_append)
  with Cons show ?case by simp
qed

lemma first_cookie_rest:
  "list_all clean_cookie es \<Longrightarrow> first_cookie name (map (\<lambda>e. CHR '' '' # cookie_pair e) es) = map_of es name"
proof (induction es)
  case (Cons e es)
  then show ?case using first_cookie_pair [of e "CHR '' '' # cookie_pair e" name] by simp
qed simp

lemma GetCookie_header:
  assumes "list_all clean_cookie es"
  shows "GetCookie (Some (cookie_header es)) name = map_of es name"
proof (cases es)
  case Nil
  then show ?thesis by (simp add: GetCookie_def cookie_loop_items Trim_def find_first_not_blank_def find_char_def)
next
  case (Cons e es')
  then show ?thesis
    using assms split_header [of e es'] first_cookie_pair [of e "cookie_pair e" name] first_cookie_rest [of es' name]
    by (simp add: GetCookie_def cookie_loop_items del: first_cookie.simps)
qed

subsection \<open>HTML\<close>

text \<open>A reader of the five entities.\<close>

function html_text :: "string \<Rightarrow> string" where
  "html_text s =
     (if s = [] then []
      else if starts_with s ''&amp;'' then CHR ''&'' # html_text (drop 5 s)
      else if starts_with s ''&lt;'' then CHR ''<'' # html_text (drop 4 s)
      else if starts_with s ''&gt;'' then CHR ''>'' # html_text (drop 4 s)
      else if starts_with s ''&quot;'' then CHR 0x22 # html_text (drop 6 s)
      else if starts_with s ''&#39;'' then CHR 0x27 # html_text (drop 5 s)
      else hd s # html_text (tl s))"
  by auto

termination
  by (relation "measure length") auto

declare html_text.simps [simp del]

lemma html_text_Nil: "html_text [] = []"
  by (subst html_text.simps) simp

lemma html_text_entities:
  "html_text (''&amp;'' @ s) = CHR ''&'' # html_text s" "html_text (''&lt;'' @ s) = CHR ''<'' # html_text s"
  "html_text (''&gt;'' @ s) = CHR ''>'' # html_text s" "html_text (''&quot;'' @ s) = CHR 0x22 # html_text s"
  "html_text (''&#39;'' @ s) = CHR 0x27 # html_text s"
  by (subst html_text.simps, simp add: starts_with_def)+

lemma html_text_other: "c \<noteq> CHR ''&'' \<Longrightarrow> html_text (c # s) = c # html_text s"
  by (subst html_text.simps) (simp add: starts_with_def)

lemma html_text_escape_char: "html_text (escape_char c @ s) = c # html_text s"
proof (cases "c = CHR ''&'' \<or> c = CHR ''<'' \<or> c = CHR ''>'' \<or> c = CHR 0x22 \<or> c = CHR 0x27")
  case True
  then show ?thesis by (elim disjE) (use html_text_entities in \<open>simp_all add: escape_char_def\<close>)
next
  case False
  then show ?thesis by (simp add: escape_char_def html_text_other)
qed

interpretation html: codec HtmlEscape "\<lambda>t. Some (html_text t)" "\<lambda>_. True"
proof unfold_locales
  fix s
  show "Some (html_text (HtmlEscape s)) = Some s"
    by (induction s) (simp_all add: HtmlEscape_def html_text_escape_char html_text_Nil)
qed

definition html_inert :: "char \<Rightarrow> bool" where
  "html_inert c \<longleftrightarrow> c \<noteq> CHR ''<'' \<and> c \<noteq> CHR ''>'' \<and> c \<noteq> CHR 0x22 \<and> c \<noteq> CHR 0x27"

lemma entities_inert:
  "list_all html_inert ''&amp;''" "list_all html_inert ''&lt;''" "list_all html_inert ''&gt;''"
  "list_all html_inert ''&quot;''" "list_all html_inert ''&#39;''"
  by (simp_all add: html_inert_def)

lemma escape_char_inert: "list_all html_inert (escape_char c)"
proof (cases "c = CHR ''&'' \<or> c = CHR ''<'' \<or> c = CHR ''>'' \<or> c = CHR 0x22 \<or> c = CHR 0x27")
  case True
  then show ?thesis by (elim disjE) (use entities_inert in \<open>simp_all add: escape_char_def\<close>)
next
  case False
  then show ?thesis by (simp add: escape_char_def html_inert_def)
qed

subsection \<open>File names\<close>

lemma safe_name:
  assumes "IsSafeFileName f"
  shows "plain_name f" "f \<noteq> ''.''" "f \<noteq> ''..''" "NUL \<notin> set f"
proof -
  note safe = assms [unfolded IsSafeFileName_def de_Morgan_disj list_all_iff]
  have each: "\<And>c. c \<in> set f \<Longrightarrow> c \<noteq> SLASH \<and> ord c \<noteq> 0" using safe by blast
  then have "SLASH \<notin> set f" "NUL \<notin> set f" by (blast, fastforce)
  with safe show "plain_name f" "f \<noteq> ''.''" "f \<noteq> ''..''" "NUL \<notin> set f"
    unfolding plain_name_def by blast+
qed

lemma c_str_join:
  assumes "NUL \<notin> set d" "NUL \<notin> set f"
  shows "c_str (path_join d f) = path_join d f"
  by (rule c_str_id) (use assms in \<open>auto simp: path_join_def\<close>)

lemma key_join:
  assumes "d \<noteq> []" "NUL \<notin> set d" "IsSafeFileName f"
  shows "key s (JoinPath d f) = key s d @ [f]"
proof -
  note f = safe_name [OF assms(3)]
  have "c_str d = d" using assms(2) by (rule c_str_id)
  then show ?thesis
    using path_join_facts(1,2) [OF assms(1) f(1)] c_str_join [OF assms(2) f(4)] f(2,3)
    by (simp add: key_def JoinPath_def walk_append)
qed

subsection \<open>Properties\<close>

text \<open>A cookie header as browsers send it, any number of name-value pairs, is read as a map: \<open>GetCookie\<close> finds the
  value of the first pair with the name, whatever other cookies stand before or after it, and finds
  nothing exactly when there is no such pair.\<close>

theorem get_cookie_reads_map:
  assumes "list_all clean_cookie cookies"
  shows "GetCookie (Some (cookie_header cookies)) name = map_of cookies name"
  using assms by (rule GetCookie_header)

lemma get_cookie_reads_map_witness:
  "GetCookie (Some (cookie_header [(''xsession'', ''no''), (''session'', ''a=b''), (''csrf'', ''c'')])) ''session'' =
     Some ''a=b''"
  using get_cookie_reads_map [of "[(''xsession'', ''no''), (''session'', ''a=b''), (''csrf'', ''c'')]" "''session''"]
  by (simp add: clean_cookie_def clean_name_def clean_value_def is_blank_def)

text \<open>Escaped text cannot leave its place in a page: it holds no angle bracket and no quote, an HTML reader gets
  the original text back from it, so different texts stay different.\<close>

theorem html_escape_inert:
  "list_all html_inert (HtmlEscape s) \<and> html_text (HtmlEscape s) = s \<and> (HtmlEscape s = HtmlEscape t \<longleftrightarrow> s = t)"
proof -
  have "list_all html_inert (HtmlEscape s)"
    by (induction s) (simp_all add: HtmlEscape_def escape_char_inert)
  moreover have "html_text (HtmlEscape s) = s" using html.dec_enc [of s] by simp
  ultimately show ?thesis using html.enc_eq_iff [of s t] by blast
qed

text \<open>C33. A file name that passes the check cannot leave the storage directory: the path it is joined to denotes the
  entry of that name in the directory itself, and its file name is the name.\<close>

theorem safe_name_stays_in_directory:
  assumes "IsSafeFileName f" and "d \<noteq> []" and "NUL \<notin> set d"
  shows "key s (JoinPath d f) = key s d @ [f] \<and> FileName (JoinPath d f) = f"
  using key_join [OF assms(2,3,1)] path_join_facts(3) [OF assms(2) safe_name(1) [OF assms(1)]]
  by (simp add: JoinPath_def FileName_def)

lemma safe_name_stays_in_directory_witness:
  "FileName (JoinPath ''./low_storage/'' ''report.pdf'') = ''report.pdf''"
proof -
  have "IsSafeFileName ''report.pdf''" by (simp add: IsSafeFileName_def)
  from safe_name_stays_in_directory [OF this, of "''./low_storage/''" "boot [] [] []"] show ?thesis by simp
qed

end
