(* ===== verification/Service.thy ===== *)
theory Service
  imports Http_Text Base64 Range "HOL-Library.List_Lexorder"
begin

text \<open>
  \<^verbatim>\<open>src/src/server/Service.cpp\<close>, class \<^verbatim>\<open>Service\<close>: the handler the HTTP library calls for every request. libevent is
  not part of the repository: a request is the record of what its accessors return, and the calls
  that build the response are recorded, in order, in the field \<open>out\<close>. What is added is one reply, and everything
  the handler does to the files, the metadata, the sessions and the login attempts.

  \<^verbatim>\<open>TempFileGuard\<close> removes its file when the handler returns, after the reply has been handed to the
  library: the computations below return whether the guard was released and remove the file
  last. The log line of \<open>Delete\<close> has no effect on the state of the server.
\<close>

datatype http_method = GET | POST | HEAD | OTHER_METHOD

text \<open>
  \<open>req_copyout n\<close> is what \<^verbatim>\<open>evbuffer_copyout\<close> delivers for \<open>n\<close> bytes, \<open>None\<close> for -1. Header lookup ignores
  the case of names inside the library.
\<close>

record request =
  req_path :: "string option"
  req_method :: http_method
  req_header :: "string \<Rightarrow> string option"
  req_body :: "string option"
  req_copyout :: "nat \<Rightarrow> string option"
  req_peer :: "string option"

datatype event =
    Add_header string string
  | Remove_header string
  | Add_body string
  | Add_file "nat option" nat nat
  | Send_reply int string

record service_state = server_state +
  out :: "event list"

type_synonym ('z, 'a) svc = "('z service_state_scheme, 'a) state"

subsection \<open>Building a response\<close>

definition emit :: "event \<Rightarrow> ('z, unit) svc" where
  "emit e = modify (\<lambda>s. s\<lparr>out := out s @ [e]\<rparr>)"

definition AddHeader :: "string \<Rightarrow> string \<Rightarrow> ('z, unit) svc" where
  "AddHeader name val = emit (Add_header name (c_str val))"

definition AddSecurityHeaders :: "('z, unit) svc" where
  "AddSecurityHeaders = do {
     AddHeader ''X-Content-Type-Options'' ''nosniff'';
     AddHeader ''X-Frame-Options'' ''DENY'';
     AddHeader ''Referrer-Policy'' ''same-origin'' }"

definition send_reply :: "int \<Rightarrow> string \<Rightarrow> ('z, unit) svc" where
  "send_reply status reason = emit (Send_reply status reason)"

definition SendText :: "int \<Rightarrow> string \<Rightarrow> string \<Rightarrow> ('z, unit) svc" where
  "SendText status reason body = do {
     emit (Remove_header ''Content-Length'');
     (if body \<noteq> [] then do {
        emit (Add_body body);
        AddHeader ''Content-Type'' ''text/plain;charset=utf-8'' }
      else skip);
     send_reply status reason }"

definition SendMethodNotAllowed :: "string \<Rightarrow> ('z, unit) svc" where
  "SendMethodNotAllowed allowed = do {
     AddHeader ''Allow'' allowed;
     SendText 405 ''Method Not Allowed'' ''method not allowed'' }"

definition SetNoCache :: "('z, unit) svc" where
  "SetNoCache = do {
     AddHeader ''Cache-Control'' ''no-cache, no-store, must-revalidate'';
     AddHeader ''Pragma'' ''no-cache'';
     AddHeader ''Expires'' ''0'' }"

definition ClearAuthCookies :: "config \<Rightarrow> ('z, unit) svc" where
  "ClearAuthCookies c = do {
     let suffix = ''; Path=/; SameSite=Strict; Max-Age=0'' @ (if cookie_secure c then ''; Secure'' else []);
     AddHeader ''Set-Cookie'' (''session='' @ suffix @ ''; HttpOnly'');
     AddHeader ''Set-Cookie'' (''csrf='' @ suffix) }"

subsection \<open>Who is asking\<close>

text \<open>The library returns C strings.\<close>

definition find_header :: "request \<Rightarrow> string \<Rightarrow> string option" where
  "find_header req name = map_option c_str (req_header req name)"

definition PeerAddress :: "request \<Rightarrow> string" where
  "PeerAddress req = (case req_peer req of None \<Rightarrow> ''unknown'' | Some address \<Rightarrow> address)"

definition Authenticate :: "request \<Rightarrow> ('z, (string \<times> session_record) option) svc" where
  "Authenticate req = (case GetCookie (find_header req ''Cookie'') ''session'' of
     None \<Rightarrow> give None
   | Some token \<Rightarrow> do { r \<leftarrow> Validate token; give (map_option (\<lambda>r. (token, r)) r) })"

definition ValidateCsrf :: "('j, 'e) service_env_scheme \<Rightarrow> request \<Rightarrow> session_record \<Rightarrow> bool" where
  "ValidateCsrf E req session =
     (case (find_header req ''X-CSRF-Token'', GetCookie (find_header req ''Cookie'') ''csrf'') of
        (Some header, Some cookie) \<Rightarrow>
          SecureEqual E header (csrf_token session) \<and> SecureEqual E cookie (csrf_token session)
      | _ \<Rightarrow> False)"

definition ReadRequestBody :: "request \<Rightarrow> nat \<Rightarrow> string option" where
  "ReadRequestBody req maximum =
     (case req_body req of
        None \<Rightarrow> None
      | Some input \<Rightarrow>
          if length input = 0 \<or> maximum < length input then None
          else (case req_copyout req (length input) of
            None \<Rightarrow> None
          | Some body \<Rightarrow> if length body = length input then Some body else None))"

subsection \<open>Login and logout\<close>

text \<open>An \<^verbatim>\<open>ifstream\<close> on a template: its content, if it can be opened.\<close>

definition read_template :: "string \<Rightarrow> ('z, string option) io" where
  "read_template name = syscall None (gets (\<lambda>s. case lookup s name of
     Some (File i) \<Rightarrow> Some (bytes (inodes s i)) | _ \<Rightarrow> None))"

definition ShowLogin :: "('z, unit) svc" where
  "ShowLogin = do {
     SetNoCache;
     content \<leftarrow> read_template ''login.html'';
     case content of
       None \<Rightarrow> SendText 500 ''Internal Server Error'' ''login template unavailable''
     | Some content \<Rightarrow> do {
         emit (Add_body content);
         AddHeader ''Content-Type'' ''text/html;charset=utf-8'';
         send_reply 200 ''OK'' } }"

definition Login :: "('j, 'e) service_env_scheme \<Rightarrow> request \<Rightarrow> ('z, unit) svc" where
  "Login E req = do {
     SetNoCache;
     let peer = PeerAddress req;
     allowed \<leftarrow> Allow peer;
     if \<not> allowed then do {
       AddHeader ''Retry-After'' ''60'';
       SendText 429 ''Too Many Requests'' ''try again later'' }
     else case ReadRequestBody req 1024 of
       None \<Rightarrow> SendText 400 ''Bad Request'' ''invalid password body''
     | Some password \<Rightarrow>
         if (case DerivePasswordHash E password of
               None \<Rightarrow> True | Some derived \<Rightarrow> \<not> SecureEqual E derived (auth_hash (conf E)))
         then do {
           Failure peer;
           SendText 401 ''Unauthorized'' ''authentication failed'' }
         else do {
           created \<leftarrow> Create (session_ttl_seconds (conf E));
           case created of
             None \<Rightarrow> SendText 500 ''Internal Server Error'' ''cannot create session''
           | Some (session_token, csrf) \<Rightarrow> do {
               Success peer;
               AddHeader ''Set-Cookie'' (''session='' @ session_token @ CookieSuffix (conf E) True);
               AddHeader ''Set-Cookie'' (''csrf='' @ csrf @ CookieSuffix (conf E) False);
               SendText 200 ''OK'' ''login successful'' } } }"

definition Logout :: "('j, 'e) service_env_scheme \<Rightarrow> request \<Rightarrow> ('z, unit) svc" where
  "Logout E req = do {
     auth \<leftarrow> Authenticate req;
     (case auth of None \<Rightarrow> skip | Some (token, session) \<Rightarrow> Remove_session token);
     ClearAuthCookies (conf E);
     SetNoCache;
     SendText 200 ''OK'' ''logged out'' }"

subsection \<open>Upload\<close>

text \<open>A \<^verbatim>\<open>TempFileGuard\<close> on \<open>path\<close> around a computation that returns whether the guard was released.\<close>

definition TempFileGuard :: "string \<Rightarrow> ('z, bool) svc \<Rightarrow> ('z, unit) svc" where
  "TempFileGuard path body = do {
     released \<leftarrow> body;
     (if released \<or> path = [] then skip else do { remove_file path; skip }) }"

text \<open>The last part, once the content has been committed under its final name.\<close>

definition record_upload :: "('j, 'e) service_env_scheme \<Rightarrow> string \<Rightarrow> string \<Rightarrow> ('z, bool) svc" where
  "record_upload E final_path storage_type = do {
     info \<leftarrow> NewStorageInfo (env.truncate E) final_path final_path storage_type;
     case info of
       None \<Rightarrow> do {
         remove_file final_path;
         SendText 500 ''Internal Server Error'' ''cannot read stored file metadata'';
         give True }
     | Some info \<Rightarrow> do {
         r \<leftarrow> Insert (env.truncate E) info;
         if r \<noteq> OK then do {
           remove_file final_path;
           SyncDirectory (ParentPath final_path);
           (if r = ALREADY_EXISTS then SendText 409 ''Conflict'' ''a file with this name already exists''
            else SendText 500 ''Internal Server Error'' ''cannot persist upload metadata'');
           give True }
         else do {
           SendText 201 ''Created'' ''upload successful'';
           give True } } }"

text \<open>From the creation of the guard on: the result is whether the guard was released.\<close>

definition store_upload ::
  "('j, 'e) service_env_scheme \<Rightarrow> string \<Rightarrow> string \<Rightarrow> string \<Rightarrow> string \<Rightarrow> string \<Rightarrow> ('z, bool) svc" where
  "store_upload E directory filename storage_type content temporary_path = do {
     stored \<leftarrow> (if storage_type = ''low'' then SetContent temporary_path content
               else Compress (compressor E) temporary_path content (nat (bundle_format (conf E))));
     if \<not> stored then do {
       SendText 500 ''Internal Server Error'' ''cannot store upload'';
       give False }
     else do {
       let final_path = JoinPath directory filename;
       committed \<leftarrow> CommitNoReplace temporary_path final_path;
       if \<not> committed then do {
         saved_errno \<leftarrow> get_errno;
         (if saved_errno = EEXIST then SendText 409 ''Conflict'' ''a file with this name already exists''
          else SendText 500 ''Internal Server Error'' ''cannot commit upload'');
         give False }
       else record_upload E final_path storage_type } }"

definition Upload_checked ::
  "('j, 'e) service_env_scheme \<Rightarrow> request \<Rightarrow> nat \<Rightarrow> string \<Rightarrow> string \<Rightarrow> ('z, unit) svc" where
  "Upload_checked E req len filename storage_type = do {
     let directory = (if storage_type = ''low'' then low_storage_dir (conf E) else deep_storage_dir (conf E));
     existing \<leftarrow> GetOneByURL (download_prefix (conf E) @ filename);
     if existing \<noteq> None then SendText 409 ''Conflict'' ''a file with this name already exists''
     else do {
       made \<leftarrow> CreateDirectory directory;
       if \<not> made then SendText 500 ''Internal Server Error'' ''cannot create storage directory''
       else case req_copyout req len of
         None \<Rightarrow> SendText 500 ''Internal Server Error'' ''cannot read upload body''
       | Some content \<Rightarrow>
           if length content \<noteq> len then SendText 500 ''Internal Server Error'' ''cannot read upload body''
           else do {
             temporary \<leftarrow> CreateTempFile directory ''.upload-'';
             case temporary of
               None \<Rightarrow> SendText 500 ''Internal Server Error'' ''cannot create upload temporary file''
             | Some temporary_path \<Rightarrow> TempFileGuard temporary_path
                 (store_upload E directory filename storage_type content temporary_path) } } }"

text \<open>The maximum is \<^verbatim>\<open>config->GetMaxUploadSize()\<close>. \<^verbatim>\<open>strlen\<close> of a header is the length of its C string.\<close>

definition Upload :: "('j, 'e) service_env_scheme \<Rightarrow> request \<Rightarrow> ('z, unit) svc" where
  "Upload E req =
     (case req_body req of
        None \<Rightarrow> SendText 400 ''Bad Request'' ''request body missing''
      | Some input \<Rightarrow>
          if length input = 0 then SendText 400 ''Bad Request'' ''empty files are not accepted''
          else if max_upload_size (conf E) < length input then SendText 413 ''Payload Too Large'' ''file too large''
          else (case find_header req ''FileName'' of
            None \<Rightarrow> SendText 400 ''Bad Request'' ''invalid FileName header''
          | Some filename_header \<Rightarrow>
              if length filename_header = 0 \<or> 1024 < length filename_header
              then SendText 400 ''Bad Request'' ''invalid FileName header''
              else (case base64_decode filename_header of (ok, filename) \<Rightarrow>
                if \<not> ok \<or> \<not> IsSafeFileName filename then SendText 400 ''Bad Request'' ''invalid filename''
                else (case find_header req ''StorageType'' of
                  None \<Rightarrow> SendText 400 ''Bad Request'' ''StorageType is required''
                | Some storage_type \<Rightarrow>
                    if storage_type \<noteq> ''low'' \<and> storage_type \<noteq> ''deep''
                    then SendText 400 ''Bad Request'' ''invalid storage type''
                    else Upload_checked E req (length input) filename storage_type))))"

subsection \<open>Delete\<close>

text \<open>The metadata are deleted once the file has been moved out of the way, to \<open>trash\<close> if there was one.\<close>

definition delete_metadata ::
  "('j, 'e) service_env_scheme \<Rightarrow> string \<Rightarrow> storage_info \<Rightarrow> string option \<Rightarrow> ('z, bool) svc" where
  "delete_metadata E url info trash = do {
     r \<leftarrow> Delete_info (env.truncate E) url;
     if r \<noteq> OK then do {
       (case trash of None \<Rightarrow> skip | Some path \<Rightarrow> do { rename_file path (si_path info); skip });
       (if r = NOT_FOUND then SendText 404 ''Not Found'' ''file not found''
        else SendText 500 ''Internal Server Error'' ''cannot persist delete metadata'');
       give True }
     else do {
       released \<leftarrow> (case trash of None \<Rightarrow> give False | Some path \<Rightarrow> remove_file path);
       SendText 200 ''OK'' ''delete successful'';
       give released } }"

definition delete_stored :: "('j, 'e) service_env_scheme \<Rightarrow> string \<Rightarrow> storage_info \<Rightarrow> ('z, unit) svc" where
  "delete_stored E url info = do {
     present \<leftarrow> Exists (si_path info);
     if snd present then SendText 500 ''Internal Server Error'' ''cannot inspect stored file''
     else if fst present then do {
       temporary \<leftarrow> CreateTempFile (ParentPath (si_path info)) ''.delete-'';
       case temporary of
         None \<Rightarrow> SendText 500 ''Internal Server Error'' ''cannot prepare delete transaction''
       | Some trash_path \<Rightarrow> do {
           remove_file trash_path;
           moved \<leftarrow> rename_file (si_path info) trash_path;
           if \<not> moved then SendText 500 ''Internal Server Error'' ''cannot move file to delete transaction''
           else TempFileGuard trash_path (delete_metadata E url info (Some trash_path)) } }
     else TempFileGuard [] (delete_metadata E url info None) }"

definition Delete :: "('j, 'e) service_env_scheme \<Rightarrow> request \<Rightarrow> ('z, unit) svc" where
  "Delete E req =
     (case find_header req ''DeleteUrl'' of
        None \<Rightarrow> SendText 400 ''Bad Request'' ''invalid DeleteUrl header''
      | Some url_header \<Rightarrow>
          if length url_header = 0 \<or> 4096 < length url_header
          then SendText 400 ''Bad Request'' ''invalid DeleteUrl header''
          else (case UrlDecode url_header of (ok, url) \<Rightarrow>
            if \<not> ok \<or> \<not> IsDownloadPath (conf E) url
            then SendText 400 ''Bad Request'' ''invalid download URL''
            else do {
              info \<leftarrow> GetOneByURL url;
              case info of
                None \<Rightarrow> SendText 404 ''Not Found'' ''file not found''
              | Some info \<Rightarrow> delete_stored E url info }))"

subsection \<open>The page of files\<close>

text \<open>The string literals of \<open>GenerateFileList\<close>, byte for byte (the source is UTF-8).\<close>

definition list_heading :: string where
  "list_heading =
     ''<div class='' @ [CHR 0x27] @ ''file-list'' @ [CHR 0x27] @ ''><h3>'' @
     [CHR 0xE5, CHR 0xB7, CHR 0xB2, CHR 0xE4, CHR 0xB8, CHR 0x8A, CHR 0xE4, CHR 0xBC, CHR 0xA0, CHR 0xE6, CHR 0x96, CHR 0x87, CHR 0xE4, CHR 0xBB, CHR 0xB6] @
     ''</h3>''"

definition item_open :: string where
  "item_open =
     ''<div class='' @ [CHR 0x27] @ ''file-item'' @ [CHR 0x27] @ ''><div class='' @ [CHR 0x27] @
     ''file-info'' @ [CHR 0x27] @ ''><span>'' @ [CHR 0xF0, CHR 0x9F, CHR 0x93, CHR 0x84]"

definition type_open :: string where
  "type_open =
     ''</span><span class='' @ [CHR 0x27] @ ''file-type'' @ [CHR 0x27] @ ''>''"

definition deep_label :: string where
  "deep_label =
     [CHR 0xE6, CHR 0xB7, CHR 0xB1, CHR 0xE5, CHR 0xBA, CHR 0xA6, CHR 0xE5, CHR 0xAD, CHR 0x98, CHR 0xE5, CHR 0x82, CHR 0xA8]"

definition low_label :: string where
  "low_label =
     [CHR 0xE6, CHR 0x99, CHR 0xAE, CHR 0xE9, CHR 0x80, CHR 0x9A, CHR 0xE5, CHR 0xAD, CHR 0x98, CHR 0xE5, CHR 0x82, CHR 0xA8]"

definition span_sep :: string where
  "span_sep =
     ''</span><span>''"

definition actions_open :: string where
  "actions_open =
     ''</span></div><div class='' @ [CHR 0x27] @ ''file-actions'' @ [CHR 0x27] @
     ''><button data-url='' @ [CHR 0x22]"

definition download_button :: string where
  "download_button =
     [CHR 0x22] @ '' onclick='' @ [CHR 0x22] @ ''window.location=this.dataset.url'' @ [CHR 0x22] @
     ''>'' @ [CHR 0xE2, CHR 0xAC, CHR 0x87, CHR 0xEF, CHR 0xB8, CHR 0x8F] @ '' '' @
     [CHR 0xE4, CHR 0xB8, CHR 0x8B, CHR 0xE8, CHR 0xBD, CHR 0xBD] @
     ''</button><button data-url='' @ [CHR 0x22]"

definition delete_button :: string where
  "delete_button =
     [CHR 0x22] @ '' onclick='' @ [CHR 0x22] @ ''deleteFile(this.dataset.url)'' @ [CHR 0x22] @
     '' class='' @ [CHR 0x27] @ ''delete-btn'' @ [CHR 0x27] @ ''>'' @
     [CHR 0xF0, CHR 0x9F, CHR 0x97, CHR 0x91, CHR 0xEF, CHR 0xB8, CHR 0x8F] @ '' '' @
     [CHR 0xE5, CHR 0x88, CHR 0xA0, CHR 0xE9, CHR 0x99, CHR 0xA4] @ ''</button></div></div>''"


definition list_item :: "('j, 'e) service_env_scheme \<Rightarrow> storage_info \<Rightarrow> string" where
  "list_item E f =
     (let encoded_url = UrlEncode (si_url f) True
      in item_open @ HtmlEscape (FileName (si_path f)) @ type_open @
         (if si_type f = ''deep'' then deep_label else low_label) @ span_sep @
         FormatSize (si_fsize f) @ span_sep @ format_time E (si_mtime f) @ actions_open @
         HtmlEscape encoded_url @ download_button @ HtmlEscape encoded_url @ delete_button)"

definition GenerateFileList :: "('j, 'e) service_env_scheme \<Rightarrow> storage_info list \<Rightarrow> string" where
  "GenerateFileList E files = list_heading @ concat (map (list_item E) files) @ ''</div>''"

text \<open>
  \<^verbatim>\<open>std::sort\<close> may return any ordered rearrangement; entries of one table have different names, so that there is one.
\<close>

definition ListFiles :: "('j, 'e) service_env_scheme \<Rightarrow> ('z, unit) svc" where
  "ListFiles E = do {
     SetNoCache;
     files \<leftarrow> GetAll (env.truncate E);
     let files = sort_key (\<lambda>f. FileName (si_path f)) files;
     content \<leftarrow> read_template ''index.html'';
     case content of
       None \<Rightarrow> SendText 500 ''Internal Server Error'' ''index template unavailable''
     | Some content \<Rightarrow> (case ReplaceOnce content ''{{FILE_LIST}}'' (GenerateFileList E files) of
         None \<Rightarrow> SendText 500 ''Internal Server Error'' ''index template is invalid''
       | Some content \<Rightarrow> do {
           emit (Add_body content);
           AddHeader ''Content-Type'' ''text/html;charset=utf-8'';
           send_reply 200 ''OK'' }) }"

subsection \<open>Download\<close>

text \<open>
  \<^verbatim>\<open>evbuffer_add_file\<close> takes the descriptor over when it succeeds; the library sends that part of the file and
  closes the descriptor after the handler has returned.
\<close>

definition evbuffer_add_file :: "nat \<Rightarrow> nat \<Rightarrow> nat \<Rightarrow> ('z, bool) svc" where
  "evbuffer_add_file fd offset len = syscall False (do {
     d \<leftarrow> gets (\<lambda>s. fds s fd);
     case d of
       None \<Rightarrow> fail EBADF False
     | Some d \<Rightarrow> do {
         modify (\<lambda>s. s\<lparr>fds := (fds s)(fd := None)\<rparr>);
         emit (Add_file (fd_ino d) offset len);
         give True } })"

definition partial_reply :: "ByteRange \<Rightarrow> ('z, unit) svc" where
  "partial_reply rng = send_reply (if range_status rng = PARTIAL then 206 else 200)
     (if range_status rng = PARTIAL then ''Partial Content'' else ''OK'')"

definition send_part ::
  "request \<Rightarrow> string \<Rightarrow> string option \<Rightarrow> ByteRange \<Rightarrow> u64 \<Rightarrow> u64 \<Rightarrow> ('z, bool) svc" where
  "send_part req download_path temporary rng offset len =
     (if req_method req = HEAD then do { partial_reply rng; give False }
      else if of_nat off_t_max < offset \<or> of_nat off_t_max < len then do {
        SendText 500 ''Internal Server Error'' ''file is too large for this server''; give False }
      else do {
        fd \<leftarrow> open_rdonly download_path;
        case fd of
          None \<Rightarrow> do { SendText 404 ''Not Found'' ''file not found''; give False }
        | Some fd \<Rightarrow> do {
            added \<leftarrow> evbuffer_add_file fd (unat offset) (unat len);
            if \<not> added then do {
              close fd;
              SendText 500 ''Internal Server Error'' ''cannot prepare file response'';
              give False }
            else do {
              released \<leftarrow> (case temporary of None \<Rightarrow> give False | Some path \<Rightarrow> do { remove_file path; give True });
              partial_reply rng;
              give released } } })"

definition chosen_range :: "('j, 'e) service_env_scheme \<Rightarrow> request \<Rightarrow> string \<Rightarrow> u64 \<Rightarrow> ByteRange" where
  "chosen_range E req etag file_size =
     (case find_header req ''Range'' of
        None \<Rightarrow> ByteRange_default
      | Some range_header \<Rightarrow>
          if (case find_header req ''If-Range'' of None \<Rightarrow> True | Some if_range \<Rightarrow> SecureEqual E if_range etag)
          then ParseRangeHeader range_header file_size else ByteRange_default)"

definition send_file ::
  "('j, 'e) service_env_scheme \<Rightarrow> request \<Rightarrow> storage_info \<Rightarrow> string \<Rightarrow> string option \<Rightarrow> ('z, bool) svc" where
  "send_file E req info download_path temporary = do {
     signed_size \<leftarrow> FileSize download_path;
     if signed_size < 0 then do { SendText 404 ''Not Found'' ''file not found''; give False }
     else do {
       let file_size = (of_int signed_size :: u64);
       let etag = EntityTag E info;
       AddHeader ''Accept-Ranges'' ''bytes'';
       AddHeader ''ETag'' etag;
       AddHeader ''Content-Type'' ''application/octet-stream'';
       AddHeader ''Content-Disposition''
         (''attachment; filename*=UTF-8'' @ [CHR 0x27, CHR 0x27] @ UrlEncode (FileName (si_path info)) False);
       let rng = chosen_range E req etag file_size;
       if range_status rng = UNSATISFIABLE then do {
         AddHeader ''Content-Range'' (''bytes */'' @ to_dec (unat file_size));
         SendText 416 ''Range Not Satisfiable'' [];
         give False }
       else do {
         let offset = (if range_status rng = PARTIAL then range_offset rng else 0);
         let len = (if range_status rng = PARTIAL then range_length rng else file_size);
         AddHeader ''Content-Length'' (to_dec (unat len));
         (if range_status rng = PARTIAL
          then AddHeader ''Content-Range'' (''bytes '' @ to_dec (unat offset) @ ''-'' @
                 to_dec (unat (offset + len - 1)) @ ''/'' @ to_dec (unat file_size))
          else skip);
         send_part req download_path temporary rng offset len } } }"

definition Download :: "('j, 'e) service_env_scheme \<Rightarrow> request \<Rightarrow> string \<Rightarrow> ('z, unit) svc" where
  "Download E req path = do {
     info \<leftarrow> GetOneByURL path;
     case info of
       None \<Rightarrow> SendText 404 ''Not Found'' ''file not found''
     | Some info \<Rightarrow>
         if si_type info = ''deep'' then do {
           temporary \<leftarrow> CreateTempFile (temp_dir (conf E)) ''.download-'';
           case temporary of
             None \<Rightarrow> SendText 500 ''Internal Server Error'' ''cannot create download temporary file''
           | Some temporary_path \<Rightarrow> TempFileGuard temporary_path (do {
               unpacked \<leftarrow> UnCompress (compressor E) (si_path info) temporary_path;
               if \<not> unpacked then do {
                 SendText 500 ''Internal Server Error'' ''cannot decompress file''; give False }
               else send_file E req info temporary_path (Some temporary_path) }) }
         else TempFileGuard [] (send_file E req info (si_path info) None) }"

subsection \<open>The dispatcher\<close>

definition require_method :: "http_method \<Rightarrow> string \<Rightarrow> request \<Rightarrow> ('z, unit) svc \<Rightarrow> ('z, unit) svc" where
  "require_method m allowed req handler = (if req_method req \<noteq> m then SendMethodNotAllowed allowed else handler)"

definition require_csrf ::
  "('j, 'e) service_env_scheme \<Rightarrow> request \<Rightarrow> session_record \<Rightarrow> ('z, unit) svc \<Rightarrow> ('z, unit) svc" where
  "require_csrf E req session handler =
     require_method POST ''POST'' req
       (if \<not> ValidateCsrf E req session then SendText 403 ''Forbidden'' ''invalid CSRF token'' else handler)"

definition dispatch ::
  "('j, 'e) service_env_scheme \<Rightarrow> request \<Rightarrow> string \<Rightarrow> session_record \<Rightarrow> ('z, unit) svc" where
  "dispatch E req path session =
     (if path = ''/'' then require_method GET ''GET'' req (ListFiles E)
      else if path = ''/upload'' then require_csrf E req session (Upload E req)
      else if path = ''/delete'' then require_csrf E req session (Delete E req)
      else if path = ''/logout'' then require_csrf E req session (Logout E req)
      else if IsDownloadPath (conf E) path then
        (if req_method req \<noteq> GET \<and> req_method req \<noteq> HEAD then SendMethodNotAllowed ''GET, HEAD''
         else Download E req path)
      else SendText 404 ''Not Found'' ''not found'')"

definition HandleRequest :: "('j, 'e) service_env_scheme \<Rightarrow> request \<Rightarrow> ('z, unit) svc" where
  "HandleRequest E req = do {
     AddSecurityHeaders;
     case req_path req of
       None \<Rightarrow> SendText 400 ''Bad Request'' ''invalid path''
     | Some raw_path \<Rightarrow> (case UrlDecode (c_str raw_path) of (ok, path) \<Rightarrow>
         if \<not> ok then SendText 400 ''Bad Request'' ''invalid URL encoding''
         else if path = ''/login'' then require_method GET ''GET'' req ShowLogin
         else if path = ''/api/login'' then require_method POST ''POST'' req (Login E req)
         else do {
           auth \<leftarrow> Authenticate req;
           case auth of
             None \<Rightarrow>
               if path = ''/'' \<or> IsDownloadPath (conf E) path then do {
                 AddHeader ''Location'' ''/login'';
                 send_reply 302 ''Redirect'' }
               else SendText 401 ''Unauthorized'' ''authentication required''
           | Some (token, session) \<Rightarrow> dispatch E req path session }) }"

end
