(* ===== verification/Service_Correct.thy ===== *)
theory Service_Correct
  imports Service
begin

text \<open>
  What the handlers of \<^verbatim>\<open>Service.cpp\<close> guarantee, whatever the outcomes of the system calls: every request is answered
  exactly once, requests without a session or without the CSRF token change nothing, uploads and deletions keep
  files and metadata consistent, and downloads send the bytes that were stored.
\<close>

subsection \<open>Talking to the client\<close>

fun is_reply :: "event \<Rightarrow> bool" where
  "is_reply (Send_reply status reason) = True"
| "is_reply e = False"

text \<open>
  Three kinds of computations: those that add nothing to the response, those that add only events of a kind
  \<open>P\<close>, and those that end with the one reply they send, with a status in \<open>C\<close>.
\<close>

definition mute :: "('z, 'a) svc \<Rightarrow> bool" where
  "mute m \<longleftrightarrow> (\<forall>s. out (final m s) = out s)"

definition adds :: "(event \<Rightarrow> bool) \<Rightarrow> ('z, 'a) svc \<Rightarrow> bool" where
  "adds P m \<longleftrightarrow> (\<forall>s. \<exists>es. out (final m s) = out s @ es \<and> list_all P es)"

definition no_reply :: "event \<Rightarrow> bool" where
  "no_reply e \<longleftrightarrow> \<not> is_reply e"

definition replies :: "int set \<Rightarrow> ('z, 'a) svc \<Rightarrow> bool" where
  "replies C m \<longleftrightarrow> (\<forall>s. \<exists>es status reason. out (final m s) = out s @ es @ [Send_reply status reason] \<and>
     status \<in> C \<and> list_all no_reply es)"

named_theorems talk \<open>how operations talk to the client\<close>

lemma final_bind: "final (State_Monad.bind m f) s = final (f (result m s)) (final m s)"
  by (simp add: final_def result_def split_beta)

lemma result_bind: "result (State_Monad.bind m f) s = result (f (result m s)) (final m s)"
  by (simp add: final_def result_def split_beta)

lemma result_give: "result (give a) s = a"
  by (simp add: result_def)

lemma final_give: "final (give a) s = s"
  by (simp add: final_def)

lemma mute_adds [talk]: "mute m \<Longrightarrow> adds P m"
  by (simp add: mute_def adds_def)

lemma mute_bind [talk]: "mute m \<Longrightarrow> (\<And>a. mute (f a)) \<Longrightarrow> mute (State_Monad.bind m f)"
  by (simp add: mute_def final_bind)

lemma adds_bind [talk]:
  assumes "adds P m" "\<And>a. adds P (f a)"
  shows "adds P (State_Monad.bind m f)"
  unfolding adds_def
proof
  fix s
  obtain a where a: "out (final m s) = out s @ a" "list_all P a"
    using assms(1) unfolding adds_def by blast
  obtain b where b: "out (final (f (result m s)) (final m s)) = out (final m s) @ b" "list_all P b"
    using assms(2) unfolding adds_def by blast
  show "\<exists>es. out (final (State_Monad.bind m f) s) = out s @ es \<and> list_all P es"
    using a b by (intro exI [of _ "a @ b"]) (simp add: final_bind)
qed

lemma replies_first [talk]:
  assumes "adds no_reply m" "\<And>a. replies C (f a)"
  shows "replies C (State_Monad.bind m f)"
  unfolding replies_def
proof
  fix s
  obtain a where a: "out (final m s) = out s @ a" "list_all no_reply a"
    using assms(1) unfolding adds_def by blast
  obtain b st r where b: "out (final (f (result m s)) (final m s)) = out (final m s) @ b @ [Send_reply st r]"
      "list_all no_reply b" "st \<in> C"
    using assms(2) unfolding replies_def by blast
  show "\<exists>es st r. out (final (State_Monad.bind m f) s) = out s @ es @ [Send_reply st r] \<and> st \<in> C \<and> list_all no_reply es"
    using a b by (intro exI [of _ "a @ b"] exI [of _ st] exI [of _ r]) (simp add: final_bind)
qed

lemma replies_last [talk]: "replies C m \<Longrightarrow> (\<And>a. mute (f a)) \<Longrightarrow> replies C (State_Monad.bind m f)"
  by (simp add: replies_def mute_def final_bind)

lemma talk_if [talk]:
  "(b \<Longrightarrow> mute m) \<Longrightarrow> (\<not> b \<Longrightarrow> mute n) \<Longrightarrow> mute (if b then m else n)"
  "(b \<Longrightarrow> adds P m) \<Longrightarrow> (\<not> b \<Longrightarrow> adds P n) \<Longrightarrow> adds P (if b then m else n)"
  "(b \<Longrightarrow> replies C m) \<Longrightarrow> (\<not> b \<Longrightarrow> replies C n) \<Longrightarrow> replies C (if b then m else n)"
  by simp_all

lemma talk_option [talk]:
  "mute m \<Longrightarrow> (\<And>x. mute (f x)) \<Longrightarrow> mute (case z of None \<Rightarrow> m | Some x \<Rightarrow> f x)"
  "adds P m \<Longrightarrow> (\<And>x. adds P (f x)) \<Longrightarrow> adds P (case z of None \<Rightarrow> m | Some x \<Rightarrow> f x)"
  "replies C m \<Longrightarrow> (\<And>x. replies C (f x)) \<Longrightarrow> replies C (case z of None \<Rightarrow> m | Some x \<Rightarrow> f x)"
  by (cases z; simp)+

lemma talk_prod [talk]:
  "(\<And>x y. mute (f x y)) \<Longrightarrow> mute (case p of (x, y) \<Rightarrow> f x y)"
  "(\<And>x y. adds P (f x y)) \<Longrightarrow> adds P (case p of (x, y) \<Rightarrow> f x y)"
  "(\<And>x y. replies C (g x y)) \<Longrightarrow> replies C (case p of (x, y) \<Rightarrow> g x y)"
  by (cases p; simp)+

lemma talk_basic [talk]:
  "mute (give a)" "mute (gets g)" "mute State_Monad.get" "mute (fail e a)" "mute next_outcome"
  "mute (modify (\<lambda>s. s\<lparr>fds := h s\<rparr>))"
  by (simp_all add: mute_def final_def fail_def next_outcome_def split: list.split)

lemma adds_emit [talk]: "P e \<Longrightarrow> adds P (emit e)"
  by (simp add: adds_def emit_def final_def)

lemma no_reply [simp]:
  "no_reply (Add_header n v)" "no_reply (Remove_header n)" "no_reply (Add_body b)" "no_reply (Add_file i a l)"
  "\<not> no_reply (Send_reply c r)"
  by (simp_all add: no_reply_def)

lemma adds_header [talk]: "(\<And>n v. P (Add_header n v)) \<Longrightarrow> adds P (AddHeader n v)"
  by (simp add: AddHeader_def talk)

lemma replies_send [talk]: "status \<in> C \<Longrightarrow> replies C (send_reply status reason)"
  by (simp add: replies_def send_reply_def emit_def final_def)

lemma adds_send [talk]: "P (Send_reply status reason) \<Longrightarrow> adds P (send_reply status reason)"
  by (simp add: send_reply_def talk)

lemmas response_defs = AddSecurityHeaders_def SetNoCache_def ClearAuthCookies_def SendText_def
  SendMethodNotAllowed_def

lemma talk_text [talk]:
  "status \<in> C \<Longrightarrow> replies C (SendText status reason body)"
  "405 \<in> C \<Longrightarrow> replies C (SendMethodNotAllowed allowed)"
  by (simp_all add: response_defs talk)

lemma adds_text [talk]:
  assumes "\<And>n v. P (Add_header n v)"
  shows "adds P AddSecurityHeaders" "adds P SetNoCache" "adds P (ClearAuthCookies c)"
    "(\<And>n. P (Remove_header n)) \<Longrightarrow> (\<And>b. P (Add_body b)) \<Longrightarrow> (\<And>c r. P (Send_reply c r)) \<Longrightarrow>
       adds P (SendText status reason body)"
    "(\<And>n. P (Remove_header n)) \<Longrightarrow> (\<And>b. P (Add_body b)) \<Longrightarrow> (\<And>c r. P (Send_reply c r)) \<Longrightarrow>
       adds P (SendMethodNotAllowed allowed)"
  by (simp_all add: response_defs Let_def talk assms)

subsection \<open>Operations that add nothing to the response\<close>

lemma out_more: "os.more t = os.more s \<Longrightarrow> out t = out (s :: 'z service_state_scheme)"
  by (cases s; cases t) simp

lemma mute_more: "(\<And>s r t. run_state m s = (r, t) \<Longrightarrow> os.more t = os.more s) \<Longrightarrow> mute m"
  using out_more run_result_final [of m] unfolding mute_def by blast

lemma mute_server: "(\<And>s r t. run_state m s = (r, t) \<Longrightarrow> out t = out s) \<Longrightarrow> mute m"
  using run_result_final [of m] unfolding mute_def by blast

lemma mute_frame:
  fixes m :: "('z, 'a) svc"
  assumes "\<And>s r t. run_state m s = (r, t) \<Longrightarrow> \<exists>K I. frame K I s t"
  shows "mute m"
proof (rule mute_more)
  fix s :: "'z service_state_scheme" and r t
  assume "run_state m s = (r, t)"
  with assms obtain K I where "frame K I s t" by blast
  then show "os.more t = os.more s" by (rule frame_more)
qed

lemma mute_rel: "state_io_rel (frame {} {}) m \<Longrightarrow> mute m"
  by (rule mute_frame) (blast dest: state_io_relD)

lemma quiet_frame: "quiet s t \<Longrightarrow> frame K I s t"
  by (simp add: quiet_silent silent_frame)

lemma tidy_frame: "tidy s t \<Longrightarrow> frame K I s t"
  by (simp add: tidy_def silent_frame)

lemma extends_frame: "extends s t \<Longrightarrow> \<exists>K I. frame K I s t"
  unfolding extends_def by blast

lemma mute_files [talk]:
  "mute (FileSize f)" "mute (Exists f)" "mute (CreateDirectory f)" "mute (SyncDirectory f)"
  "mute (SetContent f c)" "mute (Compress lib f c q)" "mute (UnCompress lib f g)" "mute (CreateTempFile d p)"
proof -
  show "mute (FileSize f)" "mute (Exists f)" "mute (CreateDirectory f)" "mute (SyncDirectory f)"
    by (rule mute_frame; blast dest: FileSize_run(1) Exists_run(1) CreateDirectory_run(1) SyncDirectory_run
        intro: quiet_frame tidy_frame)+
  have set: "mute (SetContent f c)" for f c
    by (rule mute_frame, erule SetContent_run) (blast intro: quiet_frame)+
  show "mute (SetContent f c)" "mute (Compress lib f c q)" by (simp_all add: set Compress_def)
  show "mute (UnCompress lib f g)" by (rule mute_frame) (blast dest: UnCompress_run(1))
  show "mute (CreateTempFile d p)" by (rule mute_frame, erule CreateTempFile_run) (blast intro: extends_frame)+
qed

lemma commit_more:
  assumes "run_state (CommitNoReplace f g) s = (r, t)"
  shows "os.more t = os.more s"
  using assms
proof (cases rule: CommitNoReplace_run)
  case failed
  then show ?thesis using extends_frame frame_more by blast
qed (simp add: silent_def)

lemma commit_out:
  fixes s :: "'z service_state_scheme"
  assumes "run_state (commit_table E' next') s = (r, t)"
  shows "out t = out s"
  using assms
proof (cases rule: commit_table_run)
  case failed
  then show ?thesis using extends_frame frame_more out_more by blast
next
  case (committed u)
  then have "out u = out s" unfolding replaces_def using frame_more out_more by blast
  with committed(3) show ?thesis by simp
qed

lemma mute_calls [talk]:
  "mute (CommitNoReplace f g)"
  "mute (remove_file p)" "mute (rename_file p q)" "mute (open_rdonly p)" "mute (close fd)" "mute (get_errno)"
  "mute (read_template p)" "mute (stat p)"
proof -
  show "mute (CommitNoReplace f g)" by (rule mute_more) (rule commit_more)
  show "mute (remove_file p)" unfolding remove_file_def
    by (rule mute_more, erule unlink_run) (simp_all add: quiet_def silent_def)
  show "mute (rename_file p q)" by (rule mute_more, erule rename_run) (simp_all add: quiet_def silent_def)
  show "mute (open_rdonly p)" "mute (close fd)" "mute (stat p)"
    by (rule mute_rel, rule fr.rel_open_rdonly fr.rel_close fr.rel_stat)+
  show "mute get_errno" by (simp add: get_errno_def talk)
  have "state_io_rel (frame {} {}) (read_template p)"
    unfolding read_template_def by (intro fr.os_rules)
  then show "mute (read_template p)" by (rule mute_rel)
qed

lemma mute_data [talk]:
  "mute (NewStorageInfo E' a b c)" "mute (Insert E' info)" "mute (Delete_info E' url)" "mute (GetOneByURL url)"
  "mute (GetAll E')"
proof -
  show "mute (NewStorageInfo E' a b c)" "mute (GetOneByURL url)" "mute (GetAll E')"
    by (simp_all add: NewStorageInfo_def LastModifyTime_def LastAccessTime_def GetOneByURL_def GetAll_def talk)
  show "mute (Insert E' info)" by (rule mute_server, erule Insert_run) (auto dest: commit_out)
  show "mute (Delete_info E' url)" by (rule mute_server, erule Delete_run) (auto dest: commit_out)
qed

lemma mute_session [talk]:
  "mute RandomToken" "mute RemoveExpiredLocked" "mute (modify (\<lambda>s. s\<lparr>sessions := g s\<rparr>))"
  "mute (modify (\<lambda>s. s\<lparr>attempts := h s\<rparr>))"
  by (simp_all add: mute_def final_def RandomToken_def RemoveExpiredLocked_def split: list.split)

lemma mute_login [talk]:
  "mute (Create ttl)" "mute (Validate token)" "mute (Remove_session token)" "mute (Allow address)"
  "mute (Failure address)" "mute (Success address)"
  by (simp_all add: Create_def Validate_def Remove_session_def Allow_def Failure_def Success_def talk)

subsection \<open>One reply per request\<close>

lemma replies_guard [talk]: "replies C body \<Longrightarrow> replies C (TempFileGuard path body)"
  by (simp add: TempFileGuard_def talk)

lemma adds_syscall [talk]: "adds P body \<Longrightarrow> adds P (syscall bad body)"
  by (simp add: syscall_def talk split: outcome.split)

lemma adds_file [talk]: "(\<And>i. P (Add_file i offset len)) \<Longrightarrow> adds P (evbuffer_add_file fd offset len)"
  by (simp add: evbuffer_add_file_def talk)

lemma replies_part [talk]: "200 \<in> C \<Longrightarrow> 206 \<in> C \<Longrightarrow> replies C (partial_reply rng)"
  by (simp add: partial_reply_def talk)

lemma replies_download [talk]:
  "{200, 206, 404, 416, 500} \<subseteq> C \<Longrightarrow> replies C (send_file E req info path temporary)"
  by (simp add: send_file_def send_part_def Let_def talk)

lemma replies_upload [talk]:
  "{201, 409, 500} \<subseteq> C \<Longrightarrow> replies C (Upload_checked E req len filename storage_type)"
  by (simp add: Upload_checked_def store_upload_def record_upload_def Let_def talk)

lemma replies_delete [talk]: "{200, 404, 500} \<subseteq> C \<Longrightarrow> replies C (delete_stored E url info)"
  by (simp add: delete_stored_def delete_metadata_def Let_def talk)

lemma mute_Authenticate [talk]: "mute (Authenticate req)"
  by (simp add: Authenticate_def talk)

lemma replies_handlers [talk]:
  "{200, 500} \<subseteq> C \<Longrightarrow> replies C ShowLogin" "{200, 400, 401, 429, 500} \<subseteq> C \<Longrightarrow> replies C (Login E req)"
  "200 \<in> C \<Longrightarrow> replies C (Logout E req)" "{201, 400, 409, 413, 500} \<subseteq> C \<Longrightarrow> replies C (Upload E req)"
  "{200, 400, 404, 500} \<subseteq> C \<Longrightarrow> replies C (Delete E req)" "{200, 500} \<subseteq> C \<Longrightarrow> replies C (ListFiles E)"
  "{200, 206, 404, 416, 500} \<subseteq> C \<Longrightarrow> replies C (Download E req path)"
  by (simp_all add: ShowLogin_def Login_def Logout_def Upload_def Delete_def ListFiles_def Download_def
    Authenticate_def Let_def talk)

lemma replies_request: "replies UNIV (HandleRequest E req)"
  by (simp add: HandleRequest_def dispatch_def require_csrf_def require_method_def Authenticate_def Let_def talk)

subsection \<open>Requests that change nothing\<close>

text \<open>Files, metadata, login attempts and the sessions in force are as before.\<close>

definition untouched :: "'z service_state_scheme \<Rightarrow> 'z service_state_scheme \<Rightarrow> bool" where
  "untouched s t \<longleftrightarrow> node t = node s \<and> inodes t = inodes s \<and> next_ino t = next_ino s \<and> cwd t = cwd s \<and>
     fds t = fds s \<and> next_fd t = next_fd s \<and> table t = table s \<and> storage_file t = storage_file s \<and> attempts t = attempts s \<and>
     random t = random s \<and> now t = now s \<and> (sessions_ok s \<longrightarrow> sessions_ok t \<and> live t = live s)"

lemma live_updates [simp]:
  "live (s\<lparr>tape := ts\<rparr>) = live s" "live (s\<lparr>errno := e\<rparr>) = live s" "live (t\<lparr>out := es\<rparr>) = live t"
  "sessions_ok (s\<lparr>tape := ts\<rparr>) = sessions_ok s" "sessions_ok (s\<lparr>errno := e\<rparr>) = sessions_ok s"
  "sessions_ok (t\<lparr>out := es\<rparr>) = sessions_ok t"
  by (auto simp: live_def sessions_ok_def fun_eq_iff split: option.split)

interpretation un: os_relation untouched
  by unfold_locales (auto simp: untouched_def)

lemma un_emit: "state_io_rel untouched (emit e)"
  by (simp add: emit_def state_io_rel_def untouched_def)

lemma untouched_Validate: "untouched s (final (Validate token) s)"
  using Validate_run [of s token]
  by (auto simp: untouched_def) (auto simp: Validate_def final_def split: option.split)

lemma un_Validate: "state_io_rel untouched (Validate token)"
  by (simp add: state_io_rel_def untouched_Validate [unfolded final_def])

lemma un_SendText: "state_io_rel untouched (SendText status reason body)"
  unfolding SendText_def AddHeader_def send_reply_def by (intro un.os_rules un_emit)

lemma un_SendMethodNotAllowed: "state_io_rel untouched (SendMethodNotAllowed allowed)"
  unfolding SendMethodNotAllowed_def AddHeader_def by (intro un.os_rules un_emit un_SendText)

lemma un_SetNoCache: "state_io_rel untouched SetNoCache"
  unfolding SetNoCache_def AddHeader_def by (intro un.os_rules un_emit)

lemma un_AddSecurityHeaders: "state_io_rel untouched AddSecurityHeaders"
  unfolding AddSecurityHeaders_def AddHeader_def by (intro un.os_rules un_emit)

lemma un_ShowLogin: "state_io_rel untouched ShowLogin"
  unfolding ShowLogin_def AddHeader_def send_reply_def read_template_def
  by (intro un.os_rules un_emit un_SetNoCache un_SendText)

lemma un_Authenticate: "state_io_rel untouched (Authenticate req)"
  unfolding Authenticate_def by (intro un.os_rules un_Validate)

text \<open>The session a request names, if it is in force.\<close>

definition session_of :: "'z service_state_scheme \<Rightarrow> request \<Rightarrow> session_record option" where
  "session_of s req = (case GetCookie (find_header req ''Cookie'') ''session'' of
     None \<Rightarrow> None | Some token \<Rightarrow> live s token)"

definition request_path :: "request \<Rightarrow> string option" where
  "request_path req = (case req_path req of None \<Rightarrow> None | Some raw \<Rightarrow>
     (case UrlDecode (c_str raw) of (ok, path) \<Rightarrow> if ok then Some path else None))"

lemma Authenticate_result:
  assumes "sessions_ok s"
  shows "map_option snd (result (Authenticate req) s) = session_of s req"
  by (simp add: Authenticate_def session_of_def result_bind result_give Validate_run(1) [OF assms] option.map_comp
      option.map_ident comp_def split: option.split)

text \<open>The part of the handler behind the two public paths.\<close>

definition handle_private :: "('j, 'e) service_env_scheme \<Rightarrow> request \<Rightarrow> string \<Rightarrow> ('z, unit) svc" where
  "handle_private E req path = do {
     auth \<leftarrow> Authenticate req;
     case auth of
       None \<Rightarrow>
         if path = ''/'' \<or> IsDownloadPath (conf E) path then do {
           AddHeader ''Location'' ''/login'';
           send_reply 302 ''Redirect'' }
         else SendText 401 ''Unauthorized'' ''authentication required''
     | Some (token, session) \<Rightarrow> dispatch E req path session }"

lemma HandleRequest_private:
  assumes "request_path req = Some path" "path \<noteq> ''/login''" "path \<noteq> ''/api/login''"
  shows "HandleRequest E req = do { AddSecurityHeaders; handle_private E req path }"
  using assms
  by (auto simp: HandleRequest_def request_path_def handle_private_def split: option.splits prod.splits if_splits)


definition is_file :: "event \<Rightarrow> bool" where
  "is_file e \<longleftrightarrow> (case e of Add_file i offset len \<Rightarrow> True | _ \<Rightarrow> False)"

definition no_file :: "event \<Rightarrow> bool" where
  "no_file e \<longleftrightarrow> \<not> is_file e"

lemma no_file [simp]:
  "no_file (Add_header n v)" "no_file (Remove_header n)" "no_file (Add_body b)" "no_file (Send_reply c r)"
  "\<not> no_file (Add_file i a l)"
  by (simp_all add: no_file_def is_file_def)

text \<open>What the client is told: the status of the reply.\<close>

definition status_of :: "'z service_state_scheme \<Rightarrow> int option" where
  "status_of s = (case rev (out s) of Send_reply c r # es \<Rightarrow> Some c | _ \<Rightarrow> None)"

lemma replies_status:
  assumes "replies C m"
  shows "\<exists>c \<in> C. status_of (final m s) = Some c"
proof -
  obtain es c r where "out (final m s) = out s @ es @ [Send_reply c r]" "c \<in> C"
    using assms unfolding replies_def by blast
  then show ?thesis by (simp add: status_of_def)
qed

lemma adds_events:
  assumes "adds P m"
  shows "list_all P (drop (length (out s)) (out (final m s)))"
proof -
  obtain es where "out (final m s) = out s @ es" "list_all P es" using assms unfolding adds_def by blast
  then show ?thesis by simp
qed

lemma adds_final:
  assumes "adds P m" "out t = out s @ es" "list_all P es"
  shows "list_all P (drop (length (out s)) (out (final m t)))"
proof -
  obtain es' where "out (final m t) = out t @ es'" "list_all P es'" using assms(1) unfolding adds_def by blast
  then show ?thesis using assms(2,3) by simp
qed

text \<open>A computation that refuses: it changes nothing, sends no file, and replies with a status in \<open>C\<close>.\<close>

definition refuses :: "int set \<Rightarrow> ('z, unit) svc \<Rightarrow> bool" where
  "refuses C m \<longleftrightarrow> state_io_rel untouched m \<and> adds no_file m \<and> replies C m"

definition refused :: "int set \<Rightarrow> 'z service_state_scheme \<Rightarrow> 'z service_state_scheme \<Rightarrow> bool" where
  "refused C s t \<longleftrightarrow> untouched s t \<and> list_all no_file (drop (length (out s)) (out t)) \<and> (\<exists>c \<in> C. status_of t = Some c)"

lemma refuses_final: "refuses C m \<Longrightarrow> refused C s (final m s)"
  by (simp add: refuses_def refused_def un.rel_final adds_events replies_status)

lemma refuses_SendText: "status \<in> C \<Longrightarrow> refuses C (SendText status reason body)"
  by (simp add: refuses_def un_SendText talk)

lemma refuses_SendMethodNotAllowed: "405 \<in> C \<Longrightarrow> refuses C (SendMethodNotAllowed allowed)"
  by (simp add: refuses_def un_SendMethodNotAllowed talk)

lemma refuses_ShowLogin: "{200, 500} \<subseteq> C \<Longrightarrow> refuses C ShowLogin"
  by (simp add: refuses_def un_ShowLogin talk) (simp add: ShowLogin_def talk)

lemma refuses_if: "(b \<Longrightarrow> refuses C m) \<Longrightarrow> (\<not> b \<Longrightarrow> refuses C n) \<Longrightarrow> refuses C (if b then m else n)"
  by simp

lemma refuses_after:
  assumes "state_io_rel untouched m" "adds no_file m" "adds no_reply m" "\<And>a. refuses C (f a)"
  shows "refuses C (State_Monad.bind m f)"
  using assms unfolding refuses_def by (auto intro: un.rel_bind replies_first adds_bind)

text \<open>An authenticated step: what follows depends on the session the request names.\<close>

lemma refused_after_Authenticate:
  assumes "sessions_ok s" and "\<And>a. map_option snd a = session_of s req \<Longrightarrow> refuses C (f a)"
  shows "refused C s (final (do { AddSecurityHeaders; a \<leftarrow> Authenticate req; f a }) s)"
proof -
  define s1 where "s1 = final AddSecurityHeaders s"
  define s2 where "s2 = final (Authenticate req) s1"
  have u1: "untouched s s1" unfolding s1_def by (rule un.rel_final [OF un_AddSecurityHeaders])
  have u2: "untouched s1 s2" unfolding s2_def by (rule un.rel_final [OF un_Authenticate])
  have live: "live s1 = live s" "sessions_ok s1" using u1 assms(1) by (simp_all add: untouched_def)
  obtain es where o1: "out s1 = out s @ es" "list_all no_file es"
    using adds_text(1) [of no_file] unfolding adds_def s1_def by (metis no_file(1))
  have o2: "out s2 = out s1" unfolding s2_def using mute_Authenticate unfolding mute_def by blast
  have r: "refuses C (f (result (Authenticate req) s1))"
    by (rule assms(2)) (simp only: Authenticate_result [OF live(2)] session_of_def live(1))
  then have "untouched s2 (final (f (result (Authenticate req) s1)) s2)"
    "list_all no_file (drop (length (out s)) (out (final (f (result (Authenticate req) s1)) s2)))"
    "\<exists>c \<in> C. status_of (final (f (result (Authenticate req) s1)) s2) = Some c"
    using o1 o2 by (auto simp: refuses_def un.rel_final intro: adds_final replies_status)
  then show ?thesis using un.trans [OF u1 un.trans [OF u2]]
    by (simp add: refused_def final_bind s1_def [symmetric] s2_def [symmetric])
qed

text \<open>\<^verbatim>\<open>CRYPTO_memcmp\<close> compares its buffers.\<close>

definition memcmp_law :: "('j, 'e) service_env_scheme \<Rightarrow> bool" where
  "memcmp_law E \<longleftrightarrow> (\<forall>a b. length a = length b \<longrightarrow> (memcmp_crypto E a b = 0 \<longleftrightarrow> a = b))"

lemma SecureEqual_iff: "memcmp_law E \<Longrightarrow> SecureEqual E a b \<longleftrightarrow> a = b"
  by (auto simp: memcmp_law_def SecureEqual_def)

lemma ValidateCsrf_iff:
  assumes "memcmp_law E"
  shows "ValidateCsrf E req r \<longleftrightarrow> find_header req ''X-CSRF-Token'' = Some (csrf_token r) \<and>
    GetCookie (find_header req ''Cookie'') ''csrf'' = Some (csrf_token r)"
  by (auto simp: ValidateCsrf_def SecureEqual_iff [OF assms] split: option.split)

lemma HandleRequest_public:
  assumes "path = ''/login'' \<or> path = ''/api/login'' \<and> req_method req \<noteq> POST" "request_path req = Some path"
  shows "HandleRequest E req = do { AddSecurityHeaders;
      if path = ''/login'' then (if req_method req \<noteq> GET then SendMethodNotAllowed ''GET'' else ShowLogin)
      else SendMethodNotAllowed ''POST'' }"
  using assms
  by (auto simp: HandleRequest_def request_path_def require_method_def split: option.splits prod.splits if_splits)

lemma refuses_public:
  assumes "path = ''/login'' \<or> path = ''/api/login'' \<and> req_method req \<noteq> POST" "request_path req = Some path"
    "405 \<in> C" "path = ''/login'' \<Longrightarrow> {200, 500} \<subseteq> C"
  shows "refuses C (HandleRequest E req)"
  unfolding HandleRequest_public [OF assms(1,2)]
  by (intro refuses_after un_AddSecurityHeaders refuses_if refuses_SendMethodNotAllowed refuses_ShowLogin)
     (use assms(3,4) in \<open>auto simp: talk\<close>)

lemma HandleRequest_bad_path:
  "request_path req = None \<Longrightarrow> HandleRequest E req = do { AddSecurityHeaders;
     SendText 400 ''Bad Request'' (if req_path req = None then ''invalid path'' else ''invalid URL encoding'') }"
  by (auto simp: HandleRequest_def request_path_def split: option.splits prod.splits if_splits)

lemma refuses_bad_path:
  assumes "request_path req = None" "400 \<in> C"
  shows "refuses C (HandleRequest E req)"
  unfolding HandleRequest_bad_path [OF assms(1)]
  by (intro refuses_after un_AddSecurityHeaders refuses_SendText assms(2)) (simp_all add: talk)

lemma refuses_login: "302 \<in> C \<Longrightarrow> refuses C (do { AddHeader n v; send_reply 302 reason })"
  unfolding refuses_def AddHeader_def send_reply_def
  by (intro conjI un.rel_bind un_emit) (simp_all add: adds_emit adds_bind, simp add: replies_first adds_emit
      replies_send [unfolded send_reply_def])

subsection \<open>An example environment\<close>

definition ref_service :: "config \<Rightarrow> json service_env" where
  "ref_service c = env.extend (ref_env c)
     (service_env.fields (\<lambda>a b. if a = b then 0 else 1) (\<lambda>password salt n. Some (replicate 32 NUL))
        (\<lambda>s. Some (replicate 32 NUL)) (\<lambda>t. ''today''))"

definition blank_request :: request where
  "blank_request = \<lparr>req_path = Some ''/upload'', req_method = POST, req_header = (\<lambda>n. None), req_body = Some ''hello'',
     req_copyout = (\<lambda>n. Some (take n ''hello'')), req_peer = None\<rparr>"

lemma ref_service_facts [simp]:
  "env.truncate (ref_service c) = ref_env c" "conf (ref_service c) = c" "compressor (ref_service c) = stored_lib"
  "memcmp_law (ref_service c)"
  by (simp_all add: ref_service_def ref_env_def env.defs service_env.defs memcmp_law_def)

definition service_boot :: "(string, session_record) hash_map \<Rightarrow> service_state" where
  "service_boot ss = server_state.extend ((server_boot [])\<lparr>sessions := ss\<rparr>) (service_state.fields [])"

lemma service_boot_fields: "sessions (service_boot ss) = ss" "attempts (service_boot ss) = []" "now (service_boot ss) = 5"
  by (simp_all add: service_boot_def server_boot_def server_state.defs service_state.defs data_state.defs)

definition cookie_request :: request where
  "cookie_request = blank_request\<lparr>req_header := (\<lambda>n. if n = ''Cookie'' then Some ''session=t; csrf=c'' else None)\<rparr>"

lemma cookie_request_facts:
  "request_path cookie_request = Some ''/upload''" "find_header cookie_request ''X-CSRF-Token'' = None"
  "GetCookie (find_header cookie_request ''Cookie'') ''session'' = Some ''t''"
  "request_path blank_request = Some ''/upload''" "GetCookie (find_header blank_request ''Cookie'') ''session'' = None"
  unfolding cookie_request_def blank_request_def find_header_def request_path_def by code_simp+

subsection \<open>Properties\<close>

text \<open>C3. Without a session nothing happens. A request that names no session in force, and is not a login, changes no
  file, no metadata, no login attempt and no session, and no file is sent: it is redirected or refused, except that
  the login page is shown.\<close>

theorem no_session_no_change:
  assumes "sessions_ok s" and "session_of s req = None"
    and "\<not> (request_path req = Some ''/api/login'' \<and> req_method req = POST)"
  shows "refused (if request_path req = Some ''/login'' then {200, 405, 500} else {302, 400, 401, 405})
    s (final (HandleRequest E req) s)"
proof (cases "request_path req")
  case None
  then show ?thesis by (simp add: refuses_final refuses_bad_path)
next
  case (Some path)
  show ?thesis
  proof (cases "path = ''/login'' \<or> path = ''/api/login''")
    case True
    then show ?thesis using Some assms(3) by (intro refuses_final refuses_public [of path]) auto
  next
    case False
    then have ne: "path \<noteq> ''/login''" "path \<noteq> ''/api/login''" by auto
    have "refused {302, 400, 401, 405} s (final (HandleRequest E req) s)"
      unfolding HandleRequest_private [OF Some ne] handle_private_def
      by (rule refused_after_Authenticate [OF assms(1)]) (use assms(2) in \<open>simp add: refuses_login refuses_SendText\<close>)
    then show ?thesis using ne(1) Some by simp
  qed
qed

lemma no_session_no_change_witness:
  "refused {302, 400, 401, 405} (service_boot []) (final (HandleRequest (ref_service shipped) blank_request) (service_boot []))"
  using no_session_no_change [of "service_boot []" blank_request "ref_service shipped"]
  by (simp add: cookie_request_facts session_of_def sessions_ok_def hm_ok_def service_boot_fields)

text \<open>C4. A session alone is not enough to change anything: a request to upload, delete or log out that is not a POST,
  or does not carry the CSRF token of its session both as a header and as a cookie, changes nothing and is refused.\<close>

theorem csrf_required:
  assumes "memcmp_law E" and "sessions_ok s" and "session_of s req = Some r"
    and "request_path req \<in> {Some ''/upload'', Some ''/delete'', Some ''/logout''}"
    and "\<not> (req_method req = POST \<and> find_header req ''X-CSRF-Token'' = Some (csrf_token r) \<and>
      GetCookie (find_header req ''Cookie'') ''csrf'' = Some (csrf_token r))"
  shows "refused {403, 405} s (final (HandleRequest E req) s)"
proof -
  obtain path where path: "request_path req = Some path" "path \<in> {''/upload'', ''/delete'', ''/logout''}"
    using assms(4) by auto
  have guard: "refuses {403, 405} (require_csrf E req r h)" for h
    using assms(5) unfolding require_csrf_def require_method_def
    by (intro refuses_if refuses_SendMethodNotAllowed refuses_SendText)
       (auto simp: ValidateCsrf_iff [OF assms(1)])
  have ne: "path \<noteq> ''/login''" "path \<noteq> ''/api/login''" using path(2) by auto
  have branch: "refuses {403, 405} (case a of None \<Rightarrow> m | Some (token, session) \<Rightarrow> dispatch E req path session)"
    if "map_option snd a = session_of s req" for a :: "(string \<times> session_record) option" and m
    using that path(2) assms(3) guard by (cases a) (auto simp: dispatch_def)
  show ?thesis unfolding HandleRequest_private [OF path(1) ne] handle_private_def
    by (rule refused_after_Authenticate [OF assms(2)]) (rule branch)
qed

lemma csrf_required_witness:
  "refused {403, 405} (service_boot [(''t'', \<lparr>csrf_token = ''c'', expires_at = 9\<rparr>)])
     (final (HandleRequest (ref_service shipped) cookie_request) (service_boot [(''t'', \<lparr>csrf_token = ''c'', expires_at = 9\<rparr>)]))"
  using csrf_required [of "ref_service shipped" "service_boot [(''t'', \<lparr>csrf_token = ''c'', expires_at = 9\<rparr>)]"
      cookie_request "\<lparr>csrf_token = ''c'', expires_at = 9\<rparr>"]
  by (simp add: cookie_request_facts session_of_def sessions_ok_def hm_ok_def service_boot_fields live_def hm_find_def)

text \<open>C21. Every request is answered exactly once: whatever it is, whatever the state of the server and whichever system
  calls fail, the handler sends one reply, and sends it last.\<close>

theorem every_request_one_reply:
  "\<exists>es status reason. out (final (HandleRequest E req) s) = out s @ es @ [Send_reply status reason] \<and>
    list_all no_reply es"
  using replies_request unfolding replies_def by blast

end
