(* ===== verification/Service_Storage.thy ===== *)
theory Service_Storage
  imports Service_Correct
begin

text \<open>
  What uploads, deletions and downloads do to the stored files, under every outcome of the system calls.
\<close>

subsection \<open>Files that are kept\<close>

text \<open>Names outside \<open>K\<close> that denote something still denote it, and the files that existed have their content.\<close>

definition kept :: "string list set \<Rightarrow> 'z data_state_scheme \<Rightarrow> 'z data_state_scheme \<Rightarrow> bool" where
  "kept K s t \<longleftrightarrow> cwd t = cwd s \<and> storage_file t = storage_file s \<and> next_ino s \<le> next_ino t \<and>
     (\<forall>k n. k \<notin> K \<longrightarrow> node s k = Some n \<longrightarrow> node t k = Some n) \<and> (\<forall>i < next_ino s. inodes t i = inodes s i)"

lemma kept_refl [simp]: "kept K s s"
  by (simp add: kept_def)

lemma kept_trans: "kept K s t \<Longrightarrow> kept K t u \<Longrightarrow> kept K s u"
  by (force simp: kept_def)

lemma kept_mono: "kept K s t \<Longrightarrow> K \<subseteq> L \<Longrightarrow> kept L s t"
  by (auto simp: kept_def)

lemma kept_key: "kept K s t \<Longrightarrow> key t p = key s p"
  by (simp add: kept_def key_def)

lemma kept_extends:
  assumes "extends s t"
  shows "kept K s t" and "table t = table s" and "storage_file t = storage_file s"
proof -
  have f: "frame {k. node s k = None} {} s t" using assms by (simp add: extends_def)
  note more = data_more [OF frame_more [OF f]]
  show "kept K s t" using f more frame_node [OF f] by (auto simp: kept_def frame_def)
  show "table t = table s" "storage_file t = storage_file s" using more by simp_all
qed

lemma kept_replaces:
  assumes "replaces k s t"
  shows "kept {k} s t" and "table t = table s" and "storage_file t = storage_file s"
proof -
  have f: "frame ({k. node s k = None} \<union> {k}) {} s t" using assms by (simp add: replaces_def)
  note more = data_more [OF frame_more [OF f]]
  show "kept {k} s t" using f more frame_node [OF f] by (auto simp: kept_def frame_def)
  show "table t = table s" "storage_file t = storage_file s" using more by simp_all
qed

lemma kept_out [simp]:
  "kept K s (t\<lparr>out := es\<rparr>) = kept K s t" "kept K (s\<lparr>out := es\<rparr>) t = kept K s (t :: 'z service_state_scheme)"
  "kept K s' (t'\<lparr>table := tb\<rparr>) = kept K s' t'"
  by (simp_all add: kept_def)

lemma out_simps [simp]:
  "fs_wf (t\<lparr>out := es\<rparr>) = fs_wf t" "lookup (t\<lparr>out := es\<rparr>) p = lookup t p" "key (t\<lparr>out := es\<rparr>) p = key t p"
  "synced E (t\<lparr>out := es\<rparr>) = synced E t" "agrees E (t\<lparr>out := es\<rparr>) = agrees E t"
  by (simp_all add: fs_wf_def lookup_def key_def synced_def agrees_def)

lemma kept_lookup:
  assumes "kept K s t" "lookup s p = Some (File i)" "key s p \<notin> K" "fs_wf s"
  shows "lookup t p = Some (File i)" and "inodes t i = inodes s i"
  using assms by (auto simp: kept_def lookup_def key_def fs_wf_def split: if_splits)

lemma kept_agrees:
  assumes "kept K s t" "table t = table s" "agrees E s" "key s (storage_file s) \<notin> K" "fs_wf s"
  shows "agrees E t"
proof -
  obtain i where i: "lookup s (storage_file s) = Some (File i)" "says E (bytes (inodes s i)) (table s)"
    using assms(3) by (auto simp: agrees_def)
  have "storage_file t = storage_file s" using assms(1) by (simp add: kept_def)
  with kept_lookup [OF assms(1) i(1) assms(4,5)] i(2) assms(2) show ?thesis by (auto simp: agrees_def)
qed

lemma kept_fresh: "kept K s t \<Longrightarrow> node t k = None \<Longrightarrow> k \<notin> K \<Longrightarrow> node s k = None"
  by (cases "node s k") (auto simp: kept_def)

lemma kept_absorb:
  assumes "kept K s t" "kept (insert k K) t u" "node s k = None"
  shows "kept K s u"
proof -
  have "node u k' = Some n" if "k' \<notin> K" "node s k' = Some n" for k' n
    using that assms unfolding kept_def by (cases "k' = k") auto
  then show ?thesis using assms(1,2) by (simp add: kept_def)
qed

lemma quiet_kept: "quiet s t \<Longrightarrow> kept K s t"
  using kept_extends(1) [OF silent_extends [OF quiet_silent]] .

lemma quiet_table: "quiet s t \<Longrightarrow> table t = table s"
  using kept_extends(2) [OF silent_extends [OF quiet_silent]] .

lemma remove_kept:
  assumes "run_state (remove_file p) t = (r, u)" "kept K s t" "node s (key s p) = None \<or> key s p \<in> K" "fs_wf t"
  shows "kept K s u" and "fs_wf u" and "table u = table t"
    and "r \<Longrightarrow> node u = (node t)(key t p := None)" and "\<not> r \<Longrightarrow> node u = node t"
proof -
  have "kept K s u \<and> fs_wf u \<and> table u = table t \<and> (r \<longrightarrow> node u = (node t)(key t p := None)) \<and> (\<not> r \<longrightarrow> node u = node t)"
    using assms(1) unfolding remove_file_def
  proof (cases rule: unlink_run)
    case failed
    then show ?thesis
      using assms(2,4) kept_trans [OF assms(2) quiet_kept] quiet_table [of t u] by (simp add: quiet_wf quiet_eqs)
  next
    case (removed i)
    let ?v = "t\<lparr>node := (node t)(key t p := None)\<rparr>"
    have "key t p \<noteq> []" using removed(2) assms(4) by (auto simp: lookup_def fs_wf_def split: if_splits)
    then have "fs_wf ?v" using assms(4) by (auto simp: fs_wf_def split: if_splits)
    moreover have k: "kept K s ?v" using assms(2,3) kept_key [OF assms(2), of p] by (auto simp: kept_def)
    ultimately show ?thesis
      using removed(1) kept_trans [OF k quiet_kept [OF removed(3)]] quiet_wf [OF removed(3)] quiet_table [OF removed(3)]
        silent_eqs(1) [OF quiet_silent [OF removed(3)]]
      by (auto simp: quiet_eqs)
  qed
  then show "kept K s u" "fs_wf u" "table u = table t" "r \<Longrightarrow> node u = (node t)(key t p := None)" "\<not> r \<Longrightarrow> node u = node t"
    by blast+
qed

subsection \<open>Replies\<close>

lemma run_SendText:
  obtains es where "run_state (SendText c r b) s = ((), s\<lparr>out := out s @ es @ [Send_reply c r]\<rparr>)"
proof -
  have "run_state (SendText c r b) s = ((), s\<lparr>out := out s @
      (Remove_header ''Content-Length'' # (if b \<noteq> [] then [Add_body b, Add_header ''Content-Type'' (c_str ''text/plain;charset=utf-8'')] else [])) @
      [Send_reply c r]\<rparr>)"
    by (simp add: SendText_def emit_def AddHeader_def send_reply_def)
  then show thesis by (rule that)
qed

definition said :: "int \<Rightarrow> 'z service_state_scheme \<Rightarrow> 'z service_state_scheme \<Rightarrow> bool" where
  "said c s t \<longleftrightarrow> (\<exists>es r. t = s\<lparr>out := out s @ es @ [Send_reply c r]\<rparr>)"

lemma SendText_said: "run_state (SendText c r b) s = (x, t) \<Longrightarrow> said c s t"
  using run_SendText [of c r b s] unfolding said_def by (metis prod.inject)

lemma mute_run: "mute m \<Longrightarrow> run_state m s = (r, t) \<Longrightarrow> out t = out s"
  unfolding mute_def final_def by (metis snd_conv)

lemma said_facts:
  assumes "said c s t"
  shows "kept K s t" "table t = table s" "fs_wf t = fs_wf s" "synced E t = synced E s" "status_of t = Some c"
    "lookup t p = lookup s p" "inodes t = inodes s" "node t = node s" "key t p = key s p" "agrees E t = agrees E s"
  using assms by (auto simp: said_def status_of_def)

subsection \<open>Upload\<close>

lemma NewStorageInfo_run:
  assumes "run_state (NewStorageInfo E a f ty) s = (r, t)"
  shows "quiet s t" and "r = Some info \<Longrightarrow> si_path info = f \<and> si_url info = download_prefix (conf E) @ FileName f \<and> si_type info = ty"
proof -
  have "state_io_rel quiet (NewStorageInfo E a f ty)"
    unfolding NewStorageInfo_def FileSize_def LastModifyTime_def LastAccessTime_def
    by (intro qu.os_rules qu.rel_stat)
  from state_io_relD [OF this assms] show "quiet s t" .
  show "si_path info = f \<and> si_url info = download_prefix (conf E) @ FileName f \<and> si_type info = ty" if "r = Some info"
    using assms that by (auto simp: NewStorageInfo_def split: if_splits prod.splits)
qed

text \<open>What is written for an upload.\<close>

definition stored_form :: "('j, 'e) service_env_scheme \<Rightarrow> string \<Rightarrow> string \<Rightarrow> string" where
  "stored_form E storage_type content = (if storage_type = ''low'' then content
     else pack (compressor E) (nat (bundle_format (conf E))) content)"

text \<open>
  The outcome of an upload: the files are as they were, except for the new snapshot in the metadata file; if the metadata
  file said the table before, it does so afterwards; and exactly if the status is 201 the table has the new record, the
  metadata file is a snapshot of it, and the content is under the final name.
\<close>

definition upload_outcome ::
  "('j, 'e) service_env_scheme \<Rightarrow> string \<Rightarrow> string \<Rightarrow> string \<Rightarrow> string \<Rightarrow> 'z service_state_scheme \<Rightarrow> 'z service_state_scheme \<Rightarrow> bool" where
  "upload_outcome E directory filename storage_type content s t \<longleftrightarrow>
     kept {key s (storage_file s)} s t \<and> fs_wf t \<and> (agrees (env.truncate E) s \<longrightarrow> agrees (env.truncate E) t) \<and>
     (if status_of t = Some 201 then synced (env.truncate E) t \<and>
        (\<exists>info i. si_path info = JoinPath directory filename \<and> si_type info = storage_type \<and>
           si_url info = download_prefix (conf E) @ FileName (JoinPath directory filename) \<and>
           hm_find (table s) (si_url info) = None \<and> table t = table s @ [(si_url info, info)] \<and>
           lookup s (JoinPath directory filename) = None \<and>
           lookup t (JoinPath directory filename) = Some (File i) \<and> bytes (inodes t i) = stored_form E storage_type content)
      else table t = table s)"

lemma conf_truncate [simp]: "conf (env.truncate E) = conf E" "json (env.truncate E) = json E"
  "hash_order (env.truncate E) = hash_order E"
  by (simp_all add: env.truncate_def)

lemma tidy_kept:
  assumes "tidy s t"
  shows "kept K s t" and "fs_wf s \<Longrightarrow> fs_wf t" and "table t = table s"
  using assms kept_extends [OF silent_extends] by (auto simp: tidy_def balanced_def)

lemma bind_SendText:
  "State_Monad.bind (SendText c r b) (\<lambda>_. give a) = m \<Longrightarrow> run_state m s = (x, t) \<Longrightarrow> x = a \<and> said c s t"
  using SendText_said [of c r b s] by (auto split: prod.splits)

lemma record_upload_run:
  assumes "run_state (record_upload E final_path ty) s1 = (x, t)"
    and "kept {} s s1" "fs_wf s" "fs_wf s1" "key s final_path \<noteq> key s (storage_file s)" "table s1 = table s"
    and "node s (key s final_path) = None" "lookup s1 final_path = Some (File i)" "bytes (inodes s1 i) = data"
  shows "x" "kept {key s (storage_file s)} s t" "fs_wf t" "agrees (env.truncate E) s \<Longrightarrow> agrees (env.truncate E) t"
    and "if status_of t = Some 201 then
        synced (env.truncate E) t \<and> (\<exists>info. si_path info = final_path \<and> si_type info = ty \<and>
           si_url info = download_prefix (conf E) @ FileName final_path \<and>
           hm_find (table s) (si_url info) = None \<and> table t = table s @ [(si_url info, info)] \<and>
           lookup t final_path = Some (File i) \<and> bytes (inodes t i) = data)
      else table t = table s"
proof -
  let ?m = "key s (storage_file s)"
  define post where "post = (\<lambda>x t. x \<and> kept {?m} s t \<and> fs_wf t \<and> (agrees (env.truncate E) s \<longrightarrow> agrees (env.truncate E) t) \<and>
    (if status_of t = Some 201 then
        synced (env.truncate E) t \<and> (\<exists>info. si_path info = final_path \<and> si_type info = ty \<and>
           si_url info = download_prefix (conf E) @ FileName final_path \<and>
           hm_find (table s) (si_url info) = None \<and> table t = table s @ [(si_url info, info)] \<and>
           lookup t final_path = Some (File i) \<and> bytes (inodes t i) = data)
      else table t = table s))"
  obtain info s2 where ni: "run_state (NewStorageInfo (env.truncate E) final_path final_path ty) s1 = (info, s2)"
    by (rule prod.exhaust)
  have q: "quiet s1 s2" by (rule NewStorageInfo_run(1) [OF ni])
  have k2: "kept {} s s2" "fs_wf s2" "table s2 = table s"
    using kept_trans [OF assms(2) quiet_kept [OF q]] assms(4,6) quiet_table [OF q] by (simp_all add: quiet_wf [OF q])
  have fails: "post True v"
    if "kept {} s a" "fs_wf a" "table a = table s" "run_state (remove_file final_path) a = (r, b)"
      "kept {} b c" "fs_wf b \<Longrightarrow> fs_wf c" "table c = table b" "said st c v" "st \<noteq> 201" for a b c v r st
  proof -
    note rm = remove_kept [OF that(4,1) disjI1 [OF assms(7)] that(2)]
    have k: "kept {} s c" "fs_wf c" "table c = table s"
      using kept_trans [OF rm(1) that(5)] rm(2,3) that(3,6,7) by simp_all
    then have "agrees (env.truncate E) s \<Longrightarrow> agrees (env.truncate E) c" using kept_agrees [OF k(1,3) _ _ assms(3)] by simp
    with k show ?thesis
      using that(9) kept_trans [OF kept_mono [OF k(1)] said_facts(1) [OF that(8)], of "{?m}"]
      by (simp add: post_def said_facts [OF that(8)])
  qed
  have "post x t"
  proof (cases info)
    case None
    obtain r s3 where rm: "run_state (remove_file final_path) s2 = (r, s3)" by (rule prod.exhaust)
    have run: "run_state (do { SendText 500 ''Internal Server Error'' ''cannot read stored file metadata''; give True }) s3 = (x, t)"
      using assms(1) None rm by (simp add: record_upload_def ni)
    note sd = bind_SendText [OF refl run]
    show ?thesis using fails [OF k2 rm kept_refl _ refl conjunct2 [OF sd]] sd by simp
  next
    case (Some j)
    obtain r s3 where ins: "run_state (Insert (env.truncate E) j) s2 = (r, s3)" by (rule prod.exhaust)
    note j = NewStorageInfo_run(2) [OF ni Some]
    show ?thesis
    proof (cases "r = OK")
      case True
      have run: "run_state (do { SendText 201 ''Created'' ''upload successful''; give True }) s3 = (x, t)"
        using assms(1) Some ins True by (simp add: record_upload_def ni)
      have sd: "x" "said 201 s3 t" using bind_SendText [OF refl run] by simp_all
      from ins True obtain u where abs: "hm_find (table s2) (si_url j) = None"
        and u: "replaces (key s2 (storage_file s2)) s2 u" "s3 = u\<lparr>table := table s2 @ [(si_url j, j)]\<rparr>" "balanced s2 u"
          "synced (env.truncate E) s3"
        by (cases rule: Insert_run) (auto elim: commit_table_run)
      have m: "key s2 (storage_file s2) = ?m" using k2(1) kept_key [OF k2(1)] by (simp add: kept_def)
      have ku: "kept {?m} s2 u" using kept_replaces(1) [OF u(1)] m by simp
      have "lookup s2 final_path = Some (File i)" "inodes s2 i = inodes s1 i"
        using assms(8) silent_eqs [OF quiet_silent [OF q]] by simp_all
      moreover have "key s2 final_path \<notin> {?m}"
        using assms(5) kept_key [OF k2(1), of final_path] by simp
      ultimately have "lookup u final_path = Some (File i)" "bytes (inodes u i) = data"
        using kept_lookup [OF ku _ _ k2(2)] assms(9) by auto
      then have "lookup s3 final_path = Some (File i)" "bytes (inodes s3 i) = data" using u(2) by simp_all
      moreover have "kept {?m} s s3" using kept_trans [OF kept_mono [OF k2(1)] ku] u(2) by simp
      moreover have "fs_wf s3" using u(2,3) k2(2) by (simp add: balanced_def)
      ultimately show ?thesis
        using sd(1) u(2,4) synced_agrees [OF u(4)] abs k2(3) j kept_trans [OF _ said_facts(1) [OF sd(2)], of "{?m}" s]
        by (auto simp: post_def said_facts [OF sd(2)])
    next
      case False
      have k3: "kept {} s s3" "fs_wf s3" "table s3 = table s"
        using ins False k2
        by (cases rule: Insert_run; auto elim!: commit_table_run simp: balanced_def
            dest: kept_extends(1) [of _ _ "{}"] intro: kept_trans)+
      obtain r' s4 where rm: "run_state (remove_file final_path) s3 = (r', s4)" by (rule prod.exhaust)
      obtain r'' s5 where sy: "run_state (SyncDirectory (ParentPath final_path)) s4 = (r'', s5)" by (rule prod.exhaust)
      note td = tidy_kept [OF SyncDirectory_run [OF sy]]
      have run: "run_state (do { (if r = ALREADY_EXISTS then SendText 409 ''Conflict'' ''a file with this name already exists''
            else SendText 500 ''Internal Server Error'' ''cannot persist upload metadata''); give True }) s5 = (x, t)"
        using assms(1) Some ins False rm sy by (simp add: record_upload_def ni)
      obtain c where "x" "said c s5 t" "c \<noteq> 201"
      proof (cases "r = ALREADY_EXISTS")
        case True
        then have "x = True \<and> said 409 s5 t"
          by (intro bind_SendText [OF refl run [unfolded if_P [OF True]]])
        then show thesis using that [of 409] by simp
      next
        case False
        then have "x = True \<and> said 500 s5 t"
          by (intro bind_SendText [OF refl run [unfolded if_not_P [OF False]]])
        then show thesis using that [of 500] by simp
      qed
      then show ?thesis using fails [OF k3 rm td \<open>said c s5 t\<close>] by simp
    qed
  qed
  then show "x" "kept {?m} s t" "fs_wf t" "agrees (env.truncate E) s \<Longrightarrow> agrees (env.truncate E) t"
    "if status_of t = Some 201 then
        synced (env.truncate E) t \<and> (\<exists>info. si_path info = final_path \<and> si_type info = ty \<and>
           si_url info = download_prefix (conf E) @ FileName final_path \<and>
           hm_find (table s) (si_url info) = None \<and> table t = table s @ [(si_url info, info)] \<and>
           lookup t final_path = Some (File i) \<and> bytes (inodes t i) = data)
      else table t = table s"
    by (simp_all add: post_def)
qed

text \<open>A name that is not that of the metadata file, or the metadata file is there already, so that the name is taken.\<close>

definition spared :: "'z data_state_scheme \<Rightarrow> string \<Rightarrow> bool" where
  "spared s p \<longleftrightarrow> (node s (key s (storage_file s)) = None \<longrightarrow> key s p \<noteq> key s (storage_file s))"

lemma store_upload_record:
  "store_upload E directory filename ty content p = do {
     stored \<leftarrow> SetContent p (stored_form E ty content);
     if \<not> stored then do { SendText 500 ''Internal Server Error'' ''cannot store upload''; give False }
     else do {
       committed \<leftarrow> CommitNoReplace p (JoinPath directory filename);
       if \<not> committed then do {
         saved_errno \<leftarrow> get_errno;
         (if saved_errno = EEXIST then SendText 409 ''Conflict'' ''a file with this name already exists''
          else SendText 500 ''Internal Server Error'' ''cannot commit upload'');
         give False }
       else record_upload E (JoinPath directory filename) ty } }"
  by (simp add: store_upload_def stored_form_def Compress_def Let_def cong: if_cong)

lemma SetContent_fresh:
  assumes "run_state (SetContent p data) s1 = (r, t)" "kept K s s1" "fs_wf s1" "lookup s1 p = Some (File i)" "next_ino s \<le> i"
  shows "kept K s t" "fs_wf t" "table t = table s1" "node t = node s1" "lookup t p = Some (File i)" "key t q = key s1 q"
    and "r \<Longrightarrow> bytes (inodes t i) = data"
proof -
  have tg: "target s1 p = i" "made s1 p = {}" using assms(4) by (simp_all add: target_def made_def)
  have frame: "kept K s t \<and> fs_wf t \<and> table t = table s1 \<and> node t = node s1 \<and> key t q = key s1 q"
    if "frame {} {i} s1 t" "balanced s1 t" "node t = node s1"
    using that assms(2,3,5) data_more [OF frame_more [OF that(1)]]
    by (auto simp: kept_def frame_def balanced_def key_def)
  have "kept K s t \<and> fs_wf t \<and> table t = table s1 \<and> node t = node s1 \<and> key t q = key s1 q \<and>
      lookup t p = Some (File i) \<and> (r \<longrightarrow> bytes (inodes t i) = data)"
    using assms(1)
  proof (cases rule: SetContent_run)
    case failed
    then show ?thesis
      using assms(2-4) kept_trans [OF assms(2) quiet_kept [OF failed(2)]] quiet_table [OF failed(2)]
      by (simp add: quiet_wf quiet_eqs)
  next
    case stopped
    have "frame {} {i} s1 t" "node t = node s1" using stopped(2,5) assms(4) unfolding tg by simp_all
    then show ?thesis using frame [OF _ stopped(4)] stopped(1,3) unfolding tg by blast
  next
    case stored
    have "frame {} {i} s1 t" "node t = node s1" using stored(2,6) assms(4) unfolding tg by simp_all
    then show ?thesis using frame [OF _ stored(4)] stored(3,5) unfolding tg by blast
  qed
  then show "kept K s t" "fs_wf t" "table t = table s1" "node t = node s1" "lookup t p = Some (File i)"
    "key t q = key s1 q" "r \<Longrightarrow> bytes (inodes t i) = data"
    by blast+
qed

lemma upload_outcome_refused:
  assumes "kept {} s a" "fs_wf a" "table a = table s" "fs_wf s" "said c a t" "c \<noteq> 201"
  shows "upload_outcome E d f ty content s t" and "kept {} s t"
proof -
  have "agrees (env.truncate E) s \<Longrightarrow> agrees (env.truncate E) a" using kept_agrees [OF assms(1,3) _ _ assms(4)] by simp
  moreover have k: "kept {} s t" using kept_trans [OF assms(1) said_facts(1) [OF assms(5)]] .
  ultimately show "upload_outcome E d f ty content s t"
    using assms(2,3,6) kept_mono [OF k] by (simp add: upload_outcome_def said_facts [OF assms(5)])
  show "kept {} s t" by (rule k)
qed

text \<open>The guard removes the temporary file without disturbing the outcome.\<close>

lemma upload_outcome_guard:
  assumes "upload_outcome E d f ty content s t" "kept {} s t" "table t = table s" "status_of t \<noteq> Some 201"
    "node s (key s p) = None" "run_state (remove_file p) t = (r, u)" "fs_wf s"
  shows "upload_outcome E d f ty content s u"
proof -
  note rm = remove_kept [OF assms(6,2) disjI1 [OF assms(5)]]
  have wf: "fs_wf t" using assms(1) by (simp add: upload_outcome_def)
  have "agrees (env.truncate E) s \<Longrightarrow> agrees (env.truncate E) u"
    using kept_agrees [OF rm(1) [OF wf] _ _ _ assms(7)] rm(3) [OF wf] assms(3) by simp
  moreover have "status_of u = status_of t"
    using mute_run [OF mute_calls(2) assms(6)] by (simp add: status_of_def)
  ultimately show ?thesis
    using rm(2,3) [OF wf] assms(3,4) kept_mono [OF rm(1) [OF wf]] by (simp add: upload_outcome_def)
qed

lemma store_upload_run:
  assumes "run_state (store_upload E d f ty content p) s1 = (x, t)"
    and "kept {} s s1" "fs_wf s" "fs_wf s1" "spared s (JoinPath d f)" "table s1 = table s"
    and "node s (key s p) = None" "lookup s1 p = Some (File i)" "next_ino s \<le> i"
  shows "upload_outcome E d f ty content s t"
    and "\<not> x \<Longrightarrow> kept {} s t \<and> table t = table s \<and> status_of t \<noteq> Some 201"
proof -
  let ?final = "JoinPath d f"
  obtain b1 s2 where set: "run_state (SetContent p (stored_form E ty content)) s1 = (b1, s2)" by (rule prod.exhaust)
  note c = SetContent_fresh [OF set assms(2,4,8,9)]
  have t2: "table s2 = table s" using c(3) assms(6) by simp
  have refusal: "upload_outcome E d f ty content s t \<and> (\<not> x \<longrightarrow> kept {} s t \<and> table t = table s \<and> status_of t \<noteq> Some 201)"
    if "kept {} s a" "fs_wf a" "table a = table s" "said n a t" "n \<noteq> 201" for a n
    using upload_outcome_refused [OF that(1-3) assms(3) that(4,5)] that said_facts [OF that(4)] by simp
  have "upload_outcome E d f ty content s t \<and> (\<not> x \<longrightarrow> kept {} s t \<and> table t = table s \<and> status_of t \<noteq> Some 201)"
  proof (cases b1)
    case False
    have run: "run_state (do { SendText 500 ''Internal Server Error'' ''cannot store upload''; give False }) s2 = (x, t)"
      using assms(1) set False unfolding store_upload_record by simp
    from refusal [OF c(1,2) t2 conjunct2 [OF bind_SendText [OF refl run]]] show ?thesis by simp
  next
    case True
    obtain b2 s3 where co: "run_state (CommitNoReplace p ?final) s2 = (b2, s3)" by (rule prod.exhaust)
    from co show ?thesis
    proof (cases rule: CommitNoReplace_run)
      case failed
      have k3: "kept {} s s3" "fs_wf s3" "table s3 = table s"
        using kept_trans [OF c(1) kept_extends(1) [OF failed(2)]] failed(3) c(2) kept_extends(2) [OF failed(2)] t2
        by (simp_all add: balanced_def)
      have run: "run_state (do { (if errno s3 = EEXIST then SendText 409 ''Conflict'' ''a file with this name already exists''
          else SendText 500 ''Internal Server Error'' ''cannot commit upload''); give False }) s3 = (x, t)"
        using assms(1) set True co failed(1) unfolding store_upload_record by (simp add: get_errno_def)
      show ?thesis
      proof (cases "errno s3 = EEXIST")
        case True
        from refusal [OF k3 conjunct2 [OF bind_SendText [OF refl run [unfolded if_P [OF True]]]]] show ?thesis by simp
      next
        case False
        from refusal [OF k3 conjunct2 [OF bind_SendText [OF refl run [unfolded if_not_P [OF False]]]]] show ?thesis by simp
      qed
    next
      case (committed j)
      have j: "j = i" using committed(2) c(5) by simp
      let ?v = "s2\<lparr>node := (node s2)(key s2 ?final \<mapsto> File i, key s2 p := None)\<rparr>"
      have ks: "key s2 q = key s q" for q by (rule kept_key [OF c(1)])
      have fresh: "node s (key s ?final) = None"
        using committed(3,4) kept_fresh [OF c(1)] by (simp add: lookup_def parent_exists_def ks split: if_splits)
      have ne: "key s2 p \<noteq> key s2 ?final"
        using committed(3,4) c(5) by (auto simp: lookup_def parent_exists_def split: if_splits)
      have "kept {} s ?v" using c(1) fresh assms(7) by (auto simp: kept_def ks)
      moreover have "silent ?v s3" using committed(5) j by simp
      ultimately have k3: "kept {} s s3" "table s3 = table s"
        using kept_trans kept_extends [OF silent_extends] t2 by fastforce+
      have "fs_wf s3" using committed(6) c(2) by (simp add: balanced_def)
      have l3: "lookup s3 ?final = Some (File i)" "bytes (inodes s3 i) = stored_form E ty content"
        using silent_eqs [OF \<open>silent ?v s3\<close>] ne committed(4) c(7) [OF True]
        by (auto simp: lookup_def key_def parent_exists_def split: if_splits)
      have run: "run_state (record_upload E ?final ty) s3 = (x, t)"
        using assms(1) set True co committed(1) unfolding store_upload_record by simp
      have "key s ?final \<noteq> key s (storage_file s)" using assms(5) fresh by (auto simp: spared_def)
      note r = record_upload_run [OF run k3(1) assms(3) \<open>fs_wf s3\<close> this k3(2) fresh l3]
      have "lookup s ?final = None" using fresh by (simp add: lookup_def)
      with r show ?thesis unfolding upload_outcome_def by (auto split: if_splits)
    qed
  qed
  then show "upload_outcome E d f ty content s t" "\<not> x \<Longrightarrow> kept {} s t \<and> table t = table s \<and> status_of t \<noteq> Some 201"
    by blast+
qed

lemma run_guard:
  assumes "run_state (TempFileGuard p body) s = (x, t)" "run_state body s = (released, u)" "p \<noteq> []"
  obtains (kept_it) "released" "t = u" | (removed) r where "\<not> released" "run_state (remove_file p) u = (r, t)"
proof (cases released)
  case True
  then show thesis using assms kept_it by (simp add: TempFileGuard_def)
next
  case False
  obtain r v where rm: "run_state (remove_file p) u = (r, v)" by (rule prod.exhaust)
  then have "t = v" using assms False by (simp add: TempFileGuard_def)
  with rm False show thesis using removed by blast
qed

lemma Upload_checked_run:
  assumes "run_state (Upload_checked E req len f ty) s = (x, t)" "fs_wf s" "spared s (JoinPath (storage_dir (conf E) ty) f)"
    and "ty = ''low'' \<or> ty = ''deep''"
  shows "upload_outcome E (storage_dir (conf E) ty) f ty (the (req_copyout req len)) s t"
proof -
  let ?d = "storage_dir (conf E) ty" and ?content = "the (req_copyout req len)"
  have dir: "(if ty = ''low'' then low_storage_dir (conf E) else deep_storage_dir (conf E)) = ?d"
    using assms(4) by (auto simp: storage_dir_def)
  have refusal: "upload_outcome E ?d f ty ?content s t"
    if "kept {} s a" "fs_wf a" "table a = table s" "run_state (SendText n r b) a = (x, t)" "n \<noteq> 201" for a n r b
    by (rule upload_outcome_refused(1) [OF that(1-3) assms(2) SendText_said [OF that(4)] that(5)])
  note run = assms(1) [unfolded Upload_checked_def dir Let_def]
  show ?thesis
  proof (cases "hm_find (table s) (download_prefix (conf E) @ f)")
    case (Some old)
    with run refusal [OF kept_refl assms(2) refl] show ?thesis by (simp add: GetOneByURL_def)
  next
    case None
    obtain m s1 where mk: "run_state (CreateDirectory ?d) s = (m, s1)" by (rule prod.exhaust)
    note c = CreateDirectory_run [OF mk]
    have e1: "extends s s1" using c(1) by (rule frame_extends) simp
    have k1: "kept {} s s1" "fs_wf s1" "table s1 = table s"
      using kept_extends [OF e1] c(2) assms(2) by (simp_all add: balanced_def)
    show ?thesis
    proof (cases "m \<and> (\<exists>content. req_copyout req len = Some content \<and> length content = len)")
      case False
      with run None mk refusal [OF k1] show ?thesis by (auto simp: GetOneByURL_def split: if_splits option.splits)
    next
      case True
      obtain r s2 where tm: "run_state (CreateTempFile ?d ''.upload-'') s1 = (r, s2)" by (rule prod.exhaust)
      from tm show ?thesis
      proof (cases rule: CreateTempFile_run)
        case failed
        have "kept {} s s2" "fs_wf s2" "table s2 = table s"
          using kept_trans [OF k1(1) kept_extends(1) [OF failed(2)]] kept_extends(2) [OF failed(2)] failed(3) k1
          by (simp_all add: balanced_def)
        from refusal [OF this] run None mk True tm failed(1) show ?thesis by (auto simp: GetOneByURL_def)
      next
        case (created p i)
        have k2: "kept {} s s2" "fs_wf s2" "table s2 = table s"
          using kept_trans [OF k1(1) kept_extends(1) [OF created(2)]] kept_extends(2) [OF created(2)] created(3) k1
          by (simp_all add: balanced_def)
        have fresh: "node s (key s p) = None"
          using kept_fresh [OF k1(1)] created(4) kept_key [OF k1(1), of p] by simp
        have "p \<noteq> []" using created(5) by (auto simp: lookup_def c_str_def)
        have ino: "next_ino s \<le> i" using k1(1) created(6) by (simp add: kept_def)
        obtain y s3 where st: "run_state (store_upload E ?d f ty ?content p) s2 = (y, s3)" by (rule prod.exhaust)
        note o = store_upload_run [OF st k2(1) assms(2) k2(2) assms(3) k2(3) fresh created(5) ino]
        have "run_state (TempFileGuard p (store_upload E ?d f ty ?content p)) s2 = (x, t)"
          using run None mk True tm created(1) by (auto simp: GetOneByURL_def)
        from this st \<open>p \<noteq> []\<close> show ?thesis
        proof (cases rule: run_guard)
          case kept_it
          with o(1) show ?thesis by simp
        next
          case (removed q)
          with o upload_outcome_guard [OF o(1) _ _ _ fresh removed(2) assms(2)] show ?thesis by blast
        qed
      qed
    qed
  qed
qed

text \<open>The conditions an upload has to meet.\<close>

definition upload_ok :: "config \<Rightarrow> request \<Rightarrow> bool" where
  "upload_ok c req \<longleftrightarrow>
     (case (req_body req, find_header req ''FileName'', find_header req ''StorageType'') of
        (Some input, Some name, Some type) \<Rightarrow>
          input \<noteq> [] \<and> length input \<le> max_upload_size c \<and> fst (base64_decode name) \<and>
          IsSafeFileName (snd (base64_decode name)) \<and> (type = ''low'' \<or> type = ''deep'')
      | _ \<Rightarrow> False)"

definition upload_type :: "request \<Rightarrow> string" where
  "upload_type req = the (find_header req ''StorageType'')"

definition upload_name :: "request \<Rightarrow> string" where
  "upload_name req = snd (base64_decode (the (find_header req ''FileName'')))"

definition upload_content :: "request \<Rightarrow> string" where
  "upload_content req = the (req_copyout req (length (the (req_body req))))"

lemma Upload_run:
  assumes run: "run_state (Upload E req) s = (x, t)"
  obtains (refused) n where "n \<noteq> 201" "said n s t"
  | (checked) "upload_ok (conf E) req"
      "run_state (Upload_checked E req (length (the (req_body req))) (upload_name req) (upload_type req)) s = (x, t)"
proof -
  have bad: thesis if "run_state (SendText n r b) s = (x, t)" "n = 400 \<or> n = 413" for n r b
    using that by (intro refused [OF _ SendText_said [OF that(1)]]) auto
  note run = run [unfolded Upload_def]
  show thesis
  proof (cases "req_body req")
    case None
    show thesis by (rule bad [of 400]) (use run None in simp_all)
  next
    case (Some input)
    note run = run [unfolded Some option.case]
    show thesis
    proof (cases "length input = 0 \<or> max_upload_size (conf E) < length input")
      case True
      then show thesis using run bad by (simp split: if_splits)
    next
      case size: False
      show thesis
      proof (cases "find_header req ''FileName''")
        case None
        show thesis by (rule bad [of 400]) (use run size None in simp_all)
      next
        case name: (Some h)
        obtain ok f where dec: "base64_decode h = (ok, f)" by (rule prod.exhaust)
        show thesis
        proof (cases "length h = 0 \<or> 1024 < length h \<or> \<not> ok \<or> \<not> IsSafeFileName f")
          case True
          then show thesis using run size name dec bad by (simp split: if_splits)
        next
          case good: False
          show thesis
          proof (cases "find_header req ''StorageType''")
            case None
            show thesis by (rule bad [of 400]) (use run size name dec good None in simp_all)
          next
            case type: (Some ty)
            show thesis
            proof (cases "ty \<noteq> ''low'' \<and> ty \<noteq> ''deep''")
              case True
              show thesis by (rule bad [of 400]) (use run size name dec good type True in simp_all)
            next
              case False
              show thesis
              proof (rule checked)
                show "upload_ok (conf E) req"
                  using size name dec good type False Some by (simp add: upload_ok_def)
                show "run_state (Upload_checked E req (length (the (req_body req))) (upload_name req) (upload_type req)) s = (x, t)"
                  using run size name dec good type Some
                  by (simp add: upload_name_def upload_type_def if_not_P [OF False])
              qed
            qed
          qed
        qed
      qed
    qed
  qed
qed

subsection \<open>Delete\<close>

lemma remove_agrees:
  assumes "run_state (remove_file p) t = (r, u)" "agrees E t" "fs_wf t" "key t p \<noteq> key t (storage_file t)"
  shows "agrees E u"
proof -
  note rm = remove_kept [OF assms(1) kept_refl [of "{key t p}" t] disjI2 assms(3)]
  show ?thesis using kept_agrees [OF rm(1) rm(3) assms(2) _ assms(3)] assms(4) by simp
qed

lemma rename_kept:
  assumes "run_state (rename_file a b) s = (r, t)" "fs_wf s"
  shows "kept {key s a, key s b} s t" "fs_wf t" "table t = table s"
    and "lookup s a = Some (File i) \<Longrightarrow> \<exists>k. node t k = Some (File i)"
    and "r \<Longrightarrow> lookup s b \<noteq> lookup s a \<Longrightarrow> lookup s a = Some (File i) \<Longrightarrow>
      node t (key s b) = Some (File i) \<and> key s b \<noteq> key s a"
    and "\<not> r \<Longrightarrow> node t = node s"
proof -
  have "kept {key s a, key s b} s t \<and> fs_wf t \<and> table t = table s \<and>
      (lookup s a = Some (File i) \<longrightarrow> (\<exists>k. node t k = Some (File i))) \<and>
      (r \<longrightarrow> lookup s b \<noteq> lookup s a \<longrightarrow> lookup s a = Some (File i) \<longrightarrow> node t (key s b) = Some (File i) \<and> key s b \<noteq> key s a) \<and>
      (\<not> r \<longrightarrow> node t = node s)"
    using assms(1)
  proof (cases rule: rename_run)
    case failed
    then show ?thesis
      using assms(2) quiet_kept [OF failed(2)] quiet_table [OF failed(2)]
      by (auto simp: quiet_wf quiet_eqs lookup_def split: if_splits)
  next
    case (same j)
    then show ?thesis
      using assms(2) quiet_kept [OF same(4)] quiet_table [OF same(4)]
      by (auto simp: quiet_wf quiet_eqs lookup_def split: if_splits)
  next
    case (moved j)
    let ?v = "s\<lparr>node := (node s)(key s b \<mapsto> File j, key s a := None)\<rparr>"
    have ne: "key s b \<noteq> key s a" "key s a \<noteq> []" "key s b \<noteq> []"
      using moved(2-5) assms(2) by (auto simp: lookup_def parent_exists_def fs_wf_def split: if_splits)
    have "j < next_ino s" using moved(2) assms(2) by (auto simp: lookup_def fs_wf_def split: if_splits)
    then have "fs_wf ?v" using assms(2) ne by (auto simp: fs_wf_def split: if_splits)
    moreover have "kept {key s a, key s b} s ?v" by (auto simp: kept_def)
    ultimately show ?thesis
      using ne moved(1,2) kept_trans [OF _ quiet_kept [OF moved(6)]] quiet_table [OF moved(6)] quiet_wf [OF moved(6)]
        silent_eqs(1) [OF quiet_silent [OF moved(6)]]
      by auto
  qed
  then show "kept {key s a, key s b} s t" "fs_wf t" "table t = table s"
    "lookup s a = Some (File i) \<Longrightarrow> \<exists>k. node t k = Some (File i)"
    "r \<Longrightarrow> lookup s b \<noteq> lookup s a \<Longrightarrow> lookup s a = Some (File i) \<Longrightarrow> node t (key s b) = Some (File i) \<and> key s b \<noteq> key s a"
    "\<not> r \<Longrightarrow> node t = node s"
    by blast+
qed

text \<open>
  The outcome of a deletion: all other files are as they were, metadata in memory and on disk agree, and unless the
  status is 200 no record is gone and the file still exists, under its name or the name it was moved to.
\<close>

definition delete_outcome ::
  "('j, 'e) service_env_scheme \<Rightarrow> string \<Rightarrow> storage_info \<Rightarrow> 'z service_state_scheme \<Rightarrow> 'z service_state_scheme \<Rightarrow> bool" where
  "delete_outcome E url info s t \<longleftrightarrow>
     kept {key s (storage_file s), key s (si_path info)} s t \<and> fs_wf t \<and> agrees (env.truncate E) t \<and>
     (if status_of t = Some 200 then table t = hm_erase url (table s)
      else table t = table s \<and>
        (\<forall>i. lookup s (si_path info) = Some (File i) \<longrightarrow> (\<exists>k. node t k = Some (File i))))"

lemma delete_outcome_refused:
  assumes "kept {key s (si_path info)} s a" "fs_wf a" "agrees (env.truncate E) a" "table a = table s" "said n a t" "n \<noteq> 200"
    and "\<And>i. lookup s (si_path info) = Some (File i) \<Longrightarrow> \<exists>k. node a k = Some (File i)"
  shows "delete_outcome E url info s t"
  using assms kept_trans [OF kept_mono [OF assms(1)] said_facts(1) [OF assms(5)]]
  by (auto simp: delete_outcome_def said_facts [OF assms(5)])

text \<open>The metadata step, with the file under \<open>trash\<close> or still under its name.\<close>

lemma delete_metadata_run:
  assumes "run_state (delete_metadata E url info trash) s4 = (x, t)"
    and "kept {key s (si_path info)} s s4" "fs_wf s4" "agrees (env.truncate E) s4" "table s4 = table s"
    and "key s (si_path info) \<noteq> key s (storage_file s)"
    and "\<And>i. lookup s (si_path info) = Some (File i) \<Longrightarrow>
      lookup s4 (case trash of None \<Rightarrow> si_path info | Some p \<Rightarrow> p) = Some (File i)"
    and "\<And>p. trash = Some p \<Longrightarrow> node s (key s p) = None \<and> key s p \<noteq> key s (storage_file s)"
  shows "delete_outcome E url info s t"
    and "x \<or> status_of t = Some 200"
proof -
  let ?m = "key s (storage_file s)" and ?k = "key s (si_path info)"
  have ks: "key s4 q = key s q" for q by (rule kept_key [OF assms(2)])
  have sf: "storage_file s4 = storage_file s" using assms(2) by (simp add: kept_def)
  obtain r s5 where del: "run_state (Delete_info (env.truncate E) url) s4 = (r, s5)" by (rule prod.exhaust)
  have "delete_outcome E url info s t \<and> (x \<or> status_of t = Some 200)"
  proof (cases "r = OK")
    case True
    from del True obtain u where u: "replaces ?m s4 u" "s5 = u\<lparr>table := hm_erase url (table s4)\<rparr>" "balanced s4 u"
        "agrees (env.truncate E) s5"
      by (cases rule: Delete_run) (auto elim!: commit_table_run dest: synced_agrees simp: ks sf)
    have k5: "kept {?m, ?k} s s5"
      using kept_trans [OF kept_mono [OF assms(2)] kept_mono [OF kept_replaces(1) [OF u(1)]], of "{?m, ?k}"] u(2) by simp
    have wf5: "fs_wf s5" "table s5 = hm_erase url (table s)" using u(2,3) assms(3,5) by (simp_all add: balanced_def)
    have sf5: "key s5 (storage_file s5) = ?m" "key s5 q = key s q" for q
      using k5 kept_key [OF k5] by (simp_all add: kept_def)
    obtain released s6 where rm: "(case trash of None \<Rightarrow> (False, s5) | Some p \<Rightarrow> run_state (remove_file p) s5) = (released, s6)"
      by (rule prod.exhaust)
    have s6: "kept {?m, ?k} s s6 \<and> fs_wf s6 \<and> table s6 = table s5 \<and> agrees (env.truncate E) s6"
    proof (cases trash)
      case None
      then show ?thesis using rm k5 wf5 u(4) by simp
    next
      case (Some p)
      then have rmp: "run_state (remove_file p) s5 = (released, s6)" using rm by simp
      show ?thesis
        using remove_kept [OF rmp k5 disjI1 wf5(1)] remove_agrees [OF rmp u(4) wf5(1)] assms(8) [OF Some] sf5 by simp
    qed
    have run: "run_state (do { SendText 200 ''OK'' ''delete successful''; give released }) s6 = (x, t)"
      using assms(1) del True rm by (cases trash) (simp_all add: delete_metadata_def)
    note sd = conjunct2 [OF bind_SendText [OF refl run]]
    show ?thesis using s6 wf5(2) kept_trans [OF _ said_facts(1) [OF sd], of "{?m, ?k}" s]
      by (simp add: delete_outcome_def said_facts [OF sd])
  next
    case False
    have "kept {} s4 s5 \<and> fs_wf s5 \<and> table s5 = table s4"
      using del False assms(3)
      by (cases rule: Delete_run) (auto elim!: commit_table_run simp: balanced_def kept_extends)
    then have k5: "kept {?k} s s5" "fs_wf s5" "table s5 = table s" "kept {} s4 s5"
      using kept_trans [OF assms(2) kept_mono] assms(5) by auto
    have sy5: "agrees (env.truncate E) s5" using kept_agrees [OF k5(4) _ assms(4) _ assms(3)] k5(3) assms(5) by simp
    have sf5: "key s5 (storage_file s5) = ?m" "key s5 q = key s q" for q
      using k5(1) kept_key [OF k5(1)] by (simp_all add: kept_def)
    have there: "lookup s5 (case trash of None \<Rightarrow> si_path info | Some p \<Rightarrow> p) = Some (File i)"
      if "lookup s (si_path info) = Some (File i)" for i
      using kept_lookup(1) [OF k5(4) assms(7) [OF that] _ assms(3)] by simp
    obtain b s6 where mv: "(case trash of None \<Rightarrow> (False, s5) | Some p \<Rightarrow> run_state (rename_file p (si_path info)) s5) = (b, s6)"
      by (rule prod.exhaust)
    have s6: "kept {?k} s s6 \<and> fs_wf s6 \<and> table s6 = table s \<and> agrees (env.truncate E) s6 \<and>
      (\<forall>i. lookup s (si_path info) = Some (File i) \<longrightarrow> (\<exists>k. node s6 k = Some (File i)))"
    proof (cases trash)
      case None
      then show ?thesis using mv k5 sy5 there by (auto simp: lookup_def split: if_splits)
    next
      case (Some p)
      then have mvp: "run_state (rename_file p (si_path info)) s5 = (b, s6)" using mv by simp
      note rn = rename_kept [OF mvp k5(2)]
      note p = assms(8) [OF Some]
      have k: "kept {key s p, ?k} s5 s6" using rn(1) by (simp add: sf5)
      have "kept {?k} s s6"
        by (rule kept_absorb [OF k5(1) k]) (use p in simp)
      moreover have "agrees (env.truncate E) s6"
        by (rule kept_agrees [OF rn(1,3) sy5 _ k5(2)]) (use p assms(6) k5(1) in \<open>auto simp: sf5(2) kept_def\<close>)
      ultimately show ?thesis using rn(2,3) k5(3) rn(4) there Some by simp
    qed
    obtain n where n: "n = (404::int) \<or> n = 500" and run: "\<exists>c b. run_state (do { SendText n c b; give True }) s6 = (x, t)"
      using assms(1) del False mv by (cases trash; cases "r = NOT_FOUND") (auto simp: delete_metadata_def)
    obtain c b where "run_state (do { SendText n c b; give True }) s6 = (x, t)" using run by blast
    note sd = bind_SendText [OF refl this]
    have "n \<noteq> 200" using n by auto
    with s6 sd show ?thesis
      using delete_outcome_refused [of s info s6 E n t url] by simp
  qed
  then show "delete_outcome E url info s t" "x \<or> status_of t = Some 200" by blast+
qed

lemma delete_stored_run:
  assumes "run_state (delete_stored E url info) s = (x, t)" "fs_wf s" "agrees (env.truncate E) s"
    and "key s (si_path info) \<noteq> key s (storage_file s)"
  shows "delete_outcome E url info s t"
proof -
  let ?m = "key s (storage_file s)" and ?k = "key s (si_path info)" and ?p = "si_path info"
  have refusal: "delete_outcome E url info s t"
    if "kept {} s a" "fs_wf a" "table a = table s" "run_state (SendText 500 r b) a = (x, t)" for a r b
  proof (rule delete_outcome_refused [OF kept_mono [OF that(1)] that(2) _ that(3) SendText_said [OF that(4)]])
    show "agrees (env.truncate E) a" using kept_agrees [OF that(1,3) assms(3) _ assms(2)] by simp
    fix i assume "lookup s ?p = Some (File i)"
    from kept_lookup(1) [OF that(1) this _ assms(2)] show "\<exists>k. node a k = Some (File i)"
      by (auto simp: lookup_def split: if_splits)
  qed simp_all
  obtain e s1 where ex: "run_state (Exists ?p) s = (e, s1)" by (rule prod.exhaust)
  have q1: "quiet s s1" by (rule Exists_run(1) [OF ex])
  have k1: "kept {} s s1" "fs_wf s1" "table s1 = table s"
    using quiet_kept [OF q1] quiet_wf [OF q1] quiet_table [OF q1] assms(2) by simp_all
  note run = assms(1) [unfolded delete_stored_def]
  show ?thesis
  proof (cases "snd e")
    case True
    with run ex have "run_state (SendText 500 ''Internal Server Error'' ''cannot inspect stored file'') s1 = (x, t)" by simp
    from refusal [OF k1 this] show ?thesis .
  next
    case noerr: False
    show ?thesis
    proof (cases "fst e")
      case False
      obtain y s2 where md: "run_state (delete_metadata E url info None) s1 = (y, s2)" by (rule prod.exhaust)
      have t: "t = s2" using run ex noerr False md by (simp add: TempFileGuard_def)
      have sy: "agrees (env.truncate E) s1" using kept_agrees [OF k1(1,3) assms(3) _ assms(2)] by simp
      show ?thesis unfolding t
        by (rule delete_metadata_run(1) [OF md kept_mono [OF k1(1)] k1(2) sy k1(3) assms(4)])
           (use kept_lookup(1) [OF k1(1) _ _ assms(2)] in simp_all)
    next
      case True
      obtain r s2 where tm: "run_state (CreateTempFile (ParentPath ?p) ''.delete-'') s1 = (r, s2)" by (rule prod.exhaust)
      from tm show ?thesis
      proof (cases rule: CreateTempFile_run)
        case failed
        have "kept {} s s2" "fs_wf s2" "table s2 = table s"
          using kept_trans [OF k1(1) kept_extends(1) [OF failed(2)]] kept_extends(2) [OF failed(2)] failed(3) k1
          by (simp_all add: balanced_def)
        from refusal [OF this] run ex noerr True tm failed(1) show ?thesis by simp
      next
        case (created p j)
        have k2: "kept {} s s2" "fs_wf s2" "table s2 = table s"
          using kept_trans [OF k1(1) kept_extends(1) [OF created(2)]] kept_extends(2) [OF created(2)] created(3) k1
          by (simp_all add: balanced_def)
        have fresh: "node s (key s p) = None"
          using kept_fresh [OF k1(1)] created(4) kept_key [OF k1(1), of p] by simp
        have pm: "key s p \<noteq> ?m" using agrees_exists [OF assms(3)] fresh by auto
        obtain r3 s3 where rm: "run_state (remove_file p) s2 = (r3, s3)" by (rule prod.exhaust)
        note rm' = remove_kept [OF rm k2(1) disjI1 [OF fresh] k2(2)]
        have s3: "kept {} s s3" "fs_wf s3" "table s3 = table s" using rm' k2(3) by simp_all
        have ks: "key s3 q = key s q" for q by (rule kept_key [OF s3(1)])
        obtain moved s4 where mv: "run_state (rename_file ?p p) s3 = (moved, s4)" by (rule prod.exhaust)
        note rn = rename_kept [OF mv s3(2)]
        have run3: "run_state (if \<not> moved then SendText 500 ''Internal Server Error'' ''cannot move file to delete transaction''
           else TempFileGuard p (delete_metadata E url info (Some p))) s4 = (x, t)"
          using run ex noerr True tm created(1) rm mv by simp
        show ?thesis
        proof (cases moved)
          case False
          have "kept {} s s4" using mv
            by (cases rule: rename_run) (use False s3(1) in \<open>auto intro: kept_trans quiet_kept\<close>)
          from refusal [OF this rn(2)] rn(3) s3(3) run3 False show ?thesis by simp
        next
          case True
          have k4: "kept {?k} s s4"
            by (rule kept_absorb [OF kept_mono [OF s3(1)] rn(1) [unfolded ks, unfolded insert_commute [of ?k]]])
               (use fresh in simp_all)
          have sy4: "agrees (env.truncate E) s4"
            by (rule kept_agrees [OF k4 _ assms(3) _ assms(2)]) (use rn(3) s3(3) assms(4) in simp_all)
          have dest: "lookup s4 p = Some (File i)" if i: "lookup s ?p = Some (File i)" for i
          proof -
            have l3: "lookup s3 ?p = Some (File i)" by (rule kept_lookup(1) [OF s3(1) i _ assms(2)]) simp
            have "i < next_ino s" using i assms(2) by (auto simp: lookup_def fs_wf_def split: if_splits)
            then have "i \<noteq> j" using created(6) k1(1) by (auto simp: kept_def)
            have "lookup s3 p \<noteq> Some (File i)"
              using rm'(4,5) created(5) \<open>i \<noteq> j\<close> by (cases r3) (auto simp: lookup_def ks kept_key [OF k2(1)])
            then have "node s4 (key s3 p) = Some (File i)" using rn(5) [OF True _ l3] l3 by simp
            moreover have "c_str p \<noteq> []" using created(5) by (auto simp: lookup_def)
            ultimately show ?thesis using kept_key [OF k4, of p] by (simp add: lookup_def ks)
          qed
          obtain y s5 where md: "run_state (delete_metadata E url info (Some p)) s4 = (y, s5)" by (rule prod.exhaust)
          note d = delete_metadata_run [OF md k4 rn(2) sy4 _ assms(4)]
          have d': "delete_outcome E url info s s5" "y \<or> status_of s5 = Some 200"
            using d rn(3) s3(3) dest fresh pm by simp_all
          have "p \<noteq> []" using created(5) by (auto simp: lookup_def c_str_def)
          have "run_state (TempFileGuard p (delete_metadata E url info (Some p))) s4 = (x, t)" using run3 True by simp
          from this md \<open>p \<noteq> []\<close> show ?thesis
          proof (cases rule: run_guard)
            case kept_it
            with d'(1) show ?thesis by simp
          next
            case (removed q)
            then have st: "status_of s5 = Some 200" using d'(2) by simp
            have o5: "kept {?m, ?k} s s5" "fs_wf s5" "agrees (env.truncate E) s5" "table s5 = hm_erase url (table s)"
              using d'(1) st by (simp_all add: delete_outcome_def)
            note rm5 = remove_kept [OF removed(2) o5(1) disjI1 [OF fresh] o5(2)]
            have "key s5 p \<noteq> key s5 (storage_file s5)" using pm kept_key [OF o5(1)] o5(1) by (simp add: kept_def)
            then have "agrees (env.truncate E) t" by (rule remove_agrees [OF removed(2) o5(3,2)])
            moreover have "status_of t = status_of s5"
              using mute_run [OF mute_calls(2) removed(2)] by (simp add: status_of_def)
            ultimately show ?thesis using rm5 o5(4) st by (simp add: delete_outcome_def)
          qed
        qed
      qed
    qed
  qed
qed

text \<open>The URL a deletion names.\<close>

definition delete_url :: "request \<Rightarrow> string" where
  "delete_url req = snd (UrlDecode (the (find_header req ''DeleteUrl'')))"

text \<open>Every stored file has a name of its own, different from the metadata file.\<close>

definition apart :: "'z data_state_scheme \<Rightarrow> bool" where
  "apart s \<longleftrightarrow> list_all (\<lambda>e. key s (si_path (snd e)) \<noteq> key s (storage_file s)) (table s)"

text \<open>The metadata file agrees with the table, or there is nothing to agree about yet.\<close>

definition settled :: "'j env \<Rightarrow> 'z data_state_scheme \<Rightarrow> bool" where
  "settled E s \<longleftrightarrow> table s = [] \<or> agrees E s"

lemma found_agrees: "settled E s \<Longrightarrow> hm_find (table s) url = Some info \<Longrightarrow> agrees E s"
  by (auto simp: settled_def hm_find_def)

lemma Delete_run_cases:
  assumes "run_state (Delete E req) s = (x, t)"
  obtains (refused) n where "n \<noteq> 200" "said n s t"
  | (found) info where "hm_find (table s) (delete_url req) = Some info" "IsDownloadPath (conf E) (delete_url req)"
      "run_state (delete_stored E (delete_url req) info) s = (x, t)"
proof -
  have bad: thesis if "run_state (SendText n r b) s = (x, t)" "n = 400 \<or> n = 404" for n r b
    using that by (intro refused [OF _ SendText_said [OF that(1)]]) auto
  note run = assms [unfolded Delete_def]
  show thesis
  proof (cases "find_header req ''DeleteUrl''")
    case None
    show thesis by (rule bad [of 400]) (use run None in simp_all)
  next
    case (Some h)
    obtain ok url where dec: "UrlDecode h = (ok, url)" by (rule prod.exhaust)
    show thesis
    proof (cases "length h = 0 \<or> 4096 < length h \<or> \<not> ok \<or> \<not> IsDownloadPath (conf E) url")
      case True
      then show thesis using run Some dec bad by (simp split: if_splits)
    next
      case False
      show thesis
      proof (cases "hm_find (table s) url")
        case None
        show thesis by (rule bad [of 404]) (use run Some dec False None in \<open>simp_all add: GetOneByURL_def\<close>)
      next
        case (Some info)
        show thesis
          by (rule found [of info])
             (use run \<open>find_header req _ = Some h\<close> dec False Some in \<open>simp_all add: GetOneByURL_def delete_url_def\<close>)
      qed
    qed
  qed
qed

subsection \<open>Properties of uploads and deletions\<close>

lemma Upload_final:
  assumes "fs_wf s"
    and "upload_ok (conf E) req \<Longrightarrow> spared s (JoinPath (storage_dir (conf E) (upload_type req)) (upload_name req))"
  shows "upload_outcome E (storage_dir (conf E) (upload_type req)) (upload_name req) (upload_type req)
      (upload_content req) s (final (Upload E req) s) \<and>
    (status_of (final (Upload E req) s) = Some 201 \<longrightarrow> upload_ok (conf E) req)"
proof -
  obtain x t where run: "run_state (Upload E req) s = (x, t)" by (rule prod.exhaust)
  have "upload_outcome E (storage_dir (conf E) (upload_type req)) (upload_name req) (upload_type req)
      (upload_content req) s t \<and> (status_of t = Some 201 \<longrightarrow> upload_ok (conf E) req)"
    using run
  proof (cases rule: Upload_run)
    case (refused n)
    from upload_outcome_refused(1) [OF kept_refl assms(1) refl assms(1) refused(2,1)] refused(1)
    show ?thesis by (simp add: said_facts [OF refused(2)])
  next
    case checked
    have "upload_type req = ''low'' \<or> upload_type req = ''deep''"
      using checked(1) by (auto simp: upload_ok_def upload_type_def split: option.splits)
    from Upload_checked_run [OF checked(2) assms(1) assms(2) [OF checked(1)] this] checked(1)
    show ?thesis by (simp add: upload_content_def)
  qed
  then show ?thesis by (simp add: final_def run)
qed

text \<open>C5. An upload is all or nothing, whichever system calls fail. The files that existed and their contents stay as they
  were, but for the new metadata snapshot; if the metadata file agreed with the table in memory, it does so
  afterwards; and the reply is 201 only if the request meets every condition, the name was free, the file now stands
  under its final name in the directory of its type with the content of the request (compressed for deep storage),
  exactly its record has been added, and the metadata file is a snapshot of the new table. With any other reply, no
  record has been added. The one exception, stated as a hypothesis: as long as there is no metadata file, the upload
  must not have its very name.\<close>

theorem upload_all_or_nothing:
  assumes "fs_wf s" and "spared s (JoinPath (storage_dir (conf E) (upload_type req)) (upload_name req))"
  shows "upload_outcome E (storage_dir (conf E) (upload_type req)) (upload_name req) (upload_type req)
      (upload_content req) s (final (Upload E req) s) \<and>
    (status_of (final (Upload E req) s) = Some 201 \<longrightarrow> upload_ok (conf E) req)"
  by (rule Upload_final [OF assms])


subsection \<open>Examples\<close>

definition upload_request :: request where
  "upload_request = blank_request\<lparr>req_header := (\<lambda>n. if n = ''FileName'' then Some ''YQ=='' else
     if n = ''StorageType'' then Some ''low'' else None)\<rparr>"

definition delete_request :: request where
  "delete_request = blank_request\<lparr>req_path := Some ''/delete'', req_header := (\<lambda>n. if n = ''DeleteUrl'' then Some ''/download/a'' else None)\<rparr>"

text \<open>A server that has stored one file and saved its record.\<close>

definition saved_state :: data_state where
  "saved_state = final (Insert (ref_env shipped) (sample ''files'')) sample_state"

definition first_state :: "outcome list \<Rightarrow> service_state" where
  "first_state outcomes = server_state.extend (data_state.extend (saved_state\<lparr>tape := outcomes\<rparr>)
     (server_state.fields [] [] [] 5)) (service_state.fields [])"

lemma first_state_fields:
  "table (first_state ts) = table saved_state" "storage_file (first_state ts) = storage_file saved_state"
  "node (first_state ts) = node saved_state" "inodes (first_state ts) = inodes saved_state"
  "cwd (first_state ts) = cwd saved_state" "fds (first_state ts) = fds saved_state"
  "next_fd (first_state ts) = next_fd saved_state" "next_ino (first_state ts) = next_ino saved_state"
  "tape (first_state ts) = ts" "sessions (first_state ts) = []" "attempts (first_state ts) = []"
  "out (first_state ts) = []"
  by (simp_all add: first_state_def data_state.defs server_state.defs service_state.defs)

lemma saved_facts:
  "table saved_state = table sample_state @ [(si_url (sample ''files''), sample ''files'')]"
  "kept {key sample_state (storage_file sample_state)} sample_state saved_state"
proof -
  obtain r t where run: "run_state (Insert (ref_env shipped) (sample ''files'')) sample_state = (r, t)" by (rule prod.exhaust)
  have r: "r = OK" using sample_inserted(1) [of shipped] by (simp add: result_def run)
  have t: "saved_state = t" by (simp add: saved_state_def final_def run)
  have "table t = table sample_state @ [(si_url (sample ''files''), sample ''files'')] \<and>
      kept {key sample_state (storage_file sample_state)} sample_state t"
    using run r by (cases rule: Insert_run) (auto elim!: commit_table_run intro: kept_replaces(1))
  then show "table saved_state = table sample_state @ [(si_url (sample ''files''), sample ''files'')]"
    "kept {key sample_state (storage_file sample_state)} sample_state saved_state"
    unfolding t by blast+
qed

lemma first_state_ok: "fs_wf (first_state ts)" "synced (ref_env shipped) (first_state ts)" "sessions_ok (first_state ts)"
proof -
  note saved = sample_inserted(2,3) [of shipped, folded saved_state_def]
  show "fs_wf (first_state ts)" using saved(2) unfolding fs_wf_def first_state_fields .
  show "synced (ref_env shipped) (first_state ts)"
    using saved(1) by (simp only: synced_def lookup_def key_def first_state_fields)
  show "sessions_ok (first_state ts)" by (simp add: sessions_ok_def hm_ok_def first_state_fields)
qed

lemma first_state_table: "table (first_state ts) = [(''/download/a'', sample ''files'')]"
  unfolding first_state_fields saved_facts(1) by (simp add: sample_state_def data_boot_fields sample_def)

lemma first_state_key: "key (first_state ts) p = walk (path_names (c_str p)) []"
proof -
  have "key (first_state ts) p = key saved_state p" by (simp only: key_def first_state_fields)
  also have "\<dots> = key sample_state p" by (rule kept_key [OF saved_facts(2)])
  finally show ?thesis by (simp only: sample_state_def data_boot_key)
qed

lemma first_state_storage_file: "storage_file (first_state ts) = ''meta''"
proof -
  have "storage_file saved_state = storage_file sample_state" using saved_facts(2) by (simp add: kept_def)
  then show ?thesis by (simp only: first_state_fields sample_state_def data_boot_fields)
qed

lemma first_state_apart: "apart (first_state ts)"
proof -
  have "walk (path_names (c_str ''meta'')) [] \<noteq> walk (path_names (c_str (si_path (sample ''files'')))) []"
    by code_simp
  then show ?thesis by (simp add: apart_def first_state_table first_state_key first_state_storage_file)
qed

lemma upload_all_or_nothing_witness:
  "upload_outcome (ref_service shipped) (low_storage_dir shipped) ''a'' ''low'' ''hello'' (first_state [Fault EIO])
     (final (Upload (ref_service shipped) upload_request) (first_state [Fault EIO]))"
proof -
  have t: "upload_type upload_request = ''low''" "upload_content upload_request = ''hello''"
    by (simp_all add: upload_type_def upload_content_def upload_request_def blank_request_def find_header_def c_str_def)
  have n: "upload_name upload_request = ''a''"
    unfolding upload_name_def upload_request_def find_header_def by code_simp
  show ?thesis
    using upload_all_or_nothing [of "first_state [Fault EIO]" "ref_service shipped" upload_request] first_state_ok
      agrees_exists [OF synced_agrees [OF first_state_ok(2)]] t n
    by (simp add: storage_dir_def spared_def)
qed


end
