(* ===== verification/Service_Serving.thy ===== *)
theory Service_Serving
  imports Service_Storage
begin

text \<open>What logins and downloads do, and an upload followed by a download.\<close>

subsection \<open>The bytes the client receives\<close>

text \<open>The library sends bodies, and the parts of files whose descriptors it was given, in the order they were added.\<close>

fun payload :: "'z os_scheme \<Rightarrow> event \<Rightarrow> string" where
  "payload s (Add_body b) = b"
| "payload s (Add_file (Some i) offset len) = take len (drop offset (bytes (inodes s i)))"
| "payload s e = []"

definition sent :: "'z service_state_scheme \<Rightarrow> 'z service_state_scheme \<Rightarrow> string" where
  "sent s t = concat (map (payload t) (drop (length (out s)) (out t)))"

lemma run_headers:
  "run_state (AddHeader n v) s = ((), s\<lparr>out := out s @ [Add_header n (c_str v)]\<rparr>)"
  "run_state (send_reply c r) s = ((), s\<lparr>out := out s @ [Send_reply c r]\<rparr>)"
  by (simp_all add: AddHeader_def send_reply_def emit_def)

lemma open_file_run:
  assumes "run_state (open_rdonly p) s = (r, t)" "lookup s p = Some (File i)"
  obtains (failed) "r = None" "quiet s t"
  | (opened) fd u where "r = Some fd" "quiet s u" "t = u\<lparr>fds := (fds u)(fd \<mapsto> \<lparr>fd_ino = Some i, fd_pos = 0\<rparr>), next_fd := next_fd u + 1\<rparr>"
  using assms(1)
proof (cases rule: open_rdonly_run)
  case (opened u j)
  then have "j = Some i" using assms(2) by blast
  then show thesis using opened(1,2) that(2) [of "next_fd u" u] by (simp add: new_fd_def)
qed (use that in blast)

lemma evbuffer_add_file_run:
  assumes "run_state (evbuffer_add_file fd off len) s = (r, t)" "fds s fd = Some d" "fd_ino d = Some i"
  obtains (failed) "\<not> r" "quiet s t"
  | (added) u f where "r" "quiet s u" "t = u\<lparr>fds := f, out := out u @ [Add_file (Some i) off len]\<rparr>"
proof -
  from assms(1) [unfolded evbuffer_add_file_def] show thesis
  proof (cases rule: run_syscall)
    case (failed e ts)
    then show ?thesis using that(1) quiet_update by blast
  next
    case (ran ts)
    then have "r" "t = (s\<lparr>tape := ts\<rparr>)\<lparr>fds := (fds s)(fd := None), out := out s @ [Add_file (Some i) off len]\<rparr>"
      using assms(2,3) by (simp_all add: emit_def)
    then show ?thesis using that(2) [OF _ quiet_update(2) [of s ts]] by simp
  qed
qed

lemma remove_plain:
  assumes "run_state (remove_file p) t = (r, u)" "kept {} s t" "node s (key s p) = None"
  shows "kept {} s u" "inodes u = inodes t" "table u = table t"
proof -
  have "kept {} s u \<and> inodes u = inodes t \<and> table u = table t"
    using assms(1) unfolding remove_file_def
  proof (cases rule: unlink_run)
    case failed
    then show ?thesis using kept_trans [OF assms(2) quiet_kept] quiet_table [of t u] by (simp add: quiet_eqs)
  next
    case (removed i)
    let ?v = "t\<lparr>node := (node t)(key t p := None)\<rparr>"
    have k: "kept {} s ?v" using assms(2,3) kept_key [OF assms(2), of p] by (auto simp: kept_def)
    from removed(3) show ?thesis
      using kept_trans [OF k quiet_kept [OF removed(3)]] quiet_table [OF removed(3)]
        silent_eqs(2) [OF quiet_silent [OF removed(3)]] by simp
  qed
  then show "kept {} s u" "inodes u = inodes t" "table u = table t" by blast+
qed

text \<open>
  The outcome of sending: \<open>s\<close> was the state when the request arrived, \<open>a\<close> the state when sending began. If the
  status is 200 or 206, the client receives \<open>data\<close> and nothing else after \<open>a\<close>.
\<close>

definition sends :: "'z service_state_scheme \<Rightarrow> int \<Rightarrow> string \<Rightarrow> 'z service_state_scheme \<Rightarrow> 'z service_state_scheme \<Rightarrow> bool" where
  "sends s code data a t \<longleftrightarrow> kept {} s t \<and> table t = table s \<and> inodes t = inodes a \<and>
     (\<exists>es. out t = out a @ es \<and>
       (status_of t = Some 200 \<or> status_of t = Some 206 \<longrightarrow>
          status_of t = Some code \<and> concat (map (payload t) es) = data))"

lemma sends_refusal:
  assumes "kept {} s b" "table b = table s" "inodes b = inodes a" "out b = out a @ es"
    "run_state (do { SendText n r c; give y }) b = (x, t)" "n \<noteq> 200" "n \<noteq> 206"
  shows "sends s code data a t \<and> x = y"
proof -
  have x: "x = y" and sd: "said n b t" using bind_SendText [OF refl assms(5)] by blast+
  have "\<exists>es. out t = out a @ es" using sd assms(4) by (auto simp: said_def)
  then show ?thesis using x assms kept_trans [OF assms(1) said_facts(1) [OF sd]]
    by (simp add: sends_def said_facts [OF sd])
qed

lemma send_part_run:
  assumes run: "run_state (send_part req p temporary rng offset len) a = (x, t)"
    and "lookup a p = Some (File i)" "kept {} s a" "table a = table s"
    and "\<And>q. temporary = Some q \<Longrightarrow> node s (key s q) = None"
  shows "sends s (if range_status rng = PARTIAL then 206 else 200)
    (if req_method req = HEAD then [] else take (unat len) (drop (unat offset) (bytes (inodes a i)))) a t"
proof -
  let ?code = "if range_status rng = PARTIAL then 206 else 200 :: int"
  note run = run [unfolded send_part_def]
  show ?thesis
  proof (cases "req_method req = HEAD")
    case True
    with run have "t = a\<lparr>out := out a @ [Send_reply ?code (if range_status rng = PARTIAL then ''Partial Content'' else ''OK'')]\<rparr>"
      by (simp add: partial_reply_def run_headers)
    then show ?thesis using assms(3,4) True by (simp add: sends_def status_of_def)
  next
    case get: False
    show ?thesis
    proof (cases "of_nat off_t_max < offset \<or> of_nat off_t_max < len")
      case True
      then have r: "run_state (do { SendText 500 ''Internal Server Error'' ''file is too large for this server''; give False }) a = (x, t)"
        using run get by simp
      show ?thesis using sends_refusal [OF assms(3,4) refl _ r, of "[]"] by simp
    next
      case size: False
      obtain r b where op: "run_state (open_rdonly p) a = (r, b)" by (rule prod.exhaust)
      from op assms(2) show ?thesis
      proof (cases rule: open_file_run)
        case failed
        note q = failed(2)
        have b: "kept {} s b" "table b = table s" "inodes b = inodes a" "out b = out a @ []"
          using kept_trans [OF assms(3) quiet_kept [OF q]] quiet_table [OF q] assms(4)
            silent_eqs(2) [OF quiet_silent [OF q]] mute_run [OF mute_calls(4) op] by simp_all
        have r: "run_state (do { SendText 404 ''Not Found'' ''file not found''; give False }) b = (x, t)"
          using run get size op failed(1) by simp
        show ?thesis using sends_refusal [OF b r] by simp
      next
        case (opened fd u)
        have b: "kept {} s b" "table b = table s" "inodes b = inodes a" "out b = out a"
          using kept_trans [OF assms(3) quiet_kept [OF opened(2)]] quiet_table [OF opened(2)] assms(4) opened(3)
            silent_eqs(2) [OF quiet_silent [OF opened(2)]] mute_run [OF mute_calls(4) op] by (simp_all add: kept_def)
        obtain y c where ad: "run_state (evbuffer_add_file fd (unat offset) (unat len)) b = (y, c)" by (rule prod.exhaust)
        have d: "fds b fd = Some \<lparr>fd_ino = Some i, fd_pos = 0\<rparr>" "fd_ino \<lparr>fd_ino = Some i, fd_pos = 0\<rparr> = Some i"
          using opened(3) by simp_all
        from ad d show ?thesis
        proof (cases rule: evbuffer_add_file_run)
          case failed
          note q = failed(2)
          obtain z d where cl: "run_state (close fd) c = (z, d)" by (rule prod.exhaust)
          have sil: "silent c d" using state_io_relD [OF si.rel_close cl] .
          have d: "kept {} s d" "table d = table s" "inodes d = inodes a"
            using b silent_eqs(2) [OF sil] silent_eqs(2) [OF quiet_silent [OF q]] quiet_table [OF q]
              kept_extends [OF silent_extends [OF sil]] kept_trans [OF kept_trans [OF b(1) quiet_kept [OF q]]] by simp_all
          have o: "out d = out a @ []"
            using mute_run [OF mute_calls(5) cl] out_more [OF silent_eqs(6) [OF quiet_silent [OF q]]] b(4) by simp
          have r: "run_state (do { SendText 500 ''Internal Server Error'' ''cannot prepare file response''; give False }) d = (x, t)"
            using run get size op opened(1) ad failed(1) cl by simp
          show ?thesis using sends_refusal [OF d o r] by simp
        next
          case (added v f)
          note q = added(2)
          have c: "kept {} s c" "table c = table s" "inodes c = inodes a"
              "out c = out a @ [Add_file (Some i) (unat offset) (unat len)]"
            using kept_trans [OF b(1) quiet_kept [OF q]] quiet_table [OF q] b(2-4) added(3)
              silent_eqs(2) [OF quiet_silent [OF q]] out_more [OF silent_eqs(6) [OF quiet_silent [OF q]]]
            by (simp_all add: kept_def)
          obtain z d where rm: "(case temporary of None \<Rightarrow> (False, c) | Some q \<Rightarrow> (True, final (remove_file q) c)) = (z, d)"
            by (rule prod.exhaust)
          have d: "kept {} s d \<and> table d = table s \<and> inodes d = inodes a \<and> out d = out c"
          proof (cases temporary)
            case None
            then show ?thesis using rm c by simp
          next
            case (Some q)
            then have rmq: "run_state (remove_file q) c = (result (remove_file q) c, d)"
              using rm run_result_final [of "remove_file q" c] by simp
            show ?thesis
              using remove_plain [OF rmq c(1) assms(5) [OF Some]] c mute_run [OF mute_calls(2) rmq] by simp
          qed
          have "t = d\<lparr>out := out d @ [Send_reply ?code (if range_status rng = PARTIAL then ''Partial Content'' else ''OK'')]\<rparr>"
            using run get size op opened(1) ad added(1) rm
            by (cases temporary; cases "range_status rng = PARTIAL")
               (auto simp: partial_reply_def run_headers final_def split: prod.splits)
          then show ?thesis using d c(4) get by (simp add: sends_def status_of_def)
        qed
      qed
    qed
  qed
qed

lemma sends_first:
  assumes "sends s code data b t" "out b = out a @ hs" "list_all (\<lambda>e. \<exists>n v. e = Add_header n v) hs" "inodes b = inodes a"
  shows "sends s code data a t"
proof -
  have "concat (map (payload t) hs) = []" using assms(3) by (induction hs) auto
  with assms show ?thesis by (fastforce simp: sends_def)
qed

lemma unat_file_size: "n < 2 ^ 64 \<Longrightarrow> unat (of_int (int n) :: u64) = n"
  by (simp add: unat_of_nat_u64)

lemma send_file_run:
  assumes run: "run_state (send_file E req info p temporary) a = (x, t)"
    and "lookup a p = Some (File i)" "kept {} s a" "table a = table s" "length (bytes (inodes a i)) < 2 ^ 64"
    and "\<And>q. temporary = Some q \<Longrightarrow> node s (key s q) = None"
  defines "rng \<equiv> chosen_range E req (EntityTag E info) (of_nat (length (bytes (inodes a i))))"
  shows "sends s (if range_status rng = PARTIAL then 206 else 200)
    (if req_method req = HEAD then []
     else if range_status rng = PARTIAL then take (unat (range_length rng)) (drop (unat (range_offset rng)) (bytes (inodes a i)))
     else bytes (inodes a i)) a t"
proof -
  let ?n = "length (bytes (inodes a i))"
  obtain n b where sz: "run_state (FileSize p) a = (n, b)" by (rule prod.exhaust)
  note fs = FileSize_run [OF sz]
  have b: "kept {} s b" "table b = table s" "inodes b = inodes a" "out b = out a" "lookup b p = Some (File i)"
    using kept_trans [OF assms(3) quiet_kept [OF fs(1)]] quiet_table [OF fs(1)] assms(2,4)
      silent_eqs [OF quiet_silent [OF fs(1)]] out_more by simp_all
  show ?thesis
  proof (cases "n < 0")
    case True
    then have r: "run_state (do { SendText 404 ''Not Found'' ''file not found''; give False }) b = (x, t)"
      using run sz by (simp add: send_file_def)
    show ?thesis using sends_refusal [OF b(1,2,3) _ r, of "[]"] b(4) by simp
  next
    case False
    then have n: "n = int ?n" using fs(2) [OF _ assms(2)] by simp
    define hs where "hs = [Add_header ''Accept-Ranges'' (c_str ''bytes''), Add_header ''ETag'' (c_str (EntityTag E info)),
      Add_header ''Content-Type'' (c_str ''application/octet-stream''), Add_header ''Content-Disposition''
        (c_str (''attachment; filename*=UTF-8'' @ [CHR 0x27, CHR 0x27] @ UrlEncode (FileName (si_path info)) False))]"
    let ?len = "of_int n :: u64"
    have rng: "chosen_range E req (EntityTag E info) ?len = rng" by (simp add: rng_def n)
    show ?thesis
    proof (cases "range_status rng = UNSATISFIABLE")
      case True
      have r: "run_state (do { SendText 416 ''Range Not Satisfiable'' []; give False })
          (b\<lparr>out := out b @ hs @ [Add_header ''Content-Range'' (c_str (''bytes */'' @ to_dec (unat ?len)))]\<rparr>) = (x, t)"
        using run sz False True by (simp add: send_file_def Let_def run_headers rng hs_def)
      show ?thesis using sends_refusal [OF _ _ _ _ r] b by simp
    next
      case ok: False
      let ?off = "if range_status rng = PARTIAL then range_offset rng else 0"
      let ?l = "if range_status rng = PARTIAL then range_length rng else ?len"
      define c where "c = b\<lparr>out := out b @ hs @ [Add_header ''Content-Length'' (c_str (to_dec (unat ?l)))] @
        (if range_status rng = PARTIAL then [Add_header ''Content-Range'' (c_str (''bytes '' @ to_dec (unat ?off) @ ''-'' @
           to_dec (unat (?off + ?l - 1)) @ ''/'' @ to_dec (unat ?len)))] else [])\<rparr>"
      have r: "run_state (send_part req p temporary rng ?off ?l) c = (x, t)"
        using run sz False ok
        by (cases "range_status rng = PARTIAL") (simp_all add: send_file_def Let_def run_headers rng hs_def c_def)
      have "sends s (if range_status rng = PARTIAL then 206 else 200)
        (if req_method req = HEAD then [] else take (unat ?l) (drop (unat ?off) (bytes (inodes c i)))) c t"
        by (rule send_part_run [OF r]) (use b assms(6) in \<open>simp_all add: c_def\<close>)
      moreover have "out c = out a @ (hs @ [Add_header ''Content-Length'' (c_str (to_dec (unat ?l)))] @
        (if range_status rng = PARTIAL then [Add_header ''Content-Range'' (c_str (''bytes '' @ to_dec (unat ?off) @ ''-'' @
           to_dec (unat (?off + ?l - 1)) @ ''/'' @ to_dec (unat ?len)))] else []))" "inodes c = inodes a"
        using b by (simp_all add: c_def)
      moreover have "unat ?len = ?n" using n unat_file_size [OF assms(5)] by simp
      ultimately show ?thesis
        using sends_first [of s _ _ c t a] by (auto simp: hs_def split: if_splits)
    qed
  qed
qed

text \<open>The content a record stands for.\<close>

definition original :: "('j, 'e) service_env_scheme \<Rightarrow> storage_info \<Rightarrow> string \<Rightarrow> string" where
  "original E info stored = (if si_type info = ''deep'' then unpack (compressor E) stored else stored)"

definition download_range :: "('j, 'e) service_env_scheme \<Rightarrow> request \<Rightarrow> storage_info \<Rightarrow> string \<Rightarrow> ByteRange" where
  "download_range E req info content = chosen_range E req (EntityTag E info) (of_nat (length content))"

definition download_data :: "request \<Rightarrow> ByteRange \<Rightarrow> string \<Rightarrow> string" where
  "download_data req rng content =
     (if req_method req = HEAD then []
      else if range_status rng = PARTIAL then take (unat (range_length rng)) (drop (unat (range_offset rng)) content)
      else content)"

lemma guard_sends:
  assumes "run_state (TempFileGuard p body) b = (x, t)" "run_state body b = (released, u)" "p \<noteq> []"
    "sends s code data a u" "node s (key s p) = None"
  shows "sends s code data a t"
  using assms(1-3)
proof (cases rule: run_guard)
  case kept_it
  with assms(4) show ?thesis by simp
next
  case (removed r)
  have k: "kept {} s u" using assms(4) by (simp add: sends_def)
  note rm = remove_plain [OF removed(2) k assms(5)]
  have "out t = out u" by (rule mute_run [OF mute_calls(2) removed(2)])
  moreover have "payload t = payload u"
  proof
    fix e show "payload t e = payload u e"
      by (cases "(u, e)" rule: payload.cases) (simp_all add: rm(2))
  qed
  ultimately show ?thesis using assms(4) rm by (simp add: sends_def status_of_def)
qed

lemma Download_run:
  assumes "run_state (Download E req url) s = (x, t)" "fs_wf s"
    and "hm_find (table s) url = Some info" "lookup s (si_path info) = Some (File i)"
    and "content = original E info (bytes (inodes s i))" "length content < 2 ^ 64"
  defines "rng \<equiv> download_range E req info content"
  shows "\<exists>a. out a = out s \<and> sends s (if range_status rng = PARTIAL then 206 else 200) (download_data req rng content) a t"
proof -
  note run = assms(1) [unfolded Download_def GetOneByURL_def]
  have i: "i < next_ino s" using assms(2,4) by (auto simp: lookup_def fs_wf_def split: if_splits)
  show ?thesis
  proof (cases "si_type info = ''deep''")
    case False
    obtain y u where sf: "run_state (send_file E req info (si_path info) None) s = (y, u)" by (rule prod.exhaust)
    have t: "t = u" using run assms(3) False sf by (simp add: TempFileGuard_def)
    have c: "content = bytes (inodes s i)" using assms(5) False by (simp add: original_def)
    have "sends s (if range_status rng = PARTIAL then 206 else 200) (download_data req rng content) s u"
      unfolding rng_def download_data_def download_range_def c
      by (rule send_file_run [OF sf assms(4)]) (use assms(6) c in simp_all)
    then show ?thesis using t by blast
  next
    case True
    have c: "content = unpack (compressor E) (bytes (inodes s i))" using assms(5) True by (simp add: original_def)
    obtain r s1 where tm: "run_state (CreateTempFile (temp_dir (conf E)) ''.download-'') s = (r, s1)" by (rule prod.exhaust)
    from tm show ?thesis
    proof (cases rule: CreateTempFile_run)
      case failed
      have "run_state (do { SendText 500 ''Internal Server Error'' ''cannot create download temporary file''; give () }) s1 = (x, t)"
        using run assms(3) True tm failed(1) by simp
      from sends_refusal [OF kept_extends(1) [OF failed(2)] kept_extends(2) [OF failed(2)] refl _ this, of "[]"]
      show ?thesis using mute_run [OF mute_files(8) tm] by auto
    next
      case (created p j)
      have k1: "kept {} s s1" "table s1 = table s" using kept_extends [OF created(2)] by simp_all
      have o1: "out s1 = out s" by (rule mute_run [OF mute_files(8) tm])
      have l1: "lookup s1 (si_path info) = Some (File i)" "inodes s1 i = inodes s i"
        using kept_lookup [OF k1(1) assms(4) _ assms(2)] by simp_all
      have fresh: "node s (key s p) = None" by (rule created(4))
      have "p \<noteq> []" using created(5) by (auto simp: lookup_def c_str_def)
      let ?body = "do {
               unpacked \<leftarrow> UnCompress (compressor E) (si_path info) p;
               if \<not> unpacked then do {
                 SendText 500 ''Internal Server Error'' ''cannot decompress file''; give False }
               else send_file E req info p (Some p) }"
      obtain y u where body: "run_state ?body s1 = (y, u)" by (rule prod.exhaust)
      obtain b s2 where un: "run_state (UnCompress (compressor E) (si_path info) p) s1 = (b, s2)" by (rule prod.exhaust)
      note uc = UnCompress_run [OF un]
      have tg: "target s1 p = j" "made s1 p = {}" using created(5) by (simp_all add: target_def made_def)
      have fr: "frame {} {j} s1 s2" using uc(1) by (simp add: tg)
      have k2: "kept {} s s2" "table s2 = table s" "out s2 = out s"
        using k1 data_more [OF frame_more [OF fr]] fr created(6) frame_node [OF fr] o1 out_more [OF frame_more [OF fr]]
        by (auto simp: kept_def frame_def)
      have "\<exists>a. out a = out s \<and> sends s (if range_status rng = PARTIAL then 206 else 200) (download_data req rng content) a u"
      proof (cases b)
        case False
        have r: "run_state (do { SendText 500 ''Internal Server Error'' ''cannot decompress file''; give False }) s2 = (y, u)"
          using body un False by simp
        from sends_refusal [OF k2(1,2) refl _ r, of "[]"] k2(3) show ?thesis by auto
      next
        case True
        have l2: "lookup s2 p = Some (File j)" "bytes (inodes s2 j) = content"
          using uc(3) [OF True] uc(4) [OF True l1(1)] l1(2) c tg by simp_all
        have sf: "run_state (send_file E req info p (Some p)) s2 = (y, u)" using body un True by simp
        have "sends s (if range_status rng = PARTIAL then 206 else 200) (download_data req rng content) s2 u"
          unfolding rng_def download_data_def download_range_def l2(2) [symmetric]
          by (rule send_file_run [OF sf l2(1) k2(1,2)]) (use assms(6) l2(2) fresh in simp_all)
        then show ?thesis using k2(3) by blast
      qed
      then obtain a where a: "out a = out s" "sends s (if range_status rng = PARTIAL then 206 else 200) (download_data req rng content) a u"
        by blast
      have "run_state (TempFileGuard p ?body) s1 = (x, t)" using run assms(3) True tm created(1) by simp
      from guard_sends [OF this body \<open>p \<noteq> []\<close> a(2) fresh] a(1) show ?thesis by blast
    qed
  qed
qed

lemma Download_sends:
  assumes "fs_wf s" "hm_find (table s) url = Some info" "lookup s (si_path info) = Some (File i)"
    and "content = original E info (bytes (inodes s i))" "length content < 2 ^ 64"
    and "t = final (Download E req url) s" "rng = download_range E req info content"
  shows "status_of t = Some 200 \<or> status_of t = Some 206 \<Longrightarrow>
      sent s t = download_data req rng content \<and> (status_of t = Some 206 \<longleftrightarrow> range_status rng = PARTIAL)"
    and "kept {} s t" and "table t = table s"
proof -
  obtain x where run: "run_state (Download E req url) s = (x, t)" using assms(6) run_result_final by metis
  from Download_run [OF run assms(1-5)] obtain a where a0: "out a = out s"
    "sends s (if range_status rng = PARTIAL then 206 else 200) (download_data req rng content) a t"
    unfolding assms(7) by (elim exE conjE)
  from a0(2) obtain es where a: "kept {} s t" "table t = table s" "out t = out s @ es"
    "status_of t = Some 200 \<or> status_of t = Some 206 \<longrightarrow>
       status_of t = Some (if range_status rng = PARTIAL then 206 else 200) \<and> concat (map (payload t) es) = download_data req rng content"
    unfolding sends_def a0(1) by (elim exE conjE)
  show "sent s t = download_data req rng content \<and> (status_of t = Some 206 \<longleftrightarrow> range_status rng = PARTIAL)"
    if "status_of t = Some 200 \<or> status_of t = Some 206"
    using a(3,4) that by (auto simp: sent_def split: if_splits)
  show "kept {} s t" "table t = table s" by (rule a(1), rule a(2))
qed

subsection \<open>Login\<close>

text \<open>The conditions for a login: the address is not blocked, and the password has the configured hash.\<close>

definition login_ok :: "('j, 'e) service_env_scheme \<Rightarrow> 'z service_state_scheme \<Rightarrow> request \<Rightarrow> bool" where
  "login_ok E s req \<longleftrightarrow> result (Allow (PeerAddress req)) s \<and>
     (case ReadRequestBody req 1024 of None \<Rightarrow> False
      | Some password \<Rightarrow> DerivePasswordHash E password = Some (auth_hash (conf E)))"

lemma Allow_run:
  obtains as where "final (Allow peer) s = s\<lparr>attempts := as\<rparr>" "hm_ok (attempts s) \<Longrightarrow> hm_ok as"
proof -
  have "\<exists>as. final (Allow peer) s = s\<lparr>attempts := as\<rparr> \<and> (hm_ok (attempts s) \<longrightarrow> hm_ok as)"
    by (auto simp: Allow_def final_def hm_ok_erase split: option.split intro: exI [of _ "attempts s"])
  then show thesis using that by blast
qed

lemma Create_none:
  "result (Create ttl) s = None \<longleftrightarrow> \<not> (\<exists>a b rs. random s = Some a # Some b # rs)"
proof -
  have one: "run_state RandomToken s = (case random s of [] \<Rightarrow> (None, s) | r # rs \<Rightarrow> (map_option to_hex r, s\<lparr>random := rs\<rparr>))"
    for s :: "'a server_state_scheme" by (simp add: RandomToken_def split: list.split)
  show ?thesis
    by (auto simp: result_def Create_def one RemoveExpiredLocked_def split: list.splits option.splits)
qed

definition cookie_event :: "config \<Rightarrow> string \<Rightarrow> string \<Rightarrow> bool \<Rightarrow> event" where
  "cookie_event c name token http_only =
     Add_header ''Set-Cookie'' (c_str (name @ ''='' @ token @ CookieSuffix c http_only))"

lemma attempts_update [simp]:
  "live (s\<lparr>attempts := as\<rparr>) = live s" "now (s\<lparr>attempts := as\<rparr>) = now s" "random (s\<lparr>attempts := as\<rparr>) = random s"
  "out (s\<lparr>attempts := as\<rparr>) = out (s :: 'z service_state_scheme)"
  by (auto simp: live_def fun_eq_iff split: option.split)

lemma said_live: "said c s t \<Longrightarrow> live t = live s"
  by (auto simp: said_def)

lemma said_out: "said c s t \<Longrightarrow> set (out s) \<subseteq> set (out t)"
  by (auto simp: said_def)

lemma SetNoCache_run:
  "run_state SetNoCache s = ((), s\<lparr>out := out s @ [Add_header ''Cache-Control'' (c_str ''no-cache, no-store, must-revalidate''),
     Add_header ''Pragma'' (c_str ''no-cache''), Add_header ''Expires'' (c_str ''0'')]\<rparr>)"
  by (simp add: SetNoCache_def run_headers)

lemma Login_run:
  assumes "run_state (Login E req) s = (x, t)" "memcmp_law E" "sessions_ok s" "0 < session_ttl_seconds (conf E)"
  shows "if login_ok E s req \<and> (\<exists>a b rs. random s = Some a # Some b # rs) then
      status_of t = Some 200 \<and>
      (\<exists>a b rs. random s = Some a # Some b # rs \<and>
         live t = (live s)(to_hex a \<mapsto> \<lparr>csrf_token = to_hex b, expires_at = now s + seconds (session_ttl_seconds (conf E))\<rparr>) \<and>
         cookie_event (conf E) ''session'' (to_hex a) True \<in> set (out t) \<and>
         cookie_event (conf E) ''csrf'' (to_hex b) False \<in> set (out t))
    else status_of t \<noteq> Some 200 \<and> live t = live s" (is "if ?ok then ?yes else ?no")
proof -
  note run = assms(1) [unfolded Login_def]
  obtain es where nc: "run_state SetNoCache s = ((), s\<lparr>out := out s @ es\<rparr>)" using SetNoCache_run by metis
  define u where "u = s\<lparr>out := out s @ es\<rparr>"
  have u: "live u = live s" "now u = now s" "random u = random s" "hm_ok (sessions u)" "hm_ok (attempts u)"
    using assms(3) by (simp_all add: u_def sessions_ok_def)
  have al: "result (Allow p) u = result (Allow p) s" for p
    by (auto simp: Allow_def result_def u_def split: option.split)
  obtain as where w: "final (Allow (PeerAddress req)) u = u\<lparr>attempts := as\<rparr>" "hm_ok as" using Allow_run u(5) by metis
  have refusal: "?no" if "live v = live s" "said c v t" "c \<noteq> 200" for c v
    using that(1,3) said_live [OF that(2)] said_facts(5) [OF that(2)] by simp
  show ?thesis
  proof (cases "result (Allow (PeerAddress req)) s")
    case False
    then have ok: "\<not> ?ok" by (simp add: login_ok_def)
    have allow: "run_state (Allow (PeerAddress req)) u = (False, u\<lparr>attempts := as\<rparr>)"
      using False al w by (metis prod.collapse result_def final_def)
    have "run_state (do { AddHeader ''Retry-After'' ''60''; SendText 429 ''Too Many Requests'' ''try again later'' })
        (u\<lparr>attempts := as\<rparr>) = (x, t)"
      using run nc allow by (simp add: u_def [symmetric] Let_def)
    then have "said 429 (u\<lparr>attempts := as, out := out u @ [Add_header ''Retry-After'' (c_str ''60'')]\<rparr>) t"
      using SendText_said by (simp add: run_headers)
    from refusal [OF _ this] show ?thesis using ok u(1) by simp
  next
    case True
    let ?v = "u\<lparr>attempts := as\<rparr>"
    have allow: "run_state (Allow (PeerAddress req)) u = (True, ?v)"
      using True al w by (metis prod.collapse result_def final_def)
    show ?thesis
    proof (cases "ReadRequestBody req 1024")
      case None
      then have "run_state (SendText 400 ''Bad Request'' ''invalid password body'') ?v = (x, t)"
        using run nc allow by (simp add: u_def [symmetric] Let_def)
      from refusal [OF _ SendText_said [OF this]] show ?thesis using u(1) None by (simp add: login_ok_def)
    next
      case body: (Some password)
      let ?match = "DerivePasswordHash E password = Some (auth_hash (conf E))"
      have check: "(case DerivePasswordHash E password of None \<Rightarrow> True
          | Some derived \<Rightarrow> \<not> SecureEqual E derived (auth_hash (conf E))) \<longleftrightarrow> \<not> ?match"
        using SecureEqual_iff [OF assms(2)] by (simp split: option.split)
      have ok: "login_ok E s req \<longleftrightarrow> ?match" using True body by (simp add: login_ok_def)
      show ?thesis
      proof (cases ?match)
        case False
        then have "run_state (do { Failure (PeerAddress req); SendText 401 ''Unauthorized'' ''authentication failed'' }) ?v = (x, t)"
          using run nc allow body check by (simp add: u_def [symmetric] Let_def)
        then obtain bs where "run_state (SendText 401 ''Unauthorized'' ''authentication failed'') (u\<lparr>attempts := bs\<rparr>) = (x, t)"
          by (simp add: Failure_def)
        from refusal [OF _ SendText_said [OF this]] show ?thesis using u(1) False ok by simp
      next
        case match: True
        obtain r c where cr: "run_state (Create (session_ttl_seconds (conf E))) ?v = (r, c)" by (rule prod.exhaust)
        have v: "sessions_ok ?v" using u(4) w(2) by (simp add: sessions_ok_def)
        from cr v assms(4) show ?thesis
        proof (cases rule: Create_run)
          case (failed rs)
          then have bad: "\<not> ?ok" using Create_none [of "session_ttl_seconds (conf E)" ?v] cr u(3) by (simp add: result_def)
          have "run_state (SendText 500 ''Internal Server Error'' ''cannot create session'') c = (x, t)"
            using run nc allow body check match cr failed(1) by (simp add: u_def [symmetric] Let_def)
          from refusal [OF _ SendText_said [OF this]] show ?thesis using u(1) failed(2) bad by simp
        next
          case (created a b rs ss)
          let ?c1 = "cookie_event (conf E) ''session'' (to_hex a) True" and ?c2 = "cookie_event (conf E) ''csrf'' (to_hex b) False"
          obtain bs where "run_state (Success (PeerAddress req)) c = ((), c\<lparr>attempts := bs\<rparr>)" by (simp add: Success_def)
          then have "run_state (SendText 200 ''OK'' ''login successful'') (c\<lparr>attempts := bs, out := out c @ [?c1, ?c2]\<rparr>) = (x, t)"
            using run nc allow body check match cr created(1)
            by (simp add: u_def [symmetric] Let_def run_headers cookie_event_def split_beta)
          note sd = SendText_said [OF this]
          have t: "live t = live c" "?c1 \<in> set (out t)" "?c2 \<in> set (out t)" "status_of t = Some 200"
            using said_live [OF sd] said_out [OF sd] said_facts(5) [OF sd] by auto
          have ?yes using t created(2,3) u by auto
          moreover have ?ok using ok match created(2) u(3) by simp
          ultimately show ?thesis by (intro iffD2 [OF if_P])
        qed
      qed
    qed
  qed
qed

end
