(* ===== verification/Service_Success.thy ===== *)
theory Service_Success
  imports Service_Serving
begin

text \<open>
  What the server achieves when no system call fails. The safety properties of the handlers hold for a server that
  answers every request with an error; here the uploads and downloads that should succeed do succeed, and what comes
  back is what was stored.
\<close>

subsection \<open>File operations when no call fails\<close>

lemma SetContent_existing:
  assumes "tape s = []" "lookup s f = Some (File i)"
  obtains m n g where "run_state (SetContent f content) s = (True, s\<lparr>inodes := m, fds := g, next_fd := n\<rparr>)"
    "mtime (m i) = clock s" "atime (m i) = atime (inodes s i)"
proof -
  let ?n = "next_fd s" and ?d = "\<lparr>fd_ino = Some i, fd_pos = 0\<rparr>"
  obtain m where op: "run_state (open_trunc f) s = (Some ?n, s\<lparr>inodes := m, fds := (fds s)(?n \<mapsto> ?d), next_fd := ?n + 1\<rparr>)"
      "mtime (m i) = clock s" "atime (m i) = atime (inodes s i)"
    using assms by (simp add: open_trunc_def syscall_def run_next new_fd_def)
  let ?u = "s\<lparr>inodes := m, fds := (fds s)(?n \<mapsto> ?d), next_fd := ?n + 1\<rparr>"
  obtain m' g where wr: "write_loop ?n content 0 ?u = (True, s\<lparr>inodes := m', fds := g, next_fd := ?n + 1\<rparr>)"
      "mtime (m' i) = clock s" "atime (m' i) = atime (inodes s i)"
  proof (cases "content = []")
    case True
    then show ?thesis using that op(2,3) by (simp add: write_loop.simps)
  next
    case False
    have "run_state (write_fd ?n content) ?u = (Some (length content), write_at ?n ?d i content ?u)"
      using assms(1) by (simp add: write_fd_def run_next transfer_def)
    with False have "write_loop ?n content 0 ?u = (True, write_at ?n ?d i content ?u)"
      by (subst write_loop.simps) (simp add: write_loop.simps [of ?n content "length content"])
    moreover let ?w = "write_at ?n ?d i content ?u"
    have "?w = s\<lparr>inodes := inodes ?w, fds := fds ?w, next_fd := ?n + 1\<rparr>"
      by (cases s) (simp add: write_at_def)
    moreover have "mtime (inodes ?w i) = clock s" "atime (inodes ?w i) = atime (inodes s i)"
      using op(2,3) by (simp_all add: write_at_def)
    ultimately show ?thesis using that by metis
  qed
  show thesis
    by (rule that [of "?n + 1" "g(?n := None)" m'])
       (use assms(1) op wr in \<open>simp_all add: SetContent_def fsync_def close_def syscall_def run_next\<close>)
qed

text \<open>Publishing under a free name, and what is left of the temporary one.\<close>

lemma CommitNoReplace_done:
  assumes "tape s = []" "lookup s p = Some (File i)" "lookup s f = None" "parent_exists s f"
  obtains t where "run_state (CommitNoReplace p f) s = (True, t)" "tape t = []" "suffixes t = suffixes s" "cwd t = cwd s"
    "inodes t = inodes s"
    "node t = (node s)(key s f \<mapsto> File i, key s p := None)" "os.more t = os.more s"
proof -
  have pf: "c_str f \<noteq> []" "key s f \<noteq> key s p" "c_str p \<noteq> []"
    using assms(2-4) by (auto simp: lookup_def parent_exists_def split: if_splits)
  let ?u = "s\<lparr>node := (node s)(key s f \<mapsto> File i)\<rparr>" and ?v = "s\<lparr>node := (node s)(key s f \<mapsto> File i, key s p := None)\<rparr>"
  have ln: "run_state (link p f) s = (True, ?u)"
    using assms by (simp add: link_def syscall_def run_next)
  have "lookup ?u p = Some (File i)" using assms(2) pf by (auto simp: lookup_def key_def split: if_splits)
  then have un: "run_state (unlink p) ?u = (True, ?v)"
    using assms(1) by (simp add: unlink_def syscall_def run_next key_def)
  obtain y w where sy: "run_state (SyncDirectory (ParentPath f)) ?v = (y, w)" by (rule prod.exhaust)
  have w: "tape w = []" using SyncDirectory_tape [of ?v "ParentPath f"] assms(1) sy by (simp add: final_def)
  have "silent ?v w" using SyncDirectory_run [OF sy] by (simp add: tidy_def)
  then have "suffixes w = suffixes s" "cwd w = cwd s" "node w = node ?v" "os.more w = os.more s" "inodes w = inodes s"
    by (simp_all add: silent_def)
  then show thesis using that [of w] w ln un sy by (simp add: CommitNoReplace_def)
qed

subsection \<open>Room for a temporary file\<close>

text \<open>A directory where \<open>mkstemp\<close> succeeds with the random characters \<open>x\<close>.\<close>

definition room :: "'z os_scheme \<Rightarrow> string \<Rightarrow> string \<Rightarrow> string \<Rightarrow> bool" where
  "room s directory prefix x \<longleftrightarrow> SLASH \<notin> set prefix \<and> lookup s directory = Some Dir \<and>
     NUL \<notin> set (JoinPath directory (prefix @ ''XXXXXX'')) \<and> lookup s (temp_base directory prefix @ x) = None \<and>
     parent_exists s (temp_base directory prefix @ x)"

lemma room_ready: "room s d p x \<Longrightarrow> suffixes s = x # xs \<Longrightarrow> temp_ready s d p"
  by (simp add: room_def temp_ready_def)

lemma CreateTempFile_room:
  assumes "tape s = []" "room s d prefix x" "suffixes s = x # xs"
  obtains t where "run_state (CreateTempFile d prefix) s = (Some (temp_base d prefix @ x), t)" "tape t = []"
    "suffixes t = xs" "cwd t = cwd s" "node t = (node s)(key s (temp_base d prefix @ x) \<mapsto> File (next_ino s))"
    "os.more t = os.more s" "clock t = clock s" "inodes t (next_ino s) = fresh_inode s"
proof -
  let ?p = "temp_base d prefix @ x" and ?tpl = "JoinPath d (prefix @ ''XXXXXX'')"
  let ?u = "create_at (key s ?p) (s\<lparr>suffixes := xs\<rparr>)"
  let ?v = "?u\<lparr>fds := (fds ?u)(next_fd s \<mapsto> \<lparr>fd_ino = Some (next_ino s), fd_pos = 0\<rparr>),
         next_fd := next_fd s + 1\<rparr>"
  have tail: "drop (length ?tpl - 6) ?tpl = ''XXXXXX''"
    using path_join_suffix [of d prefix] by (auto simp: JoinPath_def)
  have base: "take (length ?tpl - 6) ?tpl = temp_base d prefix" by (simp add: temp_base_def Let_def)
  have mk: "run_state (mkstemp ?tpl) s = (Some (next_fd s, ?p), ?v)"
    using assms tail by (simp add: mkstemp_def syscall_def run_next room_def base Let_def new_fd_def create_at_def)
  have run: "run_state (CreateTempFile d prefix) s = (Some ?p, ?v\<lparr>fds := (fds ?v)(next_fd s := None)\<rparr>)"
    using assms mk CreateDirectory_done [OF assms(1), of d]
    by (simp add: CreateTempFile_def room_def close_def syscall_def run_next create_at_def)
  show thesis
    by (rule that [OF run]) (simp_all add: create_at_def fresh_inode_def assms(1))
qed

subsection \<open>Storing\<close>

lemma Persist_room:
  assumes "tape s = []" "table_body E tbl \<noteq> None" "room s (ParentPath file) ''.storage-'' x" "suffixes s = x # xs"
    and "lookup s file \<noteq> Some Dir" "parent_exists s file"
  shows "result (Persist E file tbl) s"
  using assms Persist_done [OF assms(1) _ room_ready [OF assms(3,4)] assms(5,6)] by blast

lemma Insert_room:
  assumes "tape s = []" "hm_find (table s) (si_url info) = None" "table_body E (table s @ [(si_url info, info)]) \<noteq> None"
    and "room s (ParentPath (storage_file s)) ''.storage-'' x" "suffixes s = x # xs"
    and "lookup s (storage_file s) \<noteq> Some Dir" "parent_exists s (storage_file s)"
  shows "result (Insert E info) s = OK"
proof -
  obtain t where "run_state (Persist E (storage_file s) (table s @ [(si_url info, info)])) s = (True, t)"
    using Persist_room [OF assms(1,3-7)] by (metis run_result_final)
  then show ?thesis using assms(2) by (simp add: Insert_def result_def Let_def)
qed

lemma NewStorageInfo_done:
  assumes "tape s = []" "lookup s f = Some (File i)" "0 \<le> mtime (inodes s i)" "0 \<le> atime (inodes s i)"
    and "ty = ''low'' \<or> ty = ''deep''"
  obtains info where "run_state (NewStorageInfo E f f ty) s = (Some info, s)" "si_path info = f"
    "si_url info = download_prefix (conf E) @ FileName f" "si_type info = ty"
proof -
  obtain info where run: "run_state (NewStorageInfo E f f ty) s = (Some info, s)"
    using assms
    by (simp add: NewStorageInfo_def LastModifyTime_def LastAccessTime_def FileSize_done stat_def syscall_def run_next stat_node_def)
  from NewStorageInfo_run(2) [OF run refl] run that show thesis by blast
qed

text \<open>
  What an upload needs from the file system, besides calls that do not fail: its directories exist, its final name is
  free, and \<open>mkstemp\<close> draws unused names.
\<close>

definition upload_room :: "'z service_state_scheme \<Rightarrow> string \<Rightarrow> string \<Rightarrow> bool" where
  "upload_room s directory filename \<longleftrightarrow>
     (case suffixes s of
        x # y # xs \<Rightarrow> room s directory ''.upload-'' x \<and> room s (ParentPath (storage_file s)) ''.storage-'' y \<and>
          key s (JoinPath directory filename) \<notin> {key s (temp_base directory ''.upload-'' @ x),
            key s (temp_base (ParentPath (storage_file s)) ''.storage-'' @ y)}
      | _ \<Rightarrow> False) \<and>
     lookup s (JoinPath directory filename) = None \<and> parent_exists s (JoinPath directory filename) \<and>
     key s (JoinPath directory filename) \<noteq> key s (storage_file s) \<and>
     lookup s (storage_file s) \<noteq> Some Dir \<and> parent_exists s (storage_file s)"

text \<open>The state after publication is as good for the metadata as the one before.\<close>

lemma published_room:
  assumes "node t = (node s)(kf \<mapsto> File i, kp := None)" "cwd t = cwd s" "node s kf = None" "node s kp = None"
  shows "room s d pre y \<Longrightarrow> key s (temp_base d pre @ y) \<noteq> kf \<Longrightarrow> room t d pre y"
    and "parent_exists s p \<Longrightarrow> parent_exists t p"
    and "lookup s p \<noteq> Some Dir \<Longrightarrow> lookup t p \<noteq> Some Dir"
  using assms by (auto simp: room_def lookup_def parent_exists_def key_def split: if_splits)

lemma data_fields:
  assumes "os.more t = os.more s"
  shows "table t = table s" "storage_file t = storage_file s"
  using assms by (cases s; cases t; simp)+

lemma record_upload_done:
  assumes "tape s = []" "lookup s f = Some (File i)" "0 \<le> mtime (inodes s i)" "0 \<le> atime (inodes s i)"
    and "ty = ''low'' \<or> ty = ''deep''" "hm_find (table s) (download_prefix (conf E) @ FileName f) = None"
    and "\<And>info. si_path info = f \<Longrightarrow> si_url info = download_prefix (conf E) @ FileName f \<Longrightarrow> si_type info = ty \<Longrightarrow>
      table_body (env.truncate E) (table s @ [(si_url info, info)]) \<noteq> None"
    and "room s (ParentPath (storage_file s)) ''.storage-'' y" "suffixes s = y # ys"
    and "lookup s (storage_file s) \<noteq> Some Dir" "parent_exists s (storage_file s)"
  shows "status_of (final (record_upload E f ty) s) = Some 201"
proof -
  obtain info where info: "run_state (NewStorageInfo (env.truncate E) f f ty) s = (Some info, s)" "si_path info = f"
      "si_url info = download_prefix (conf E) @ FileName f" "si_type info = ty"
    using NewStorageInfo_done [OF assms(1-5), of "env.truncate E"] by (metis conf_truncate(1))
  have "result (Insert (env.truncate E) info) s = OK"
    by (rule Insert_room [OF assms(1) _ assms(7) [OF info(2-4)] assms(8-11)]) (simp add: assms(6) info(3))
  then obtain u where ins: "run_state (Insert (env.truncate E) info) s = (OK, u)" by (metis run_result_final)
  obtain x t where st: "run_state (SendText 201 ''Created'' ''upload successful'') u = (x, t)" by (rule prod.exhaust)
  have "final (record_upload E f ty) s = t"
    using info(1) ins st by (simp add: record_upload_def final_def)
  then show ?thesis using said_facts(5) [OF SendText_said [OF st]] by simp
qed

text \<open>
  Nothing keeps the metadata file out of the storage directories. On a first start an upload may have its name: the
  content has then just been published under it, the answer is 201, and the name denotes the new snapshot.
\<close>

lemma upload_overwritten:
  assumes "tape s = []" "lookup s f = Some (File i)" "0 \<le> mtime (inodes s i)" "0 \<le> atime (inodes s i)"
    and "ty = ''low'' \<or> ty = ''deep''" "hm_find (table s) (download_prefix (conf E) @ FileName f) = None"
    and "\<And>info. si_path info = f \<Longrightarrow> si_url info = download_prefix (conf E) @ FileName f \<Longrightarrow> si_type info = ty \<Longrightarrow>
      table_body (env.truncate E) (table s @ [(si_url info, info)]) \<noteq> None"
    and "room s (ParentPath (storage_file s)) ''.storage-'' y" "suffixes s = y # ys"
    and "lookup s (storage_file s) \<noteq> Some Dir" "parent_exists s (storage_file s)"
    and "key s f = key s (storage_file s)" "t = final (record_upload E f ty) s"
  shows "status_of t = Some 201 \<and> (\<exists>j. lookup t f = Some (File j) \<and> table_body (env.truncate E) (table t) = Some (bytes (inodes t j)))"
proof -
  obtain info where info: "run_state (NewStorageInfo (env.truncate E) f f ty) s = (Some info, s)" "si_path info = f"
      "si_url info = download_prefix (conf E) @ FileName f" "si_type info = ty"
    using NewStorageInfo_done [OF assms(1-5), of "env.truncate E"] by (metis conf_truncate(1))
  have "result (Insert (env.truncate E) info) s = OK"
    by (rule Insert_room [OF assms(1) _ assms(7) [OF info(2-4)] assms(8-11)]) (simp add: assms(6) info(3))
  then obtain u where ins: "run_state (Insert (env.truncate E) info) s = (OK, u)" by (metis run_result_final)
  obtain x v where st: "run_state (SendText 201 ''Created'' ''upload successful'') u = (x, v)" by (rule prod.exhaust)
  note sd = SendText_said [OF st]
  have t: "t = v" using info(1) ins st assms(13) by (simp add: record_upload_def final_def)
  have k: "kept {key s (storage_file s)} s u" "synced (env.truncate E) u"
    using ins by (cases rule: Insert_run; auto elim!: commit_table_run dest: kept_replaces(1))+
  have "key v p = key s p" "storage_file v = storage_file s" for p
    using kept_key [OF kept_trans [OF k(1) said_facts(1) [OF sd]]] kept_trans [OF k(1) said_facts(1) [OF sd]] by (simp_all add: kept_def)
  moreover have "synced (env.truncate E) v" using k(2) by (simp add: said_facts(4) [OF sd])
  moreover have "c_str f \<noteq> []" using assms(2) by (auto simp: lookup_def)
  ultimately show ?thesis
    using assms(12) said_facts(5) [OF sd] unfolding t synced_def lookup_def by (auto split: if_splits)
qed

lemma store_upload_done:
  assumes "tape s = []" "upload_room s d f" "suffixes s = x # xs" "0 \<le> clock s" "fs_wf s"
    and "ty = ''low'' \<or> ty = ''deep''" "hm_find (table s) (download_prefix (conf E) @ FileName (JoinPath d f)) = None"
    and "\<And>info. si_path info = JoinPath d f \<Longrightarrow> si_url info = download_prefix (conf E) @ FileName (JoinPath d f) \<Longrightarrow>
      si_type info = ty \<Longrightarrow> table_body (env.truncate E) (table s @ [(si_url info, info)]) \<noteq> None"
    and tmp: "run_state (CreateTempFile d ''.upload-'') s = (Some p, t)"
  shows "status_of (final (store_upload E d f ty content p) t) = Some 201"
proof -
  let ?f = "JoinPath d f" and ?i = "next_ino s"
  obtain y ys where xs: "xs = y # ys" using assms(2,3) by (auto simp: upload_room_def split: list.splits)
  have rm: "room s d ''.upload-'' x" "room s (ParentPath (storage_file s)) ''.storage-'' y"
      "key s (temp_base (ParentPath (storage_file s)) ''.storage-'' @ y) \<noteq> key s ?f"
      "key s ?f \<noteq> key s (temp_base d ''.upload-'' @ x)"
      "lookup s ?f = None" "parent_exists s ?f" "lookup s (storage_file s) \<noteq> Some Dir" "parent_exists s (storage_file s)"
    using assms(2,3) by (auto simp: upload_room_def xs)
  obtain t' where t: "p = temp_base d ''.upload-'' @ x" "t' = t" "tape t = []" "suffixes t = xs" "cwd t = cwd s"
      "node t = (node s)(key s p \<mapsto> File ?i)" "os.more t = os.more s" "clock t = clock s" "inodes t ?i = fresh_inode s"
    using CreateTempFile_room [OF assms(1) rm(1) assms(3)] tmp by (metis Pair_inject option.inject)
  have np: "node s (key s p) = None" "c_str p \<noteq> []"
    using rm(1) t(1) by (auto simp: room_def lookup_def parent_exists_def)
  have kt: "key t q = key s q" for q using t(5) by (simp add: key_def)
  have lp: "lookup t p = Some (File ?i)" using t(6) np(2) kt by (simp add: lookup_def)
  obtain m n g where set: "run_state (SetContent p (stored_form E ty content)) t = (True, t\<lparr>inodes := m, fds := g, next_fd := n\<rparr>)"
      "mtime (m ?i) = clock t" "atime (m ?i) = atime (inodes t ?i)"
    by (rule SetContent_existing [OF t(3) lp])
  let ?u = "t\<lparr>inodes := m, fds := g, next_fd := n\<rparr>"
  have ku: "key ?u q = key s q" for q using t(5) by (simp add: key_def)
  have nf: "node s (key s ?f) = None" "c_str ?f \<noteq> []" using rm(5,6) by (auto simp: lookup_def parent_exists_def)
  have "tape ?u = []" using t(3) by simp
  moreover have "lookup ?u p = Some (File ?i)" "lookup ?u ?f = None"
    using np nf rm(4) t(1,6) by (simp_all only: lookup_def ku) simp_all
  moreover have "parent_exists ?u ?f"
    using rm(6) np t(6) unfolding parent_exists_def ku by auto
  ultimately obtain v where co: "run_state (CommitNoReplace p ?f) ?u = (True, v)" "tape v = []" "suffixes v = suffixes ?u" "cwd v = cwd ?u"
      "inodes v = inodes ?u" "node v = (node ?u)(key ?u ?f \<mapsto> File ?i, key ?u p := None)" "os.more v = os.more ?u"
    by (rule CommitNoReplace_done)
  have nv: "node v = (node s)(key s ?f \<mapsto> File ?i, key s p := None)"
    unfolding co(6) ku using t(6) by auto
  have cv: "cwd v = cwd s" "os.more v = os.more s" "suffixes v = y # ys" using co(3,4,7) t(4,5,7) xs by simp_all
  have "key v q = key s q" for q using cv(1) by (simp add: key_def)
  then have lv: "lookup v ?f = Some (File ?i)" using nv nf rm(4) t(1) by (simp add: lookup_def)
  note df = data_fields [OF cv(2)] and pub = published_room [OF nv cv(1) nf(1) np(1)]
  have "status_of (final (record_upload E ?f ty) v) = Some 201"
    by (rule record_upload_done [OF co(2) lv _ _ assms(6) _ _ pub(1) [OF rm(2,3), folded df(2)] cv(3)])
       (use assms(4,7,8) set(2,3) t(8,9) rm(7,8) pub(2,3) co(5) in \<open>simp_all add: df fresh_inode_def\<close>)
  then show ?thesis
    using set(1) co(1) by (simp add: store_upload_record final_def Let_def)
qed

text \<open>A request to upload that meets every condition, with its body delivered in full.\<close>

definition upload_sent :: "config \<Rightarrow> request \<Rightarrow> bool" where
  "upload_sent c req \<longleftrightarrow> upload_ok c req \<and> length (the (find_header req ''FileName'')) \<in> {1..1024} \<and>
     (case req_body req of None \<Rightarrow> False | Some body \<Rightarrow>
        (case req_copyout req (length body) of None \<Rightarrow> False | Some copy \<Rightarrow> length copy = length body))"

lemma guard_status: "status_of (final (TempFileGuard p body) s) = status_of (final body s)"
proof -
  have "out (final (TempFileGuard p body) s) = out (final body s)"
    by (simp add: TempFileGuard_def final_bind final_give mute_calls(2) [unfolded mute_def])
  then show ?thesis by (simp add: status_of_def)
qed

lemma Upload_accepted:
  assumes "upload_ok c req" "length (the (find_header req ''FileName'')) \<in> {1..1024}" "c = conf E"
  shows "Upload E req = Upload_checked E req (length (the (req_body req))) (upload_name req) (upload_type req)"
  using assms
  by (auto simp: Upload_def upload_ok_def upload_name_def upload_type_def split: option.splits prod.splits)

lemma upload_FileName:
  assumes "upload_ok c req" "d \<noteq> []" "NUL \<notin> set d"
  shows "FileName (JoinPath d (upload_name req)) = upload_name req"
proof -
  have "IsSafeFileName (upload_name req)"
    using assms(1) by (auto simp: upload_ok_def upload_name_def split: option.splits)
  from path_join_facts(3) [OF assms(2) safe_name(1) [OF this]] show ?thesis by (simp add: JoinPath_def FileName_def)
qed

lemma Upload_done:
  assumes "tape s = []" "fs_wf s" "0 \<le> clock s" "upload_sent (conf E) req"
    and "upload_room s (storage_dir (conf E) (upload_type req)) (upload_name req)"
    and "hm_find (table s) (download_prefix (conf E) @ upload_name req) = None"
    and "NUL \<notin> set (storage_dir (conf E) (upload_type req))" "storage_dir (conf E) (upload_type req) \<noteq> []"
    and "\<And>info. si_path info = JoinPath (storage_dir (conf E) (upload_type req)) (upload_name req) \<Longrightarrow>
      si_url info = download_prefix (conf E) @ upload_name req \<Longrightarrow> si_type info = upload_type req \<Longrightarrow>
      table_body (env.truncate E) (table s @ [(si_url info, info)]) \<noteq> None"
  shows "status_of (final (Upload E req) s) = Some 201"
proof -
  let ?d = "storage_dir (conf E) (upload_type req)" and ?f = "upload_name req"
  obtain x xs where xs: "suffixes s = x # xs" "room s ?d ''.upload-'' x"
    using assms(5) by (auto simp: upload_room_def split: list.splits)
  obtain body copy where b: "req_body req = Some body" "req_copyout req (length body) = Some copy" "length copy = length body"
    and ok: "upload_ok (conf E) req"
    using assms(4) by (auto simp: upload_sent_def split: option.splits)
  obtain p t where tmp: "run_state (CreateTempFile ?d ''.upload-'') s = (Some p, t)" and p: "c_str p \<noteq> []"
    using CreateTempFile_done [OF assms(1) room_ready [OF xs(2,1)]] by metis
  have ty: "upload_type req = ''low'' \<or> upload_type req = ''deep''"
    using ok by (auto simp: upload_ok_def upload_type_def split: option.splits)
  have dir: "run_state (CreateDirectory ?d) s = (True, s)"
    using CreateDirectory_done [OF assms(1)] xs(2) by (simp add: room_def)
  have fn: "FileName (JoinPath ?d ?f) = ?f" by (rule upload_FileName [OF ok assms(8,7)])
  have "hm_find (table s) (download_prefix (conf E) @ FileName (JoinPath ?d ?f)) = None" using assms(6) fn by simp
  moreover have "table_body (env.truncate E) (table s @ [(si_url info, info)]) \<noteq> None"
    if "si_path info = JoinPath ?d ?f" "si_url info = download_prefix (conf E) @ FileName (JoinPath ?d ?f)"
      "si_type info = upload_type req" for info
    using assms(9) [OF that(1) _ that(3)] that(2) fn by simp
  ultimately have st: "status_of (final (store_upload E ?d ?f (upload_type req) copy p) t) = Some 201"
    by (rule store_upload_done [OF assms(1,5) xs(1) assms(3,2) ty _ _ tmp])
  have free: "hm_find (table s) (download_prefix (conf E) @ ?f) = None" by (rule assms(6))
  have "run_state (Upload E req) s = run_state (Upload_checked E req (length body) ?f (upload_type req)) s"
    by (subst Upload_accepted [OF ok _ refl]) (use assms(4) b(1) in \<open>simp_all add: upload_sent_def\<close>)
  moreover have "run_state (Upload_checked E req (length body) ?f (upload_type req)) s =
      run_state (TempFileGuard p (store_upload E ?d ?f (upload_type req) copy p)) t"
    using dir tmp free b(2,3) ty by (auto simp: Upload_checked_def GetOneByURL_def storage_dir_def Let_def)
  ultimately show ?thesis
    using st guard_status [of p "store_upload E ?d ?f (upload_type req) copy p" t] by (simp add: final_def)
qed

text \<open>A download of a file kept as it is.\<close>

lemma send_part_done:
  assumes "tape s = []" "lookup s p = Some (File i)" "req_method req = GET" "range_status rng \<noteq> PARTIAL" "len \<le> of_nat off_t_max"
  shows "status_of (final (send_part req p None rng 0 len) s) = Some 200"
proof -
  let ?u = "s\<lparr>fds := (fds s)(next_fd s \<mapsto> \<lparr>fd_ino = Some i, fd_pos = 0\<rparr>), next_fd := next_fd s + 1\<rparr>"
  have op: "run_state (open_rdonly p) s = (Some (next_fd s), ?u)"
    using assms by (simp add: open_rdonly_def syscall_def run_next new_fd_def)
  obtain w where ev: "run_state (evbuffer_add_file (next_fd s) 0 (unat len)) ?u = (True, w)"
    using assms(1) by (simp add: evbuffer_add_file_def syscall_def run_next emit_def)
  have size: "\<not> (of_nat off_t_max < (0::u64) \<or> of_nat off_t_max < len)" using assms(5) by (auto simp: not_less)
  have "final (send_part req p None rng 0 len) s = w\<lparr>out := out w @ [Send_reply 200 ''OK'']\<rparr>"
    using assms(3,4) op ev size
    by (simp add: send_part_def final_def partial_reply_def run_headers)
  then show ?thesis by (simp add: status_of_def)
qed

lemma Download_done:
  assumes "tape s = []" "hm_find (table s) url = Some info" "si_type info = ''low''" "lookup s (si_path info) = Some (File i)"
    and "length (bytes (inodes s i)) < 2 ^ 63" "req_method req = GET" "find_header req ''Range'' = None"
  shows "status_of (final (Download E req url) s) = Some 200"
proof -
  let ?len = "of_nat (length (bytes (inodes s i))) :: u64"
  have r: "chosen_range E req tag len = ByteRange_default" for tag len using assms(7) by (simp add: chosen_range_def)
  have small: "?len \<le> of_nat off_t_max"
    using assms(5) by (simp add: word_le_nat_alt unat_of_nat_u64 off_t_max_def)
  obtain es where "run_state (send_file E req info (si_path info) None) s =
      run_state (send_part req (si_path info) None ByteRange_default 0 ?len) (s\<lparr>out := es\<rparr>)"
    using assms(1,4) by (simp add: send_file_def FileSize_done Let_def run_headers r ByteRange_default_def)
  moreover have "status_of (final (send_part req (si_path info) None ByteRange_default 0 ?len) (s\<lparr>out := es\<rparr>)) = Some 200"
    by (rule send_part_done [where i = i])
       (use assms(1,4,6) small in \<open>simp_all add: ByteRange_default_def lookup_def key_def split: if_splits\<close>)
  moreover have "final (Download E req url) s = final (send_file E req info (si_path info) None) s"
    using assms(2,3) by (simp add: Download_def GetOneByURL_def final_def TempFileGuard_def split: prod.split)
  ultimately show ?thesis by (simp add: final_def)
qed

subsection \<open>Properties\<close>

text \<open>C22. A proper upload succeeds. If no system call fails, the request meets every condition, there is room for the
  file under a free name and its record can be written as JSON, then the reply is 201. So the handler is
  not safe merely by refusing everything.\<close>

theorem proper_upload_succeeds:
  assumes "tape s = []" and "fs_wf s" and "0 \<le> clock s" and "upload_sent (conf E) req"
    and "NUL \<notin> set (storage_dir (conf E) (upload_type req))" and "storage_dir (conf E) (upload_type req) \<noteq> []"
    and "upload_room s (storage_dir (conf E) (upload_type req)) (upload_name req)"
    and "hm_find (table s) (download_prefix (conf E) @ upload_name req) = None"
    and "\<And>info. si_path info = JoinPath (storage_dir (conf E) (upload_type req)) (upload_name req) \<Longrightarrow>
      si_url info = download_prefix (conf E) @ upload_name req \<Longrightarrow> si_type info = upload_type req \<Longrightarrow>
      table_body (env.truncate E) (table s @ [(si_url info, info)]) \<noteq> None"
  shows "status_of (final (Upload E req) s) = Some 201"
  by (rule Upload_done) fact+

text \<open>C7. What was uploaded comes back. If an upload is answered with 201 and the file is then asked for with GET and
  the answer is 200, the body of the answer is the body of the upload, byte for byte, whichever
  system calls failed in between. For plain storage there is no condition on the content; for compressed storage
  the compressor must keep its laws, and if it does not take this content, so that it is stored as it is, the content must not
  itself look compressed (\<open>raw_content_unpacked\<close> shows that it would be unpacked then). As in
  \<open>upload_all_or_nothing\<close>, the upload must not have the name of a metadata file that does not exist yet. The content is shorter
  than \<open>2 ^ 64\<close> bytes, the number of the compressor below 128 (the configuration allows 0 to 5), and the name of the storage directory
  not empty and without NUL.\<close>

theorem upload_then_download:
  assumes "fs_wf s" and "spared s (JoinPath (storage_dir (conf E) (upload_type req)) (upload_name req))"
    and "t = final (Upload E req) s" and "status_of t = Some 201"
    and "NUL \<notin> set (storage_dir (conf E) (upload_type req))" and "storage_dir (conf E) (upload_type req) \<noteq> []"
    and "bundle_format (conf E) < 128" and "length (upload_content req) < 2 ^ 64"
    and "upload_type req = ''deep'' \<Longrightarrow> bundle_laws (compressor E) \<and>
      packable (compressor E) (nat (bundle_format (conf E))) (upload_content req)"
    and "req_method dl = GET" and "u = final (Download E dl (download_prefix (conf E) @ upload_name req)) (t\<lparr>tape := outcomes\<rparr>)"
    and "status_of u = Some 200"
  shows "sent t u = upload_content req"
proof -
  let ?d = "storage_dir (conf E) (upload_type req)" and ?c = "upload_content req"
  let ?url = "download_prefix (conf E) @ upload_name req"
  have up: "upload_outcome E ?d (upload_name req) (upload_type req) ?c s t" "upload_ok (conf E) req"
    using Upload_final [OF assms(1,2)] assms(3,4) by simp_all
  have fn: "FileName (JoinPath ?d (upload_name req)) = upload_name req"
    by (rule upload_FileName [OF up(2) assms(6,5)])
  from up(1) assms(4) fn obtain info i where info: "si_path info = JoinPath ?d (upload_name req)" "si_type info = upload_type req"
      "hm_find (table s) ?url = None" "table t = table s @ [(?url, info)]" "lookup t (si_path info) = Some (File i)"
      "bytes (inodes t i) = stored_form E (upload_type req) ?c" "fs_wf t"
    unfolding upload_outcome_def by auto
  have found: "hm_find (table t) ?url = Some info"
    using info(3,4) by (simp add: hm_find_def map_add_def)
  have ty: "upload_type req = ''low'' \<or> upload_type req = ''deep''"
    using up(2) by (auto simp: upload_ok_def upload_type_def split: option.splits)
  have orig: "?c = original E info (bytes (inodes t i))"
  proof (cases "upload_type req = ''deep''")
    case True
    have "nat (bundle_format (conf E)) < 128" using assms(7) by simp
    from unpack_pack [OF _ this assms(8)] assms(9) [OF True] True
    show ?thesis by (simp add: original_def info(2,6) stored_form_def)
  next
    case False
    then show ?thesis using ty by (simp add: original_def info(2,6) stored_form_def)
  qed
  let ?t = "t\<lparr>tape := outcomes\<rparr>"
  have next_state: "fs_wf ?t" "hm_find (table ?t) ?url = Some info" "lookup ?t (si_path info) = Some (File i)"
      "?c = original E info (bytes (inodes ?t i))"
    using info(5,7) found orig by (simp_all add: fs_wf_def lookup_def key_def split: if_splits)
  have "sent t u = sent ?t u" by (simp add: sent_def)
  with Download_sends(1) [OF next_state assms(8,11) refl] assms(12)
  show ?thesis using assms(10) by (simp add: download_data_def)
qed

text \<open>C23. A download sends the stored bytes. If the record names a file, whose content (decompressed for deep storage) is shorter than
  \<open>2 ^ 64\<close> bytes, and the answer is 200 or 206, the body consists of the bytes of the stored
  file (decompressed for deep storage): all of them for 200, exactly those of the range that was asked for
  206, none for HEAD. Every file that was there before, and every record, is as it was.\<close>

theorem download_sends_stored:
  assumes "fs_wf s" and "hm_find (table s) url = Some info" and "lookup s (si_path info) = Some (File i)"
    and "content = original E info (bytes (inodes s i))" and "length content < 2 ^ 64"
    and "t = final (Download E req url) s" and "rng = download_range E req info content"
    and "status_of t \<in> {Some 200, Some 206}"
  shows "sent s t = download_data req rng content \<and> (status_of t = Some 206 \<longleftrightarrow> range_status rng = PARTIAL) \<and>
    kept {} s t \<and> table t = table s"
  using Download_sends [OF assms(1-7)] assms(8) by simp

text \<open>C24. Login opens a session exactly for the right password. If the address is not blocked, the hash of the
  password is the configured one and the random generator works, the answer is 200, a fresh session with a
  fresh CSRF token is in force for the configured time, and both are sent as cookies, the session as
  \<^verbatim>\<open>HttpOnly\<close>. In every other case the answer is not 200 and the sessions in force are as before.\<close>

theorem login_opens_session:
  assumes "memcmp_law E" and "sessions_ok s" and "0 < session_ttl_seconds (conf E)" and "t = final (Login E req) s"
  shows "if login_ok E s req \<and> (\<exists>a b rs. random s = Some a # Some b # rs) then
      status_of t = Some 200 \<and>
      (\<exists>a b rs. random s = Some a # Some b # rs \<and>
         live t = (live s)(to_hex a \<mapsto> \<lparr>csrf_token = to_hex b, expires_at = now s + seconds (session_ttl_seconds (conf E))\<rparr>) \<and>
         cookie_event (conf E) ''session'' (to_hex a) True \<in> set (out t) \<and>
         cookie_event (conf E) ''csrf'' (to_hex b) False \<in> set (out t))
    else status_of t \<noteq> Some 200 \<and> live t = live s"
proof -
  obtain x u where run: "run_state (Login E req) s = (x, u)" by (rule prod.exhaust)
  have "t = u" using assms(4) run by (simp add: final_def)
  then show ?thesis using Login_run [OF run assms(1-3)] by (simp only:)
qed

subsection \<open>Examples\<close>

definition current_dir :: config where
  "current_dir = shipped\<lparr>low_storage_dir := ''.''\<rparr>"

definition get_request :: request where
  "get_request = \<lparr>req_path = Some ''/download/a'', req_method = GET, req_header = (\<lambda>n. None), req_body = None,
     req_copyout = (\<lambda>n. None), req_peer = None\<rparr>"

lemma upload_request_facts:
  "upload_type upload_request = ''low''" "upload_name upload_request = ''a''" "upload_content upload_request = ''hello''"
  "upload_sent current_dir upload_request"
proof -
  show ty: "upload_type upload_request = ''low''" "upload_content upload_request = ''hello''"
    by (simp_all add: upload_type_def upload_content_def upload_request_def blank_request_def find_header_def c_str_def)
  show n: "upload_name upload_request = ''a''"
    unfolding upload_name_def upload_request_def find_header_def by code_simp
  have dec: "base64_decode ''YQ=='' = (True, ''a'')" by code_simp
  have "IsSafeFileName ''a''" by (simp add: IsSafeFileName_def)
  then show "upload_sent current_dir upload_request"
    by (simp add: upload_sent_def upload_ok_def current_dir_def shipped_def upload_request_def blank_request_def
      find_header_def c_str_def dec)
qed

text \<open>A server that has just started: an empty table, saved in \<open>meta\<close>.\<close>

definition empty_body :: string where
  "empty_body = the (table_body (ref_env current_dir) [])"

definition fresh_server :: service_state where
  "fresh_server = (service_boot [])\<lparr>node := (\<lambda>k. if k = [] then Some Dir else if k = [''meta''] then Some (File 0) else None),
     inodes := (\<lambda>i. \<lparr>bytes = empty_body, mtime = 0, atime = 0\<rparr>), next_ino := 1\<rparr>"

lemma fresh_fields:
  "cwd fresh_server = []" "tape fresh_server = []" "storage_file fresh_server = ''meta''" "table fresh_server = []"
  "suffixes fresh_server = [''aaaaaa'', ''bbbbbb'', ''cccccc'']" "next_ino fresh_server = 1"
  "node fresh_server k = (if k = [] then Some Dir else if k = [''meta''] then Some (File 0) else None)"
  "0 \<le> clock fresh_server" "fds fresh_server = (\<lambda>fd. None)" "bytes (inodes fresh_server i) = empty_body"
  by (simp_all add: fresh_server_def service_boot_def server_boot_def data_boot_def boot_def os.defs data_state.defs
    server_state.defs service_state.defs)

lemma fresh_wf: "fs_wf fresh_server"
  by (auto simp: fs_wf_def fresh_fields split: if_splits)

lemma fresh_key: "key fresh_server p = walk (path_names (c_str p)) []"
  by (simp add: key_def fresh_fields)

lemma fresh_synced: "synced (ref_env current_dir) fresh_server"
proof -
  have "table_body (ref_env current_dir) [] = Some empty_body"
    by (simp add: empty_body_def table_body_def ref_env_def Serialize_def table_json_def Let_def ref_json_def elements_def write_json_def)
  then show ?thesis by (simp add: synced_def fresh_fields lookup_def fresh_key data_boot_paths)
qed

lemma fresh_spared: "spared fresh_server p"
  using agrees_exists [OF synced_agrees [OF fresh_synced]] unfolding spared_def by blast

lemma upload_paths:
  "walk (path_names (c_str (temp_base ''.'' ''.upload-'' @ ''aaaaaa''))) [] = [''.upload-aaaaaa'']"
  "walk (path_names (c_str (temp_base ''.'' ''.storage-'' @ ''bbbbbb''))) [] = [''.storage-bbbbbb'']"
  "walk (path_names (c_str (JoinPath ''.'' ''a''))) [] = [''a'']" "c_str (JoinPath ''.'' ''a'') = ''./a''"
  "c_str (temp_base ''.'' ''.upload-'' @ ''aaaaaa'') \<noteq> []" "c_str (temp_base ''.'' ''.storage-'' @ ''bbbbbb'') \<noteq> []"
  "NUL \<notin> set (JoinPath ''.'' (''.upload-'' @ ''XXXXXX''))" "NUL \<notin> set (JoinPath ''.'' (''.storage-'' @ ''XXXXXX''))"
  by code_simp+

lemma fresh_room: "upload_room fresh_server ''.'' ''a''"
  using upload_paths
  by (simp add: upload_room_def fresh_fields room_def lookup_def fresh_key parent_exists_def data_boot_paths)

lemma record_written:
  assumes "si_path info = JoinPath ''.'' ''a''" "si_url info = ''/download/a''" "si_type info = ''low''"
  shows "\<exists>body. table_body (ref_env current_dir) [(''/download/a'', info)] = Some body"
proof -
  have "NUL \<notin> set (JoinPath ''.'' ''a'')" by code_simp
  then show ?thesis using assms
    by (simp add: table_body_def ref_env_def Serialize_def table_json_def info_json_def Let_def
      ref_json_def members_def elements_def write_json_def)
qed

lemma current_dir_facts:
  "storage_dir current_dir ''low'' = ''.''" "download_prefix current_dir = ''/download/''"
  "bundle_format current_dir = 4" "0 < session_ttl_seconds current_dir"
  by (simp_all add: storage_dir_def current_dir_def shipped_def)

lemma proper_upload_succeeds_witness:
  "status_of (final (Upload (ref_service current_dir) upload_request) fresh_server) = Some 201"
  by (rule proper_upload_succeeds)
     (use fresh_room fresh_wf record_written in
       \<open>simp_all add: upload_request_facts current_dir_facts fresh_fields hm_find_def\<close>)

text \<open>The request to get it back, when every call succeeds again.\<close>

definition stored_server :: service_state where
  "stored_server = final (Upload (ref_service current_dir) upload_request) fresh_server"

lemma stored_server_facts:
  "status_of stored_server = Some 201"
  "\<exists>info i. hm_find (table stored_server) ''/download/a'' = Some info \<and> si_type info = ''low'' \<and>
     lookup stored_server (si_path info) = Some (File i) \<and> bytes (inodes stored_server i) = ''hello''"
proof -
  show st: "status_of stored_server = Some 201" unfolding stored_server_def
    by (rule Upload_done)
       (use fresh_room fresh_wf record_written in
         \<open>simp_all add: upload_request_facts current_dir_facts fresh_fields hm_find_def\<close>)
  have "upload_outcome (ref_service current_dir) ''.'' ''a'' ''low'' ''hello'' fresh_server stored_server"
    using Upload_final [OF fresh_wf, of "ref_service current_dir" upload_request] fresh_spared
    by (simp add: stored_server_def upload_request_facts current_dir_facts)
  moreover have "FileName (JoinPath ''.'' ''a'') = ''a''" by code_simp
  ultimately obtain info i where "si_url info = ''/download/a''" "hm_find (table fresh_server) (si_url info) = None"
      "table stored_server = table fresh_server @ [(si_url info, info)]" "si_type info = ''low''"
      "lookup stored_server (si_path info) = Some (File i)" "bytes (inodes stored_server i) = ''hello''"
    using st by (auto simp: upload_outcome_def stored_form_def current_dir_facts)
  then show "\<exists>info i. hm_find (table stored_server) ''/download/a'' = Some info \<and> si_type info = ''low'' \<and>
      lookup stored_server (si_path info) = Some (File i) \<and> bytes (inodes stored_server i) = ''hello''"
    by (intro exI [of _ info] exI [of _ i]) (simp add: hm_find_def map_add_def)
qed

lemma lookup_tape: "lookup (s\<lparr>tape := ts\<rparr>) p = lookup s p"
  unfolding lookup_def key_def by simp

lemma fetched:
  "status_of (final (Download (ref_service current_dir) get_request ''/download/a'') (stored_server\<lparr>tape := []\<rparr>)) = Some 200"
proof -
  obtain info i where i: "hm_find (table stored_server) ''/download/a'' = Some info" "si_type info = ''low''"
      "lookup stored_server (si_path info) = Some (File i)" "bytes (inodes stored_server i) = ''hello''"
    using stored_server_facts(2) by blast
  show ?thesis
    by (rule Download_done [where i = i]) (use i in \<open>simp_all add: get_request_def find_header_def lookup_tape\<close>)
qed

lemma upload_then_download_witness:
  "sent stored_server (final (Download (ref_service current_dir) get_request ''/download/a'') (stored_server\<lparr>tape := []\<rparr>)) = ''hello''"
proof -
  have "packable stored_lib 4 ''hello''" by (simp add: packable_def stored_lib_def)
  moreover have "status_of (final (Upload (ref_service current_dir) upload_request) fresh_server) = Some 201"
    using stored_server_facts(1) by (simp add: stored_server_def)
  ultimately show ?thesis
    unfolding stored_server_def
    by (intro upload_then_download [OF fresh_wf _ refl, of "ref_service current_dir" upload_request get_request _ "[]", THEN trans])
       (use fresh_spared fetched stored_laws in
         \<open>simp_all add: upload_request_facts current_dir_facts get_request_def stored_server_def\<close>)
qed

lemma download_sends_stored_witness:
  "sent (stored_server\<lparr>tape := []\<rparr>) (final (Download (ref_service current_dir) get_request ''/download/a'')
     (stored_server\<lparr>tape := []\<rparr>)) = ''hello''"
proof -
  let ?s = "stored_server\<lparr>tape := []\<rparr>"
  have "fs_wf stored_server"
    using Upload_final [OF fresh_wf, of "ref_service current_dir" upload_request] fresh_spared
    by (simp add: stored_server_def upload_outcome_def)
  then have wf: "fs_wf ?s" by (simp add: fs_wf_def)
  obtain info i where i: "hm_find (table ?s) ''/download/a'' = Some info" "si_type info = ''low''"
      "lookup ?s (si_path info) = Some (File i)" "bytes (inodes ?s i) = ''hello''"
    using stored_server_facts(2) by (auto simp: lookup_tape)
  have orig: "''hello'' = original (ref_service current_dir) info (bytes (inodes ?s i))"
    using i(2,4) by (simp add: original_def)
  have rng: "download_range (ref_service current_dir) get_request info ''hello'' = ByteRange_default"
    by (simp add: download_range_def chosen_range_def get_request_def find_header_def)
  have data: "download_data get_request ByteRange_default ''hello'' = ''hello''"
    by (simp add: download_data_def get_request_def ByteRange_default_def)
  show ?thesis
    using download_sends_stored [OF wf i(1,3) orig _ refl refl, of get_request] fetched unfolding rng data by simp
qed

lemma login_opens_session_witness:
  "status_of (final (Login (ref_service (shipped\<lparr>auth_hash := to_hex (replicate 32 NUL)\<rparr>)) blank_request)
     ((service_boot [])\<lparr>random := [Some ''A'', Some ''B'']\<rparr>)) = Some 200"
proof -
  let ?E = "ref_service (shipped\<lparr>auth_hash := to_hex (replicate 32 NUL)\<rparr>)"
  let ?s = "(service_boot [])\<lparr>random := [Some ''A'', Some ''B'']\<rparr>"
  have "result (Allow p) ?s" for p by (simp add: Allow_def result_def service_boot_fields hm_find_def)
  moreover have "ReadRequestBody blank_request 1024 = Some ''hello''" by (simp add: ReadRequestBody_def blank_request_def)
  moreover have "pbkdf2 ?E a b c = Some (replicate 32 NUL)" for a b c
    by (simp only: ref_service_def ref_env_def env.defs service_env.defs service_env.simps)
  then have "DerivePasswordHash ?E ''hello'' = Some (to_hex (replicate 32 NUL))"
    by (simp only: DerivePasswordHash_def) simp
  moreover have "auth_hash (conf ?E) = to_hex (replicate 32 NUL)" by simp
  ultimately have "login_ok ?E ?s blank_request" by (simp only: login_ok_def option.case simp_thms)
  then have ok: "login_ok ?E ?s blank_request \<and> (\<exists>a b rs. random ?s = Some a # Some b # rs)" by simp
  have ss: "sessions_ok ?s" "0 < session_ttl_seconds (conf ?E)"
    by (simp_all add: sessions_ok_def hm_ok_def service_boot_fields shipped_def)
  from login_opens_session [OF ref_service_facts(4) ss refl, of blank_request]
  show ?thesis unfolding if_P [OF ok] by (rule conjunct1)
qed

end
