(* ===== verification/Service_System.thy ===== *)
theory Service_System
  imports Service_Success
begin

text \<open>
  The server over its whole life: any requests, one after the other, each with system calls that may fail and at any time.
  Its state refines a set of names, the files it does not own are safe from it, a stored file is safe until somebody
  asks to delete it, and a restart rebuilds the table if the directories of its records can be restored.
\<close>

subsection \<open>Handlers that leave the store alone\<close>

text \<open>
  No record changes, and no name outside \<open>K\<close>. \<open>c\<close> is the working directory, in which names in \<open>K\<close> are resolved.
\<close>

definition calm :: "string list \<Rightarrow> string list set \<Rightarrow> 'z data_state_scheme \<Rightarrow> 'z data_state_scheme \<Rightarrow> bool" where
  "calm c K s t \<longleftrightarrow> (cwd s = c \<longrightarrow> kept K s t) \<and> cwd t = cwd s \<and> table t = table s \<and> (fs_wf s \<longrightarrow> fs_wf t)"

lemma calm_trans: "calm c K s t \<Longrightarrow> calm c K t u \<Longrightarrow> calm c K s u"
  by (auto simp: calm_def intro: kept_trans)

interpretation ca: os_relation "calm c K" for c K
  by unfold_locales (auto simp: calm_def kept_def fs_wf_def intro: calm_trans)

lemma untouched_calm: "untouched s t \<Longrightarrow> calm c K s t"
  by (auto simp: untouched_def calm_def kept_def fs_wf_def)

lemma calm_untouched: "state_io_rel untouched m \<Longrightarrow> state_io_rel (calm c K) m"
  by (auto simp: state_io_rel_def intro: untouched_calm)

lemma quiet_calm: "quiet s t \<Longrightarrow> calm c K s t"
  by (simp add: calm_def quiet_kept quiet_table quiet_wf quiet_eqs)

lemma calm_run: "(\<And>s r t. run_state m s = (r, t) \<Longrightarrow> calm c K s t) \<Longrightarrow> state_io_rel (calm c K) m"
  unfolding state_io_rel_def by (metis prod.case_eq_if surjective_pairing)

lemma calm_FileSize: "state_io_rel (calm c K) (FileSize p)"
  by (rule calm_run) (rule quiet_calm [OF FileSize_run(1)])

lemma calm_fds:
  assumes "fs_wf s \<Longrightarrow> fs_wf (s\<lparr>fds := f, next_fd := n\<rparr>)"
  shows "calm c K s (s\<lparr>fds := f, next_fd := n\<rparr>)"
  using assms by (simp add: calm_def kept_def)

lemma calm_open: "state_io_rel (calm c K) (open_rdonly p)"
proof (rule calm_run)
  fix s t :: "'a data_state_scheme" and r
  assume "run_state (open_rdonly p) s = (r, t)"
  from this [unfolded open_rdonly_def] show "calm c K s t"
  proof (cases rule: run_syscall)
    case (failed e ts)
    then show ?thesis using quiet_calm [OF quiet_update(1)] by simp
  next
    case (ran ts)
    let ?s = "s\<lparr>tape := ts\<rparr>"
    have opens: "calm c K s (?s\<lparr>fds := (fds ?s)(next_fd ?s \<mapsto> \<lparr>fd_ino = i, fd_pos = 0\<rparr>), next_fd := next_fd ?s + 1\<rparr>)"
      if "\<And>j. i = Some j \<Longrightarrow> fs_wf s \<Longrightarrow> j < next_ino s" for i
    proof (rule calm_trans [OF quiet_calm [OF quiet_update(2) [of s ts]] calm_fds])
      assume "fs_wf ?s"
      moreover from this have "\<And>j. i = Some j \<Longrightarrow> j < next_ino s" using that by (simp add: fs_wf_def)
      ultimately show "fs_wf (?s\<lparr>fds := (fds ?s)(next_fd ?s \<mapsto> \<lparr>fd_ino = i, fd_pos = 0\<rparr>), next_fd := next_fd ?s + 1\<rparr>)"
        by (auto simp: fs_wf_def intro: less_SucI)
    qed
    show ?thesis
    proof (cases "lookup s p")
      case None
      then show ?thesis using ran quiet_calm [OF quiet_update(1) [where s = s and ts = ts and e = ENOENT]] by (auto simp: fail_def)
    next
      case (Some n)
      then show ?thesis using ran opens [of None] opens [of "case n of File i \<Rightarrow> Some i | Dir \<Rightarrow> None"]
        by (cases n) (auto simp: new_fd_def lookup_def fs_wf_def split: if_splits)
    qed
  qed
qed

lemma calm_close: "state_io_rel (calm c K) (close fd)"
proof (rule calm_run)
  fix s t :: "'a data_state_scheme" and r
  assume "run_state (close fd) s = (r, t)"
  from close_run [OF this] have "calm c K (s\<lparr>fds := (fds s)(fd := None)\<rparr>) t" by (rule quiet_calm)
  moreover have "calm c K s (s\<lparr>fds := (fds s)(fd := None), next_fd := next_fd s\<rparr>)" by (rule calm_fds) (auto simp: fs_wf_def)
  ultimately show "calm c K s t" by (auto intro: calm_trans)
qed

text \<open>Removing a name in \<open>K\<close>.\<close>

definition named :: "string list \<Rightarrow> string \<Rightarrow> string list" where
  "named c p = walk (path_names (c_str p)) (if is_absolute p then [] else c)"

lemma key_named: "key s p = named (cwd s) p"
  by (simp add: key_def named_def)

lemma calm_remove:
  assumes "named c p \<in> K"
  shows "state_io_rel (calm c K) (remove_file p)"
proof (rule calm_run)
  fix s t :: "'a data_state_scheme" and r
  assume "run_state (remove_file p) s = (r, t)"
  from this [unfolded remove_file_def] show "calm c K s t"
  proof (cases rule: unlink_run)
    case failed
    then show ?thesis by (simp add: quiet_calm)
  next
    case (removed i)
    have "calm c K s (s\<lparr>node := (node s)(key s p := None)\<rparr>)"
      using assms removed(2) by (auto simp: calm_def kept_def key_named fs_wf_def lookup_def split: if_splits)
    then show ?thesis using calm_trans quiet_calm [OF removed(3)] by blast
  qed
qed

lemma calm_emit: "state_io_rel (calm c K) (emit e)"
  by (rule calm_untouched [OF un_emit])

lemma calm_add_file: "state_io_rel (calm c K) (evbuffer_add_file fd off len)"
  unfolding evbuffer_add_file_def
proof (intro ca.os_rules calm_emit ca.rel_modify)
  fix s :: "'a service_state_scheme"
  have "calm c K s (s\<lparr>fds := (fds s)(fd := None), next_fd := next_fd s\<rparr>)" by (rule calm_fds) (auto simp: fs_wf_def)
  then show "calm c K s (s\<lparr>fds := (fds s)(fd := None)\<rparr>)" by simp
qed

lemmas calm_texts = calm_untouched [OF un_SendText] calm_untouched [OF un_SetNoCache] calm_untouched [OF un_ShowLogin]
  calm_untouched [OF un_Authenticate] calm_untouched [OF un_AddSecurityHeaders] calm_untouched [OF un_SendMethodNotAllowed]

lemma calm_header: "state_io_rel (calm c K) (AddHeader n v)" "state_io_rel (calm c K) (send_reply code reason)"
  by (simp_all add: AddHeader_def send_reply_def calm_emit)

lemma calm_send_file:
  assumes "\<And>q. temporary = Some q \<Longrightarrow> named c q \<in> K"
  shows "state_io_rel (calm c K) (send_file E req info p temporary)"
proof -
  have rm: "state_io_rel (calm c K) (case temporary of None \<Rightarrow> give False | Some path \<Rightarrow> do { remove_file path; give True })"
    using assms by (cases temporary) (auto intro!: ca.os_rules calm_remove)
  show ?thesis
    unfolding send_file_def send_part_def partial_reply_def Let_def
    by (intro rm ca.os_rules calm_header calm_texts calm_FileSize calm_open calm_close calm_add_file)
qed

lemma calm_session:
  "state_io_rel (calm c K) (Allow peer)" "state_io_rel (calm c K) (Failure peer)" "state_io_rel (calm c K) (Success peer)"
  "state_io_rel (calm c K) (Create ttl)" "state_io_rel (calm c K) (Remove_session token)"
  by (auto simp: state_io_rel_def Allow_def Failure_def Success_def Create_def Remove_session_def RandomToken_def RemoveExpiredLocked_def
      calm_def kept_def fs_wf_def split: option.splits list.splits)

lemma calm_Login: "state_io_rel (calm c K) (Login E req)"
  unfolding Login_def Let_def by (intro ca.os_rules calm_header calm_texts calm_session)

lemma calm_Logout: "state_io_rel (calm c K) (Logout E req)"
  unfolding Logout_def Let_def ClearAuthCookies_def by (intro ca.os_rules calm_header calm_texts calm_session)

lemma calm_ListFiles: "state_io_rel (calm c K) (ListFiles E)"
  unfolding ListFiles_def Let_def GetAll_def read_template_def by (intro ca.os_rules calm_header calm_texts calm_emit)

lemma calm_guard:
  assumes "state_io_rel (calm c K) body" "named c p \<in> K"
  shows "state_io_rel (calm c K) (TempFileGuard p body)"
  unfolding TempFileGuard_def by (intro ca.os_rules assms(1) calm_remove assms(2))

lemma calm_final: "state_io_rel (calm (cwd s) K) m \<Longrightarrow> calm (cwd s) K s (final m s)"
  by (rule ca.rel_final)

lemma calm_Download: "calm (cwd s) {} s (final (Download E req url) s)"
proof (cases "hm_find (table s) url")
  case None
  then show ?thesis
    using calm_final [OF calm_texts(1)] by (simp add: Download_def GetOneByURL_def final_def)
next
  case (Some info)
  show ?thesis
  proof (cases "si_type info = ''deep''")
    case False
    have "final (Download E req url) s = final (TempFileGuard [] (send_file E req info (si_path info) None)) s"
      using Some False by (simp add: Download_def GetOneByURL_def final_def)
    moreover have "state_io_rel (calm (cwd s) {}) (TempFileGuard [] (send_file E req info (si_path info) None))"
      unfolding TempFileGuard_def by (simp, intro ca.os_rules calm_send_file) simp
    ultimately show ?thesis using calm_final by simp
  next
    case True
    obtain r s1 where tm: "run_state (CreateTempFile (temp_dir (conf E)) ''.download-'') s = (r, s1)" by (rule prod.exhaust)
    from tm show ?thesis
    proof (cases rule: CreateTempFile_run)
      case failed
      have "final (Download E req url) s = final (SendText 500 ''Internal Server Error'' ''cannot create download temporary file'') s1"
        using Some True tm failed(1) by (simp add: Download_def GetOneByURL_def final_def)
      moreover have "calm (cwd s) {} s s1"
        using kept_extends [OF failed(2)] failed(3) by (auto simp: calm_def kept_def balanced_def)
      moreover have "calm (cwd s) {} s1 (final (SendText 500 ''Internal Server Error'' ''cannot create download temporary file'') s1)"
        by (rule ca.rel_final [OF calm_texts(1)])
      ultimately show ?thesis using calm_trans by fastforce
    next
      case (created p j)
      let ?K = "{key s p}"
      have k1: "kept {} s s1" "table s1 = table s" "fs_wf s \<longrightarrow> fs_wf s1"
        using kept_extends [OF created(2)] created(3) by (simp_all add: balanced_def)
      obtain b s2 where un: "run_state (UnCompress (compressor E) (si_path info) p) s1 = (b, s2)" by (rule prod.exhaust)
      have tg: "target s1 p = j" "made s1 p = {}" using created(5) by (simp_all add: target_def made_def)
      have fr: "frame {} {j} s1 s2" using UnCompress_run(1) [OF un] by (simp add: tg)
      have k2: "kept {} s s2" "table s2 = table s" "fs_wf s \<longrightarrow> fs_wf s2"
        using k1 data_more [OF frame_more [OF fr]] fr created(6) frame_node [OF fr] UnCompress_run(2) [OF un]
        by (auto simp: kept_def frame_def balanced_def)
      let ?after = "if \<not> b then do { SendText 500 ''Internal Server Error'' ''cannot decompress file''; give False }
        else send_file E req info p (Some p)"
      have K: "named (cwd s) p \<in> ?K" by (simp add: key_named)
      have "state_io_rel (calm (cwd s) ?K) (TempFileGuard p ?after)"
        by (intro calm_guard ca.rel_if ca.rel_bind calm_texts ca.rel_return calm_send_file) (use K in auto)
      then have "calm (cwd s) ?K s2 (final (TempFileGuard p ?after) s2)" by (rule ca.rel_final)
      moreover have "final (Download E req url) s = final (TempFileGuard p ?after) s2"
        using Some True tm created(1) un by (simp add: Download_def GetOneByURL_def final_def TempFileGuard_def split_beta)
      ultimately have after: "calm (cwd s) ?K s2 (final (Download E req url) s)" by simp
      have "cwd s2 = cwd s" using k2(1) by (simp add: kept_def)
      with after have "kept {} s (final (Download E req url) s)" "cwd (final (Download E req url) s) = cwd s"
        using kept_absorb [OF k2(1) _ created(4)] by (simp_all add: calm_def)
      with after k2(2,3) show ?thesis by (simp add: calm_def)
    qed
  qed
qed

text \<open>What a request does besides a successful upload or deletion.\<close>

lemma HandleRequest_cases:
  fixes s :: "'z service_state_scheme"
  assumes "t = final (HandleRequest E req) s"
  obtains (calm) "calm (cwd s) {} s t" "request_path req = Some ''/upload'' \<Longrightarrow> status_of t \<noteq> Some 201"
      "request_path req = Some ''/delete'' \<Longrightarrow> status_of t \<noteq> Some 200"
  | (upload) u where "calm (cwd s) {} s u" "request_path req = Some ''/upload''" "t = final (Upload E req) u"
  | (delete) u where "calm (cwd s) {} s u" "request_path req = Some ''/delete''" "t = final (Delete E req) u"
proof -
  have refused: thesis if "refuses C (HandleRequest E req :: ('z, unit) svc)" "C \<inter> {200, 201} = {} \<or> request_path req \<notin> {Some ''/upload'', Some ''/delete''}" for C
  proof -
    have "refused C s t" using refuses_final [OF that(1), of s] assms by simp
    then obtain c where c: "untouched s t" "c \<in> C" "status_of t = Some c"
      by (auto simp: refused_def)
    show thesis by (rule calm [OF untouched_calm [OF c(1)]]) (use c(2,3) that(2) in auto)
  qed
  show thesis
  proof (cases "request_path req")
    case None
    then show thesis by (intro refused [OF refuses_bad_path, of "{400}"]) auto
  next
    case (Some path)
    define s1 where "s1 = final AddSecurityHeaders s"
    define s2 where "s2 = final (Authenticate req) s1"
    have "untouched s s1" unfolding s1_def by (rule un.rel_final [OF un_AddSecurityHeaders])
    moreover have "untouched s1 s2" unfolding s2_def by (rule un.rel_final [OF un_Authenticate])
    ultimately have u: "calm (cwd s) {} s s2" by (blast intro: untouched_calm un.trans)
    then have c: "cwd s2 = cwd s" by (simp add: calm_def)
    have turned: thesis if "refuses C m" "t = final m s2" "C \<inter> {200, 201} = {}" for C m
    proof -
      have "refused C s2 t" using refuses_final [OF that(1), of s2] that(2) by simp
      then obtain n where n: "untouched s2 t" "n \<in> C" "status_of t = Some n" by (auto simp: refused_def)
      show thesis by (rule calm [OF calm_trans [OF u untouched_calm [OF n(1)]]]) (use n(2,3) that(3) in auto)
    qed
    have served: thesis if "calm (cwd s2) {} s2 t" "path \<noteq> ''/upload''" "path \<noteq> ''/delete''"
      using that c Some calm_trans [OF u] by (intro calm) auto
    consider "path = ''/login'' \<or> path = ''/api/login'' \<and> req_method req \<noteq> POST" | "path = ''/api/login''" "req_method req = POST"
      | "path \<noteq> ''/login''" "path \<noteq> ''/api/login''" by blast
    then show thesis
    proof cases
      case 1
      show thesis by (rule refused [OF refuses_public [OF 1 Some], of "{200, 405, 500}"]) (use 1 Some in auto)
    next
      case 2
      then have "t = final (do { AddSecurityHeaders; Login E req }) s" using assms Some
        by (auto simp: HandleRequest_def request_path_def require_method_def split: option.splits prod.splits if_splits)
      moreover have "state_io_rel (calm (cwd s) {}) (do { AddSecurityHeaders; Login E req })"
        by (intro ca.os_rules calm_texts calm_Login)
      ultimately show thesis using calm_final 2 Some by (intro calm) auto
    next
      case 3
      define a where "a = result (Authenticate req) s1"
      have t: "t = final (case a of None \<Rightarrow>
           if path = ''/'' \<or> IsDownloadPath (conf E) path then do { AddHeader ''Location'' ''/login''; send_reply 302 ''Redirect'' }
           else SendText 401 ''Unauthorized'' ''authentication required''
         | Some (token, session) \<Rightarrow> dispatch E req path session) s2"
        using assms unfolding HandleRequest_private [OF Some 3] handle_private_def final_bind a_def s1_def s2_def .
      show thesis
      proof (cases a)
        case None
        then show thesis using t
          by (intro turned [of "{302, 401}", OF refuses_if]) (auto intro: refuses_login refuses_SendText)
      next
        case (Some x)
        then obtain token session where "a = Some (token, session)" by (cases x) simp
        with t have t: "t = final (dispatch E req path session) s2" by simp
        have refusal: thesis if "t = final (require_csrf E req session h) s2" "t = final h s2 \<Longrightarrow> thesis" for h
        proof (cases "req_method req = POST \<and> ValidateCsrf E req session")
          case True
          then show thesis using that by (simp add: require_csrf_def require_method_def)
        next
          case False
          then have "refuses {403, 405} (require_csrf E req session h)"
            unfolding require_csrf_def require_method_def
            by (intro refuses_if refuses_SendMethodNotAllowed refuses_SendText) auto
          from turned [OF this that(1)] show thesis by simp
        qed
        consider "path = ''/upload''" | "path = ''/delete''" | "path \<noteq> ''/upload''" "path \<noteq> ''/delete''" by blast
        then show thesis
        proof cases
          case 1
          then have "t = final (require_csrf E req session (Upload E req)) s2" using t by (simp add: dispatch_def)
          then show thesis by (rule refusal) (use u Some 1 \<open>request_path req = Some path\<close> in \<open>auto intro: upload\<close>)
        next
          case 2
          then have "t = final (require_csrf E req session (Delete E req)) s2" using t by (simp add: dispatch_def)
          then show thesis by (rule refusal) (use u Some 2 \<open>request_path req = Some path\<close> in \<open>auto intro: delete\<close>)
        next
          case 3
          have "calm (cwd s2) {} s2 t"
          proof (cases "IsDownloadPath (conf E) path \<and> path \<noteq> ''/'' \<and> path \<noteq> ''/logout''")
            case True
            then have d: "t = final (if req_method req \<noteq> GET \<and> req_method req \<noteq> HEAD then SendMethodNotAllowed ''GET, HEAD''
                else Download E req path) s2"
              using t 3 by (simp add: dispatch_def)
            show ?thesis unfolding d
              by (cases "req_method req \<noteq> GET \<and> req_method req \<noteq> HEAD")
                (simp_all only: if_True if_False simp_thms ca.rel_final [OF calm_texts(6)] calm_Download)
          next
            case False
            then have "state_io_rel (calm (cwd s2) {}) (dispatch E req path session)"
              using 3 unfolding dispatch_def require_csrf_def require_method_def
              by (auto intro!: ca.rel_if calm_ListFiles calm_texts calm_Logout)
            then show ?thesis unfolding t by (rule ca.rel_final)
          qed
          then show thesis using 3 by (rule served)
        qed
      qed
    qed
  qed
qed

subsection \<open>One request\<close>

text \<open>
  No storage directory contains the name of the metadata file. (It may, once the file is there: then the name is taken.)
\<close>

definition proper_dirs :: "config \<Rightarrow> bool" where
  "proper_dirs c \<longleftrightarrow> (\<forall>ty \<in> {''low'', ''deep''}. storage_dir c ty \<noteq> [] \<and> NUL \<notin> set (storage_dir c ty))"

definition unclaimed :: "config \<Rightarrow> 'z data_state_scheme \<Rightarrow> bool" where
  "unclaimed c s \<longleftrightarrow> proper_dirs c \<and>
     butlast (key s (storage_file s)) \<notin> {key s (low_storage_dir c), key s (deep_storage_dir c)}"

text \<open>Records that a start has loaded or an upload has made.\<close>

definition records_ok :: "('j, 'e) service_env_scheme \<Rightarrow> table \<Rightarrow> bool" where
  "records_ok E tbl \<longleftrightarrow> hm_ok tbl \<and> keyed tbl \<and>
     list_all (\<lambda>e. acceptable (conf E) (snd e) \<or> (\<exists>f. uploaded (conf E) f (snd e))) tbl"

text \<open>
  The store in order: a well-formed file system, a metadata file that agrees with the table, or an empty table, and no record
  that names the metadata file, now or later.
\<close>

definition store_ok :: "('j, 'e) service_env_scheme \<Rightarrow> 'z data_state_scheme \<Rightarrow> bool" where
  "store_ok E s \<longleftrightarrow> fs_wf s \<and> settled (env.truncate E) s \<and> apart s \<and>
     (agrees (env.truncate E) s \<or> unclaimed (conf E) s) \<and> (proper_dirs (conf E) \<longrightarrow> records_ok E (table s))"

lemma store_ok_spared:
  assumes "store_ok E s" "upload_ok (conf E) req"
  shows "spared s (JoinPath (storage_dir (conf E) (upload_type req)) (upload_name req))"
proof (cases "agrees (env.truncate E) s")
  case True
  from agrees_exists [OF this] show ?thesis unfolding spared_def by blast
next
  case False
  then have un: "unclaimed (conf E) s" using assms(1) by (simp add: store_ok_def)
  have ty: "upload_type req \<in> {''low'', ''deep''}" and safe: "IsSafeFileName (upload_name req)"
    using assms(2) by (auto simp: upload_ok_def upload_type_def upload_name_def split: option.splits)
  let ?d = "storage_dir (conf E) (upload_type req)"
  have "?d \<noteq> []" "NUL \<notin> set ?d" using un ty by (auto simp: unclaimed_def proper_dirs_def)
  from key_join [OF this safe, of s] have "butlast (key s (JoinPath ?d (upload_name req))) = key s ?d"
    by (simp add: JoinPath_def)
  moreover have "?d \<in> {low_storage_dir (conf E), deep_storage_dir (conf E)}" by (simp add: storage_dir_def)
  ultimately show ?thesis using un by (auto simp: spared_def unclaimed_def)
qed

text \<open>What a reply promises about the names in the store.\<close>

definition acknowledged :: "('j, 'e) service_env_scheme \<Rightarrow> request \<times> int option \<Rightarrow> string set \<Rightarrow> string set" where
  "acknowledged E reply names = (case reply of (req, status) \<Rightarrow>
     if request_path req = Some ''/upload'' \<and> status = Some 201
     then insert (download_prefix (conf E) @ FileName (JoinPath (storage_dir (conf E) (upload_type req)) (upload_name req))) names
     else if request_path req = Some ''/delete'' \<and> status = Some 200 then names - {delete_url req}
     else names)"

text \<open>The files of the records that some request asks to delete.\<close>

definition at_risk :: "request list \<Rightarrow> 'z data_state_scheme \<Rightarrow> string list set" where
  "at_risk reqs s = {key s (si_path info) | url info. (url, info) \<in> set (table s) \<and>
     (\<exists>req \<in> set reqs. request_path req = Some ''/delete'' \<and> delete_url req = url)}"

definition only_new :: "'z data_state_scheme \<Rightarrow> 'z data_state_scheme \<Rightarrow> bool" where
  "only_new s t \<longleftrightarrow> (\<forall>e \<in> set (table t). e \<in> set (table s) \<or> node s (key s (si_path (snd e))) = None)"

definition stepped :: "('j, 'e) service_env_scheme \<Rightarrow> request \<Rightarrow> 'z service_state_scheme \<Rightarrow> 'z service_state_scheme \<Rightarrow> bool" where
  "stepped E req s t \<longleftrightarrow> store_ok E t \<and> kept (insert (key s (storage_file s)) (at_risk [req] s)) s t \<and>
     dom (hm_find (table t)) = acknowledged E (req, status_of t) (dom (hm_find (table s))) \<and> only_new s t \<and>
     (agrees (env.truncate E) s \<longrightarrow> agrees (env.truncate E) t)"

lemma apart_kept: "kept K s t \<Longrightarrow> table t = table s \<Longrightarrow> apart s \<Longrightarrow> apart t"
  using kept_key [of K s t] by (simp add: apart_def kept_def)

lemma unclaimed_kept: "kept K s t \<Longrightarrow> unclaimed c t = unclaimed c s"
  using kept_key [of K s t] by (simp add: unclaimed_def kept_def)

lemma store_ok_calm:
  assumes "store_ok E s" "kept {} s t" "table t = table s" "fs_wf t"
  shows "store_ok E t" "agrees (env.truncate E) s \<Longrightarrow> agrees (env.truncate E) t"
proof -
  show a: "agrees (env.truncate E) s \<Longrightarrow> agrees (env.truncate E) t"
    using kept_agrees [OF assms(2,3)] assms(1) by (simp add: store_ok_def)
  show "store_ok E t"
    using assms apart_kept [OF assms(2,3)] unclaimed_kept [OF assms(2)] a by (auto simp: store_ok_def settled_def)
qed

lemma stepped_before:
  assumes "calm (cwd s) {} s u" "store_ok E s" "store_ok E u" "stepped E req u t"
  shows "stepped E req s t"
proof -
  have u: "kept {} s u" "table u = table s" "key u = key s" "storage_file u = storage_file s" "fs_wf u"
    using assms(1-3) by (auto simp: calm_def kept_def key_def fun_eq_iff store_ok_def)
  have "at_risk [req] u = at_risk [req] s" by (simp add: at_risk_def u)
  then have "kept (insert (key s (storage_file s)) (at_risk [req] s)) s t"
    using assms(4) kept_trans [OF kept_mono [OF u(1) empty_subsetI]] by (simp add: stepped_def u)
  moreover have "only_new s t"
    using assms(4) kept_fresh [OF u(1)] by (auto simp: stepped_def only_new_def u)
  ultimately show ?thesis using assms(4) store_ok_calm(2) [OF assms(2) u(1,2,5)] by (simp add: stepped_def u)
qed

lemma hm_map_of: "hm_find m = map_of m"
  by (rule ext) (simp add: hm_find_def)

lemma upload_recorded:
  assumes "upload_ok (conf E) req" "proper_dirs (conf E)" "records_ok E tbl"
    and "si_path info = JoinPath (storage_dir (conf E) (upload_type req)) (upload_name req)" "si_type info = upload_type req"
    and "si_url info = download_prefix (conf E) @ FileName (si_path info)" "hm_find tbl (si_url info) = None"
  shows "records_ok E (tbl @ [(si_url info, info)])"
proof -
  have ty: "upload_type req \<in> {''low'', ''deep''}" and safe: "IsSafeFileName (upload_name req)"
    using assms(1) by (auto simp: upload_ok_def upload_type_def upload_name_def split: option.splits)
  have d: "storage_dir (conf E) (upload_type req) \<noteq> []" "NUL \<notin> set (storage_dir (conf E) (upload_type req))"
    using assms(2) ty by (auto simp: proper_dirs_def)
  have "uploaded (conf E) (upload_name req) info"
    using safe ty assms(4-6) upload_FileName [OF assms(1) d]
    by (auto simp: uploaded_def IsSafeFileName_def plain_name_def list_all_iff)
  with assms(3,7) show ?thesis
    by (auto simp: records_ok_def hm_ok_def keyed_def hm_find_def map_of_eq_None_iff)
qed

lemma stepped_upload:
  assumes "store_ok E s" "request_path req = Some ''/upload''" "t = final (Upload E req) s"
  shows "stepped E req s t"
proof -
  let ?p = "JoinPath (storage_dir (conf E) (upload_type req)) (upload_name req)" and ?m = "key s (storage_file s)"
  have wf: "fs_wf s" using assms(1) by (simp add: store_ok_def)
  have up: "upload_outcome E (storage_dir (conf E) (upload_type req)) (upload_name req) (upload_type req) (upload_content req) s t"
    "status_of t = Some 201 \<longrightarrow> upload_ok (conf E) req"
    using Upload_final [OF wf store_ok_spared [OF assms(1)]] assms(3) by blast+
  have k: "kept {?m} s t" "fs_wf t" "agrees (env.truncate E) s \<longrightarrow> agrees (env.truncate E) t"
    using up(1) by (simp_all add: upload_outcome_def)
  have key: "key t p = key s p" "storage_file t = storage_file s" "unclaimed c t = unclaimed c s" for p c
    using kept_key [OF k(1)] k(1) unclaimed_kept [OF k(1)] by (simp_all add: kept_def)
  have "kept (insert ?m (at_risk [req] s)) s t" by (rule kept_mono [OF k(1)]) simp
  moreover have "store_ok E t \<and> only_new s t \<and> dom (hm_find (table t)) = acknowledged E (req, status_of t) (dom (hm_find (table s)))"
  proof (cases "status_of t = Some 201")
    case False
    with up(1) have "table t = table s" by (simp add: upload_outcome_def)
    with k False assms(1,2) key apart_kept [OF k(1)] show ?thesis
      by (auto simp: store_ok_def settled_def only_new_def acknowledged_def)
  next
    case True
    with up have ok: "upload_ok (conf E) req" and sy: "agrees (env.truncate E) t"
      by (simp_all add: upload_outcome_def synced_agrees)
    from True up(1) obtain info i where info: "si_path info = ?p" "si_url info = download_prefix (conf E) @ FileName ?p"
      "table t = table s @ [(si_url info, info)]" "lookup s ?p = None" "lookup t ?p = Some (File i)"
      "si_type info = upload_type req" "hm_find (table s) (si_url info) = None"
      by (auto simp: upload_outcome_def)
    have new: "node s (key s ?p) = None" using info(4,5) by (auto simp: lookup_def split: if_splits)
    then have "key s ?p \<noteq> ?m" using store_ok_spared [OF assms(1) ok] by (auto simp: spared_def)
    moreover have "records_ok E (table t)" if "proper_dirs (conf E)"
      unfolding info(3)
      by (rule upload_recorded [OF ok that _ info(1,6) _ info(7)]) (use assms(1) that info(1,2) in \<open>simp_all add: store_ok_def\<close>)
    ultimately have "store_ok E t" using info(1,3) k sy assms(1) key by (auto simp: store_ok_def settled_def apart_def)
    moreover have "only_new s t" using info(1,3) new by (auto simp: only_new_def)
    moreover have "dom (hm_find (table t)) = insert (si_url info) (dom (hm_find (table s)))"
      using info(3) by (simp add: hm_map_of)
    ultimately show ?thesis using True assms(2) info(2) by (simp add: acknowledged_def)
  qed
  ultimately show ?thesis using k(3) by (auto simp: stepped_def)
qed

lemma records_ok_erase: "records_ok E tbl \<Longrightarrow> records_ok E (hm_erase k tbl)"
  unfolding records_ok_def keyed_def list_all_iff
  using hm_ok_erase [of tbl k] by (auto simp only: hm_erase_def set_filter mem_Collect_eq)

lemma stepped_delete:
  assumes "store_ok E s" "request_path req = Some ''/delete''" "t = final (Delete E req) s"
  shows "stepped E req s t"
proof -
  obtain x where run: "run_state (Delete E req) s = (x, t)" using assms(3) run_result_final by metis
  have ok: "fs_wf s" "settled (env.truncate E) s" "apart s" using assms(1) by (simp_all add: store_ok_def)
  from run show ?thesis
  proof (cases rule: Delete_run_cases)
    case (refused n)
    note f = said_facts [OF refused(2)]
    have "fs_wf t" using f ok by simp
    from store_ok_calm [OF assms(1) f(1,2) this] show ?thesis using f refused(1) assms(2)
      by (simp add: stepped_def acknowledged_def only_new_def)
  next
    case (found info)
    have mem: "(delete_url req, info) \<in> set (table s)" using map_of_SomeD [OF found(1) [unfolded hm_find_def]] .
    then have "key s (si_path info) \<noteq> key s (storage_file s)" using ok(3) by (fastforce simp: apart_def list_all_iff)
    from delete_stored_run [OF found(3) ok(1) found_agrees [OF ok(2) found(1)] this]
    have d: "delete_outcome E (delete_url req) info s t" by simp
    have risk: "key s (si_path info) \<in> at_risk [req] s" using mem assms(2) by (auto simp: at_risk_def)
    have k: "kept {key s (storage_file s), key s (si_path info)} s t" "fs_wf t" "agrees (env.truncate E) t"
      using d by (simp_all add: delete_outcome_def)
    have tb: "table t = (if status_of t = Some 200 then hm_erase (delete_url req) (table s) else table s)"
      using d by (simp add: delete_outcome_def)
    then have sub: "set (table t) \<subseteq> set (table s)" by (auto simp: hm_erase_def)
    have "apart t" using ok(3) sub kept_key [OF k(1)] k(1) by (auto simp: apart_def list_all_iff kept_def)
    moreover have "dom (hm_find (table t)) = acknowledged E (req, status_of t) (dom (hm_find (table s)))"
      using tb assms(2) by (auto simp: acknowledged_def hm_find_def hm_erase_def map_of_filter_ne split: if_splits)
    moreover have "proper_dirs (conf E) \<longrightarrow> records_ok E (table t)"
      using assms(1) by (simp add: store_ok_def tb records_ok_erase)
    ultimately show ?thesis
      using k sub kept_mono [OF k(1)] risk by (auto simp: stepped_def store_ok_def settled_def only_new_def)
  qed
qed

lemma request_step:
  assumes "store_ok E s" "t = final (HandleRequest E req) s"
  shows "stepped E req s t"
  using assms(2)
proof (cases rule: HandleRequest_cases)
  case calm
  have k: "kept {} s t" "table t = table s" "fs_wf t" using calm(1) assms(1) by (simp_all add: calm_def store_ok_def)
  note store_ok_calm [OF assms(1) k]
  with k calm(2,3) show ?thesis by (auto simp: stepped_def acknowledged_def only_new_def intro: kept_mono)
next
  case (upload u)
  have "store_ok E u" using upload(1) assms(1) by (intro store_ok_calm(1) [OF assms(1)]) (simp_all add: calm_def store_ok_def)
  from stepped_before [OF upload(1) assms(1) this stepped_upload [OF this upload(2,3)]] show ?thesis .
next
  case (delete u)
  have "store_ok E u" using delete(1) assms(1) by (intro store_ok_calm(1) [OF assms(1)]) (simp_all add: calm_def store_ok_def)
  from stepped_before [OF delete(1) assms(1) this stepped_delete [OF this delete(2,3)]] show ?thesis .
qed

subsection \<open>A whole life\<close>

text \<open>A request as it arrives: what the system calls will do, the random numbers, the temporary names, and the clocks.\<close>

record arrival =
  asks :: request
  faults :: "outcome list"
  drawn :: "string option list"
  temp_names :: "string list"
  moment :: int

definition arrive :: "arrival \<Rightarrow> 'z service_state_scheme \<Rightarrow> 'z service_state_scheme" where
  "arrive a s = s\<lparr>tape := faults a, random := drawn a, suffixes := temp_names a, now := moment a, clock := moment a\<rparr>"

fun serve :: "('j, 'e) service_env_scheme \<Rightarrow> arrival list \<Rightarrow> 'z service_state_scheme \<Rightarrow> int option list \<times> 'z service_state_scheme" where
  "serve E [] s = ([], s)"
| "serve E (a # as) s =
     (let t = final (HandleRequest E (asks a)) (arrive a s); r = serve E as t in (status_of t # fst r, snd r))"

lemma arrive_fields:
  "node (arrive a s) = node s" "inodes (arrive a s) = inodes s" "next_ino (arrive a s) = next_ino s" "key (arrive a s) p = key s p"
  "table (arrive a s) = table s" "storage_file (arrive a s) = storage_file s" "fs_wf (arrive a s) = fs_wf s" "apart (arrive a s) = apart s"
  "agrees D (arrive a s) = agrees D s" "settled D (arrive a s) = settled D s" "unclaimed c (arrive a s) = unclaimed c s"
  "at_risk reqs (arrive a s) = at_risk reqs s" "cwd (arrive a s) = cwd s"
  by (simp_all add: arrive_def key_def fs_wf_def apart_def agrees_def settled_def unclaimed_def lookup_def at_risk_def)

lemma arrival_step:
  assumes "store_ok E s" "t = final (HandleRequest E (asks a)) (arrive a s)"
  shows "store_ok E t" "kept (insert (key s (storage_file s)) (at_risk [asks a] s)) s t" "only_new s t"
    "dom (hm_find (table t)) = acknowledged E (asks a, status_of t) (dom (hm_find (table s)))"
    "agrees (env.truncate E) s \<Longrightarrow> agrees (env.truncate E) t"
  using request_step [OF _ assms(2)] assms(1)
  by (simp_all add: stepped_def store_ok_def arrive_fields only_new_def kept_def)

lemma at_risk_later:
  assumes "only_new s t" "node s k = Some n" "key t = key s" "k \<in> at_risk reqs t"
  shows "k \<in> at_risk (r # reqs) s"
  using assms by (fastforce simp: at_risk_def only_new_def)

lemma whole_life:
  assumes "store_ok E s" and "serve E as s = (answers, t)"
  shows "store_ok E t \<and> storage_file t = storage_file s \<and> key t = key s \<and>
    (agrees (env.truncate E) s \<longrightarrow> agrees (env.truncate E) t) \<and>
    dom (hm_find (table t)) = fold (acknowledged E) (zip (map asks as) answers) (dom (hm_find (table s))) \<and>
    (\<forall>k i. node s k = Some (File i) \<and> k \<noteq> key s (storage_file s) \<and> k \<notin> at_risk (map asks as) s \<longrightarrow>
       node t k = Some (File i) \<and> inodes t i = inodes s i)"
  using assms
proof (induction as arbitrary: s answers)
  case Nil
  then show ?case by simp
next
  case (Cons a as)
  define u where "u = final (HandleRequest E (asks a)) (arrive a s)"
  note step = arrival_step [OF Cons.prems(1) u_def]
  obtain rs where rs: "serve E as u = (rs, t)" "answers = status_of u # rs"
    using Cons.prems(2) by (cases "serve E as u") (simp add: u_def [symmetric] Let_def)
  note rest = Cons.IH [OF step(1) rs(1)]
  have key: "key u = key s" "storage_file u = storage_file s"
    using step(2) by (auto simp: kept_def key_def fun_eq_iff)
  have "node t k = Some (File i) \<and> inodes t i = inodes s i"
    if "node s k = Some (File i)" "k \<noteq> key s (storage_file s)" "k \<notin> at_risk (map asks (a # as)) s" for k i
  proof -
    have "at_risk [asks a] s \<subseteq> at_risk (map asks (a # as)) s" by (auto simp: at_risk_def)
    moreover have "i < next_ino s" using Cons.prems(1) that(1) by (simp add: store_ok_def fs_wf_def)
    ultimately have "node u k = Some (File i)" "inodes u i = inodes s i"
      using step(2) that by (auto simp: kept_def)
    moreover have "k \<notin> at_risk (map asks as) u" using at_risk_later [OF step(3) that(1) key(1)] that(3) by auto
    ultimately show ?thesis using rest that(2) key by auto
  qed
  then show ?case using rest step(4,5) rs(2) key by (intro conjI allI impI) auto
qed

subsection \<open>Starting the server\<close>

text \<open>
  What a start needs besides succeeding: no record in the metadata file names this very file, and a first start finds the
  name of the metadata file outside the storage directories.
\<close>

definition sound_start :: "('j, 'e) service_env_scheme \<Rightarrow> 'z data_state_scheme \<Rightarrow> 'z data_state_scheme \<Rightarrow> bool" where
  "sound_start E s0 s \<longleftrightarrow> starts (env.truncate E) s0 s \<and> apart s \<and>
     (lookup s0 (storage_info_file (conf E)) = None \<longrightarrow> unclaimed (conf E) s)"

lemma start_store_ok:
  assumes "sound_start E s0 s"
  shows "store_ok E s"
proof -
  have st: "starts (env.truncate E) s0 s" and ap: "apart s"
    and un: "lookup s0 (storage_info_file (conf E)) = None \<longrightarrow> unclaimed (conf E) s"
    using assms by (simp_all add: sound_start_def)
  note f = starts_facts [OF st, unfolded conf_truncate]
  have "records_ok E (table s)" using f(3) by (auto simp: records_ok_def loaded_ok_def list_all_iff)
  with f(1,7) ap un show ?thesis by (auto simp: store_ok_def settled_def split: if_splits)
qed

subsection \<open>Properties\<close>

text \<open>C1. The server is a correct store over its whole life. It starts with the table its metadata file loads to, or
  with an empty one if there is no such file; the start must succeed, find out correctly whether the file exists,
  load no record that names the metadata file itself, and, if there is no metadata file yet, find its name outside the
  storage directories. Then, for any sequence of requests, whichever system calls fail during each of them: the names in
  the table are exactly those that the start loaded and the acknowledged uploads and deletions left, in order; the
  metadata file agrees with the table (it is a snapshot of it or loads to it), if there was one at the
  start or as soon as the table is not empty; and every file that existed is still there with its content, unless it
  is the metadata file or belongs to a record that one of the requests asked to delete.\<close>

theorem server_refines_store:
  assumes "sound_start E s0 s" and "serve E as s = (answers, t)"
  shows "dom (hm_find (table t)) = fold (acknowledged E) (zip (map asks as) answers) (dom (hm_find (table s))) \<and>
    (table t \<noteq> [] \<or> lookup s0 (storage_info_file (conf E)) \<noteq> None \<longrightarrow> agrees (env.truncate E) t) \<and>
    (\<forall>k i. node s0 k = Some (File i) \<and> k \<noteq> key s (storage_file s) \<and> k \<notin> at_risk (map asks as) s \<longrightarrow>
       node t k = Some (File i) \<and> inodes t i = inodes s0 i)"
proof -
  have "starts (env.truncate E) s0 s" using assms(1) by (simp add: sound_start_def)
  note f = starts_facts [OF this, unfolded conf_truncate]
  note life = whole_life [OF start_store_ok [OF assms(1)] assms(2)]
  have "table t \<noteq> [] \<Longrightarrow> agrees (env.truncate E) t" using life by (simp add: store_ok_def settled_def)
  with life f(4,5,7) show ?thesis by (auto split: if_splits)
qed


subsection \<open>Examples\<close>

text \<open>A server that finds one record in its metadata file, and is then asked for the file while the disk fails.\<close>

definition home_config :: config where
  "home_config = sample_config\<lparr>storage_info_file := ''meta''\<rparr>"

definition home_body :: string where
  "home_body = the (table_body (ref_env home_config) (sample_table ''files''))"

definition home_disk :: service_state where
  "home_disk = fresh_server\<lparr>inodes := (\<lambda>i. \<lparr>bytes = home_body, mtime = 0, atime = 0\<rparr>)\<rparr>"

definition home_server :: service_state where
  "home_server = final (DataManager (ref_env home_config)) home_disk"

definition visitor :: arrival where
  "visitor = \<lparr>asks = get_request, faults = [Fault EIO], drawn = [], temp_names = [], moment = 7\<rparr>"

lemma home_truncate: "env.truncate (ref_service home_config) = ref_env home_config" "conf (ref_service home_config) = home_config"
  "json (ref_service home_config) = json (ref_env home_config)" "storage_info_file home_config = ''meta''"
  by (simp_all add: ref_service_def env.defs service_env.defs ref_env_def home_config_def)

lemma home_disk_fields:
  "lookup home_disk ''meta'' = Some (File 0)" "bytes (inodes home_disk i) = home_body" "tape home_disk = []" "fs_wf home_disk"
  "key home_disk p = walk (path_names (c_str p)) []"
  by (auto simp: home_disk_def lookup_def key_def fresh_fields data_boot_paths fs_wf_def split: if_splits)

lemma home_dirs:
  "storage_dir home_config ''low'' = ''files''" "storage_dir home_config ''deep'' = ''./deep_storage/''" "proper_dirs home_config"
  by (simp_all add: home_config_def sample_config_def storage_dir_def shipped_def proper_dirs_def)

lemma home_record:
  "hm_ok (sample_table ''files'')" "keyed (sample_table ''files'')" "list_all (\<lambda>e. representable (snd e)) (sample_table ''files'')"
  "list_all (\<lambda>e. acceptable home_config (snd e)) (sample_table ''files'')"
proof -
  show "hm_ok (sample_table ''files'')" "keyed (sample_table ''files'')" "list_all (\<lambda>e. representable (snd e)) (sample_table ''files'')"
    by (simp_all add: sample_table_def hm_ok_def keyed_def sample_def representable_def)
  have "uploaded home_config ''a'' (sample ''files'')"
    by (simp add: uploaded_def plain_name_def sample_def storage_dir_def JoinPath_def home_config_def sample_config_def shipped_def)
  moreover have "si_type (sample ''files'') = ''low''" by (simp add: sample_def)
  ultimately show "list_all (\<lambda>e. acceptable home_config (snd e)) (sample_table ''files'')"
    using uploaded_acceptable [of home_config "''a''" "sample ''files''"] sample_restorable(1)
    by (simp add: sample_table_def home_dirs)
qed

lemma home_started:
  "sound_start (ref_service home_config) home_disk home_server" "set (table home_server) = set (sample_table ''files'')"
proof -
  let ?E = "ref_env home_config"
  have conf: "conf ?E = home_config" by (simp add: ref_env_def)
  obtain body where body: "table_body ?E (sample_table ''files'') = Some body" "body = home_body"
    using sample_writes [of "''files''" home_config] by (auto simp: home_body_def)
  have "says ?E home_body (sample_table ''files'')" using body by (simp add: says_def)
  from says_loads [OF ref_env_ok home_record(1-3) this, unfolded conf] home_record(4)
  obtain tbl where tbl: "loads ?E home_body = Some tbl" "set tbl = set (sample_table ''files'')" by auto
  have "length home_body < 2 ^ 64" unfolding home_body_def by (rule sample_body_length) simp
  with DataManager_done [of home_disk ?E 0, unfolded conf home_truncate(4)] tbl(1)
  have dm: "result (DataManager ?E) home_disk = None" "table home_server = tbl"
    by (simp_all add: home_disk_fields home_server_def)
  then show "set (table home_server) = set (sample_table ''files'')" using tbl(2) by simp
  have "run_state (DataManager ?E) home_disk = (None, home_server)"
    using dm(1) by (metis run_result_final home_server_def)
  then have st: "starts ?E home_disk home_server"
    using Exists_done [OF home_disk_fields(3), of "''meta''"]
    by (simp add: starts_def conf home_truncate(4) home_disk_fields result_def)
  note f = starts_facts [OF st, unfolded conf home_truncate(4)]
  have "key home_server p = walk (path_names (c_str p)) []" for p
    using f(6) by (simp add: key_def home_disk_def fresh_fields)
  moreover have "walk (path_names (c_str (si_path (sample ''files'')))) [] \<noteq> walk (path_names (c_str ''meta'')) []" by code_simp
  ultimately have "apart home_server" using dm(2) tbl(2) f(2) by (auto simp: apart_def list_all_iff sample_table_def)
  then show "sound_start (ref_service home_config) home_disk home_server"
    using st by (simp add: sound_start_def home_truncate home_disk_fields)
qed

lemma home_visited:
  assumes "serve (ref_service home_config) [visitor] home_server = (answers, t)"
  shows "table t = table home_server" "lookup t ''meta'' = Some (File 0)" "length (bytes (inodes t 0)) < 2 ^ 64"
proof -
  have t: "t = final (HandleRequest (ref_service home_config) get_request) (arrive visitor home_server)"
    using assms by (simp add: Let_def visitor_def)
  have path: "request_path get_request = Some ''/download/a''"
    unfolding get_request_def request_path_def by code_simp
  have st: "starts (ref_env home_config) home_disk home_server"
    using home_started(1) by (simp add: sound_start_def home_truncate)
  note f = starts_facts [OF st]
  have "lookup home_server ''meta'' = lookup home_disk ''meta''" by (simp add: lookup_def key_def f)
  then have l: "lookup home_server ''meta'' = Some (File 0)" by (simp add: home_disk_fields)
  have c: "calm (cwd (arrive visitor home_server)) {} (arrive visitor home_server) t"
    using HandleRequest_cases [OF t] path by auto
  then have k: "kept {} home_server t" "table t = table home_server" by (auto simp: calm_def kept_def arrive_fields)
  from kept_lookup [OF k(1) l _ f(1)] show "lookup t ''meta'' = Some (File 0)" "length (bytes (inodes t 0)) < 2 ^ 64"
    using sample_body_length [of "''files''" home_config] by (simp_all add: f home_disk_fields home_body_def)
  show "table t = table home_server" by (rule k(2))
qed

lemma server_refines_store_witness:
  "\<exists>answers t. serve (ref_service home_config) [visitor] home_server = (answers, t) \<and>
     agrees (ref_env home_config) t \<and> dom (hm_find (table t)) = {''/download/a''}"
proof -
  obtain answers t where run: "serve (ref_service home_config) [visitor] home_server = (answers, t)" by fastforce
  note life = server_refines_store [OF home_started(1) run, unfolded home_truncate]
  have "answers = [hd answers]" using run by (cases answers) (auto simp: Let_def)
  then have "zip (map asks [visitor]) answers = [(get_request, hd answers)]" by (metis list.simps(8,9) visitor_def arrival.select_convs(1) zip_Cons_Cons zip_Nil)
  moreover have "request_path get_request = Some ''/download/a''"
    unfolding get_request_def request_path_def by code_simp
  ultimately have "dom (hm_find (table t)) = dom (hm_find (table home_server))" using life by (simp add: acknowledged_def)
  moreover have "dom (hm_find (table home_server)) = {''/download/a''}"
    using home_started(2) by (simp add: hm_map_of dom_map_of_conv_image_fst sample_table_def)
  ultimately show ?thesis using run life by (auto simp: home_disk_fields)
qed


end
