(* ===== verification/Log_Config.thy ===== *)
theory Log_Config
  imports Config
begin

text \<open>
  \<^verbatim>\<open>src/log_system/logs_code/Util.hpp\<close>: the file helpers of the logging library and \<^verbatim>\<open>JsonData\<close>, its configuration,
  read once when the singleton is created. A \<^verbatim>\<open>size_t\<close> is an \<^typ>\<open>u64\<close>, because the buffers compute with these
  numbers; an exception is its message on the left of a sum. \<^verbatim>\<open>JsonUtil\<close> is the text of the one in the server,
  modelled in \<open>Json\<close>.
\<close>

record log_config =
  buffer_size :: u64
  threshold :: u64
  linear_growth :: u64
  flush_log :: u64
  backup_addr :: string
  backup_port :: "16 word"
  thread_count :: u64
  backup_queue_size :: u64
  backup_connect_timeout_ms :: int
  backup_send_timeout_ms :: int
  backup_retries :: int
  backup_enabled :: bool
  backup_token :: string

subsection \<open>Util::File\<close>

definition log_Exists :: "string \<Rightarrow> ('z, bool) io" where
  "log_Exists filename = do { r \<leftarrow> fs_exists filename; give (fst r \<and> \<not> snd r) }"

definition log_Path :: "string \<Rightarrow> string" where
  "log_Path filename = parent_path filename"

definition log_CreateDirectory :: "string \<Rightarrow> ('z, bool) io" where
  "log_CreateDirectory pathname =
     (if pathname = [] then give True
      else do {
        r \<leftarrow> fs_exists pathname;
        if fst r then (if snd r then give False else do { d \<leftarrow> fs_is_directory pathname; give (fst d) })
        else fs_create_directories pathname })"

text \<open>
  An \<^verbatim>\<open>ifstream\<close> opened at the end: its position is the size, or negative if it cannot be told. A stream that hits
  an error delivers a part of what was asked for.
\<close>

definition stream_end :: "nat \<Rightarrow> ('z, int) io" where
  "stream_end fd = syscall (-1) (gets (\<lambda>s. case fds s fd of
     Some d \<Rightarrow> (case fd_ino d of Some i \<Rightarrow> int (length (bytes (inodes s i))) | None \<Rightarrow> -1)
   | None \<Rightarrow> -1))"

definition log_GetContent :: "string \<Rightarrow> ('z, string option) io" where
  "log_GetContent filename = do {
     input \<leftarrow> open_rdonly filename;
     case input of
       None \<Rightarrow> give None
     | Some input \<Rightarrow> do {
         end \<leftarrow> stream_end input;
         content \<leftarrow> (if end < 0 \<or> 2 ^ 64 \<le> end then give None
           else if end = 0 then give (Some [])
           else do {
             data \<leftarrow> pread input (nat end) 0;
             give (case data of None \<Rightarrow> None
               | Some d \<Rightarrow> if length d \<noteq> nat end then None else Some d) });
         close input;
         give content } }"

subsection \<open>Where the configuration is\<close>

definition candidates :: "string list" where
  "candidates = [''../../log_system/logs_code/config.conf'', ''../logs_code/config.conf'',
     ''log_system/logs_code/config.conf'', ''config.conf'']"

fun first_existing :: "string list \<Rightarrow> ('z, string) io" where
  "first_existing [] = give (hd candidates)"
| "first_existing (c # cs) = do { found \<leftarrow> log_Exists c; if found then give c else first_existing cs }"

definition FindConfigPath :: "(string \<Rightarrow> string option) \<Rightarrow> ('z, string) io" where
  "FindConfigPath getenv =
     (case getenv ''ASYNLOG_CONFIG'' of
        Some env \<Rightarrow> if env \<noteq> [] then give env else first_existing candidates
      | None \<Rightarrow> first_existing candidates)"

subsection \<open>Reading the members\<close>

definition RequireUnsigned :: "'j json_lib \<Rightarrow> 'j \<Rightarrow> string \<Rightarrow> string + u64" where
  "RequireUnsigned L root name =
     (if \<not> js_isMember L root name \<or> \<not> js_isUInt64 L (js_at L root name)
      then Inl (name @ '' must be an unsigned integer'')
      else let val = js_asUInt64 L (js_at L root name)
           in if 2 ^ 64 - 1 < val then Inl (name @ '' is too large'') else Inr (of_nat val))"

definition require_addr :: "'j json_lib \<Rightarrow> 'j \<Rightarrow> string + string" where
  "require_addr L root =
     (if \<not> js_isString L (js_at L root ''backup_addr'') \<or> js_asString L (js_at L root ''backup_addr'') = []
      then Inl ''backup_addr must be a non-empty string''
      else Inr (js_asString L (js_at L root ''backup_addr'')))"

definition require_port :: "'j json_lib \<Rightarrow> 'j \<Rightarrow> string + 16 word" where
  "require_port L root =
     (let port = js_at L root ''backup_port''
      in if \<not> js_isUInt L port \<or> js_asUInt L port = 0 \<or> 65535 < js_asUInt L port
         then Inl ''backup_port must be in 1..65535'' else Inr (of_nat (js_asUInt L port)))"

definition require_positive :: "'j json_lib \<Rightarrow> 'j \<Rightarrow> string \<Rightarrow> string + int" where
  "require_positive L root name =
     (let val = js_at L root name
      in if \<not> js_isInt L val \<or> js_asInt L val \<le> 0 then Inl (name @ '' must be positive'') else Inr (js_asInt L val))"

definition require_enabled :: "'j json_lib \<Rightarrow> 'j \<Rightarrow> string + bool" where
  "require_enabled L root =
     (let val = js_at L root ''backup_enabled''
      in if \<not> js_isBool L val then Inl ''backup_enabled must be boolean'' else Inr (js_asBool L val))"

text \<open>\<^verbatim>\<open>asString\<close> throws for a value that has no text.\<close>

definition optional_token :: "'j json_lib \<Rightarrow> 'j \<Rightarrow> string + string" where
  "optional_token L root =
     (if \<not> js_isMember L root ''backup_token'' then Inr []
      else let val = js_at L root ''backup_token''
           in if js_isArray L val \<or> js_isObject L val then Inl ''Value is not convertible to string.''
              else Inr (js_asString L val))"

text \<open>The members, in the order they are read.\<close>

definition log_members :: "'j json_lib \<Rightarrow> 'j \<Rightarrow> string + log_config" where
  "log_members L root =
     and_then (RequireUnsigned L root ''buffer_size'') (\<lambda>size.
     and_then (RequireUnsigned L root ''threshold'') (\<lambda>thr.
     and_then (RequireUnsigned L root ''linear_growth'') (\<lambda>growth.
     and_then (RequireUnsigned L root ''flush_log'') (\<lambda>flush.
     and_then (RequireUnsigned L root ''thread_count'') (\<lambda>threads.
     and_then (RequireUnsigned L root ''backup_queue_size'') (\<lambda>queue.
     and_then (require_addr L root) (\<lambda>addr.
     and_then (require_port L root) (\<lambda>port.
     and_then (require_positive L root ''backup_connect_timeout_ms'') (\<lambda>connect.
     and_then (require_positive L root ''backup_send_timeout_ms'') (\<lambda>send.
     and_then (require_positive L root ''backup_retries'') (\<lambda>retries.
     and_then (require_enabled L root) (\<lambda>enabled.
     and_then (optional_token L root) (\<lambda>token.
       Inr \<lparr>buffer_size = size, threshold = thr, linear_growth = growth, flush_log = flush,
         backup_addr = addr, backup_port = port, thread_count = threads, backup_queue_size = queue,
         backup_connect_timeout_ms = connect, backup_send_timeout_ms = send, backup_retries = retries,
         backup_enabled = enabled, backup_token = token\<rparr>)))))))))))))"

definition check_log_config :: "log_config \<Rightarrow> string + log_config" where
  "check_log_config c =
     (if buffer_size c = 0 \<or> linear_growth c = 0 \<or> thread_count c = 0 \<or> backup_queue_size c = 0
      then Inl ''log buffer, thread and queue sizes must be positive''
      else if threshold c < buffer_size c
      then Inl ''threshold must be greater than or equal to buffer_size''
      else if 2 < flush_log c then Inl ''flush_log must be 0, 1 or 2''
      else Inr c)"

definition JsonData :: "'j json_lib \<Rightarrow> (string \<Rightarrow> string option) \<Rightarrow> ('z, string + log_config) io" where
  "JsonData L getenv = do {
     path \<leftarrow> FindConfigPath getenv;
     content \<leftarrow> log_GetContent path;
     give (case content of
       None \<Rightarrow> Inl (''cannot read log config: '' @ path)
     | Some content \<Rightarrow> (case UnSerialize L content of
         Inl error \<Rightarrow> Inl (''invalid log config: '' @ error)
       | Inr root \<Rightarrow>
           if \<not> js_isObject L root then Inl ''invalid log config: ''
           else and_then (log_members L root) check_log_config)) }"

subsection \<open>Accepted configurations\<close>

text \<open>What the buffers, the workers, the pool and the backup client rely on.\<close>

definition log_config_ok :: "log_config \<Rightarrow> bool" where
  "log_config_ok c \<longleftrightarrow> 0 < buffer_size c \<and> buffer_size c \<le> threshold c \<and> 0 < linear_growth c \<and>
     0 < thread_count c \<and> 0 < backup_queue_size c \<and> flush_log c \<le> 2 \<and>
     0 < backup_port c \<and> backup_addr c \<noteq> [] \<and>
     0 < backup_connect_timeout_ms c \<and> 0 < backup_send_timeout_ms c \<and> 0 < backup_retries c"

lemma require_Inr:
  "require_addr L root = Inr a \<Longrightarrow> a \<noteq> []"
  "require_positive L root n = Inr i \<Longrightarrow> 0 < i"
  "require_port L root = Inr p \<Longrightarrow> 0 < p"
proof -
  show "require_addr L root = Inr a \<Longrightarrow> a \<noteq> []" "require_positive L root n = Inr i \<Longrightarrow> 0 < i"
    by (auto simp: require_addr_def require_positive_def Let_def split: if_splits)
  have "(of_nat n :: 16 word) \<noteq> 0" if "0 < n" "n \<le> 65535" for n
    using that by (simp add: word_unat_eq_iff unat_of_nat)
  then show "require_port L root = Inr p \<Longrightarrow> 0 < p"
    by (auto simp: require_port_def Let_def word_gt_0 split: if_splits)
qed

lemma log_members_ok:
  assumes "log_members L root = Inr c"
  shows "backup_addr c \<noteq> [] \<and> 0 < backup_port c \<and> 0 < backup_connect_timeout_ms c \<and> 0 < backup_send_timeout_ms c \<and>
    0 < backup_retries c"
  using assms unfolding log_members_def and_then_Inr by (auto dest: require_Inr)

lemma check_log_config_ok:
  assumes "log_members L root = Inr c" "check_log_config c = Inr d"
  shows "log_config_ok d"
  using log_members_ok [OF assms(1)] assms(2)
  by (auto simp: check_log_config_def log_config_ok_def word_gt_0 not_less split: if_splits)

lemma log_GetContent_done:
  assumes "tape s = []" "lookup s f = Some (File i)" "length (bytes (inodes s i)) < 2 ^ 64"
  shows "run_state (log_GetContent f) s = (Some (bytes (inodes s i)), reopened s)"
proof -
  let ?t = "s\<lparr>fds := (fds s)(next_fd s \<mapsto> \<lparr>fd_ino = Some i, fd_pos = 0\<rparr>), next_fd := next_fd s + 1\<rparr>"
  have op: "run_state (open_rdonly f) s = (Some (next_fd s), ?t)"
    using assms by (simp add: open_rdonly_def syscall_def run_next new_fd_def)
  have "run_state (stream_end (next_fd s)) ?t = (int (length (bytes (inodes s i))), ?t)"
    "run_state (pread (next_fd s) (length (bytes (inodes s i))) 0) ?t = (Some (bytes (inodes s i)), ?t)"
    using assms(1) by (simp_all add: stream_end_def pread_def syscall_def run_next transfer_def)
  with op assms(1,3) show ?thesis
    by (auto simp: log_GetContent_def reopened_def close_def syscall_def run_next)
qed

lemma JsonData_ok:
  assumes "result (JsonData L getenv) s = Inr c"
  shows "log_config_ok c"
proof -
  from assms obtain root m where "log_members L root = Inr m" "check_log_config m = Inr c"
    by (auto simp: JsonData_def result_def and_then_Inr split: option.splits sum.splits if_splits prod.splits)
  then show ?thesis by (rule check_log_config_ok)
qed

subsection \<open>Properties\<close>

text \<open>A configuration of the logging library that is accepted is sound: buffers, growth step, threads and queue are
  positive, the threshold is at least the buffer size, the flush policy is one of three, the port is not zero and the
  timeouts and retries are positive. The buffers rely on the growth step, the pool on the others.\<close>

theorem log_config_sound:
  assumes "result (JsonData L getenv) s = Inr c"
  shows "log_config_ok c"
  by (rule JsonData_ok [OF assms])

text \<open>The configuration file is the one the environment names, if it names one; otherwise the first candidate that
  exists, and the first candidate of all if none does.\<close>

theorem find_config_path_first:
  assumes "tape s = []"
  shows "result (FindConfigPath getenv) s =
    (case getenv ''ASYNLOG_CONFIG'' of
       Some (c # cs) \<Rightarrow> c # cs
     | _ \<Rightarrow> (case List.find (\<lambda>c. lookup s c \<noteq> None) candidates of Some c \<Rightarrow> c | None \<Rightarrow> hd candidates))"
proof -
  have exists: "run_state (log_Exists c) s = (lookup s c \<noteq> None, s)" for c
    using assms by (simp add: log_Exists_def fs_exists_def fs_status_def run_next)
  have first: "run_state (first_existing cs) s =
      (case List.find (\<lambda>c. lookup s c \<noteq> None) cs of Some c \<Rightarrow> c | None \<Rightarrow> hd candidates, s)" for cs
    by (induction cs) (simp_all add: exists)
  show ?thesis
    by (cases "getenv ''ASYNLOG_CONFIG''") (auto simp: FindConfigPath_def result_def first split: list.split)
qed

subsection \<open>Examples\<close>

text \<open>The configuration file of the repository, as jsoncpp presents it.\<close>

definition shipped_log_conf :: json where
  "shipped_log_conf = JObject
     [(''buffer_size'', JInt 1048576), (''threshold'', JInt 16777216), (''linear_growth'', JInt 1048576),
      (''flush_log'', JInt 1), (''backup_enabled'', JBool True), (''backup_addr'', JString ''127.0.0.1''),
      (''backup_port'', JInt 8080), (''backup_token'', JString []), (''backup_connect_timeout_ms'', JInt 500),
      (''backup_send_timeout_ms'', JInt 500), (''backup_retries'', JInt 2), (''backup_queue_size'', JInt 1024),
      (''thread_count'', JInt 3)]"

definition shipped_log :: log_config where
  "shipped_log = \<lparr>buffer_size = 1048576, threshold = 16777216, linear_growth = 1048576, flush_log = 1,
     backup_addr = ''127.0.0.1'', backup_port = 8080, thread_count = 3, backup_queue_size = 1024,
     backup_connect_timeout_ms = 500, backup_send_timeout_ms = 500, backup_retries = 2, backup_enabled = True,
     backup_token = []\<rparr>"

definition ref_log_lib :: "json json_lib" where
  "ref_log_lib = ref_json\<lparr>js_parse := (\<lambda>s. if s = ''logs'' then Inr shipped_log_conf else Inl ''syntax error'')\<rparr>"

definition log_home :: os where
  "log_home = (boot [] [] [])\<lparr>
     node := (\<lambda>k. if k = [] then Some Dir else if k = [''config.conf''] then Some (File 0) else None),
     inodes := (\<lambda>i. \<lparr>bytes = ''logs'', mtime = 0, atime = 0\<rparr>), next_ino := 1\<rparr>"

lemma ref_log_selectors:
  "js_parse ref_log_lib ''logs'' = Inr shipped_log_conf"
  "js_isObject ref_log_lib (JObject ms) \<longleftrightarrow> True" "js_isObject ref_log_lib (JString str) \<longleftrightarrow> False"
  "js_isArray ref_log_lib (JString str) \<longleftrightarrow> False"
  "js_isString ref_log_lib (JString str) \<longleftrightarrow> True" "js_asString ref_log_lib (JString str) = str"
  "js_isInt ref_log_lib (JInt i) \<longleftrightarrow> - (2 ^ 31) \<le> i \<and> i < 2 ^ 31" "js_asInt ref_log_lib (JInt i) = i"
  "js_isUInt ref_log_lib (JInt i) \<longleftrightarrow> 0 \<le> i \<and> i < 2 ^ 32" "js_asUInt ref_log_lib (JInt i) = nat i"
  "js_isUInt64 ref_log_lib (JInt i) \<longleftrightarrow> 0 \<le> i \<and> i < 2 ^ 64" "js_asUInt64 ref_log_lib (JInt i) = nat i"
  "js_isBool ref_log_lib (JBool b) \<longleftrightarrow> True" "js_asBool ref_log_lib (JBool b) = b"
  "js_at ref_log_lib (JObject ms) k = (case map_of ms k of Some x \<Rightarrow> x | None \<Rightarrow> JNull)"
  "js_isMember ref_log_lib (JObject ms) k \<longleftrightarrow> map_of ms k \<noteq> None"
  by (simp_all add: ref_log_lib_def ref_json_def is_int_in_def as_int_def members_def map_of_eq_None_iff)

lemma log_home_key: "key log_home p = walk (path_names (c_str p)) []"
  by (simp add: key_def log_home_def boot_def)

lemma log_home_fields:
  "node log_home k = (if k = [] then Some Dir else if k = [''config.conf''] then Some (File 0) else None)"
  "tape log_home = []" "inodes log_home 0 = \<lparr>bytes = ''logs'', mtime = 0, atime = 0\<rparr>"
  by (simp_all add: log_home_def boot_def)

lemma plain_names:
  "path_names ''config.conf'' = [''config.conf'']" "path_names ''logs_code'' = [''logs_code'']"
  "path_names ''log_system'' = [''log_system'']" "path_names ''..'' = [''..'']"
  by (simp_all add: path_names_plain_name plain_name_def)

lemma candidate_names:
  "path_names ''config.conf'' = [''config.conf'']"
  "path_names ''../logs_code/config.conf'' = [''..'', ''logs_code'', ''config.conf'']"
  "path_names ''log_system/logs_code/config.conf'' = [''log_system'', ''logs_code'', ''config.conf'']"
  "path_names ''../../log_system/logs_code/config.conf'' = [''..'', ''..'', ''log_system'', ''logs_code'', ''config.conf'']"
  using path_names_append [of "''logs_code''" "''config.conf''"] path_names_append [of "''..''" "''logs_code/config.conf''"]
    path_names_append [of "''log_system''" "''logs_code/config.conf''"]
    path_names_append [of "''..''" "''log_system/logs_code/config.conf''"]
    path_names_append [of "''..''" "''../log_system/logs_code/config.conf''"]
  by (simp_all add: plain_names)

lemma log_home_lookup:
  "lookup log_home ''config.conf'' = Some (File 0)" "lookup log_home ''../../log_system/logs_code/config.conf'' = None"
  "lookup log_home ''../logs_code/config.conf'' = None" "lookup log_home ''log_system/logs_code/config.conf'' = None"
  by (simp_all add: lookup_def log_home_key c_str_def candidate_names log_home_fields)

lemma log_members_shipped: "log_members ref_log_lib shipped_log_conf = Inr shipped_log"
  by (simp add: log_members_def RequireUnsigned_def require_addr_def require_port_def require_positive_def
      require_enabled_def optional_token_def ref_log_selectors
      shipped_log_conf_def shipped_log_def Let_def)

lemma log_home_read: "result (JsonData ref_log_lib (\<lambda>_. None)) log_home = Inr shipped_log"
proof -
  have path: "run_state (FindConfigPath (\<lambda>_. None)) log_home = (''config.conf'', log_home)"
    by (simp add: FindConfigPath_def candidates_def log_Exists_def fs_exists_def fs_status_def run_next log_home_lookup log_home_fields)
  have get: "run_state (log_GetContent ''config.conf'') log_home = (Some ''logs'', reopened log_home)"
    using log_GetContent_done [OF log_home_fields(2) log_home_lookup(1)] by (simp add: log_home_fields)
  have "check_log_config shipped_log = Inr shipped_log" by (simp add: check_log_config_def shipped_log_def)
  then have "UnSerialize ref_log_lib ''logs'' = Inr shipped_log_conf" "js_isObject ref_log_lib shipped_log_conf"
      "and_then (log_members ref_log_lib shipped_log_conf) check_log_config = Inr shipped_log"
    by (simp_all add: UnSerialize_def ref_log_selectors log_members_shipped) (simp add: shipped_log_conf_def ref_log_selectors)
  then show ?thesis
    using path get by (auto simp: JsonData_def result_def split: prod.split)
qed

lemma log_config_sound_witness: "log_config_ok shipped_log"
  using log_config_sound [OF log_home_read] .

lemma find_config_path_first_witness: "result (FindConfigPath (\<lambda>_. None)) log_home = ''config.conf''"
  using find_config_path_first [OF log_home_fields(2), of "\<lambda>_. None"]
  by (simp add: candidates_def log_home_lookup)

end
