(* ===== verification/Log_Buffer.thy ===== *)
theory Log_Buffer
  imports Log_Config
begin

text \<open>
  \<^verbatim>\<open>src/log_system/logs_code/AsyncBuffer.hpp\<close>: the growing buffer between the threads that log and the thread that
  writes. Positions and sizes are \<^verbatim>\<open>size_t\<close>, so the sums and differences of the code are the wrapping ones of
  \<^typ>\<open>u64\<close>. The loop that chooses the new size need not end for a configuration the reader of the configuration would refuse, so
  it is a partial function: \<open>None\<close> is a call that never returns. An exception is the left of a sum.
  \<^verbatim>\<open>std::vector::resize\<close> throws above \<^verbatim>\<open>PTRDIFF_MAX\<close> bytes; running out of memory below that is not modelled.
\<close>

datatype buffer_error = Not_initialized | Null_data | Size_overflow | Vector_too_long

record log_buffer =
  buf :: string
  write_pos :: u64
  read_pos :: u64

definition vector_max :: nat where
  "vector_max = 2 ^ 63 - 1"

definition capacity :: "log_buffer \<Rightarrow> u64" where
  "capacity b = of_nat (length (buf b))"

definition IsEmpty :: "log_buffer \<Rightarrow> bool" where
  "IsEmpty b \<longleftrightarrow> write_pos b = read_pos b"

definition WriteableSize :: "log_buffer \<Rightarrow> u64" where
  "WriteableSize b = capacity b - write_pos b"

definition ReadableSize :: "log_buffer \<Rightarrow> u64" where
  "ReadableSize b = write_pos b - read_pos b"

text \<open>The bytes from \<open>Begin()\<close> on.\<close>

definition Begin :: "log_buffer \<Rightarrow> string" where
  "Begin b = drop (unat (read_pos b)) (buf b)"

definition Buffer :: "log_config option \<Rightarrow> buffer_error + log_buffer" where
  "Buffer conf = (case conf of
     None \<Rightarrow> Inl Not_initialized
   | Some c \<Rightarrow>
       if buffer_size c = 0 then Inl Not_initialized
       else if vector_max < unat (buffer_size c) then Inl Vector_too_long
       else Inr \<lparr>buf = replicate (unat (buffer_size c)) NUL, write_pos = 0, read_pos = 0\<rparr>)"

subsection \<open>Growing\<close>

definition growth_step :: "log_config \<Rightarrow> u64 \<Rightarrow> u64" where
  "growth_step c new_size = (if new_size < threshold c then max new_size 1 else linear_growth c)"

partial_function (option) grow :: "log_config \<Rightarrow> u64 \<Rightarrow> u64 \<Rightarrow> u64 option" where
  "grow c required new_size =
     (if new_size < required then
        (let growth = growth_step c new_size
         in if - 1 - new_size < growth then Some required
            else grow c required (new_size + growth))
      else Some new_size)"

declare grow.simps [code]

text \<open>\<open>resize\<close> fills up with zero bytes.\<close>

definition resize :: "log_buffer \<Rightarrow> u64 \<Rightarrow> buffer_error + log_buffer" where
  "resize b n = (if vector_max < unat n then Inl Vector_too_long
     else Inr (b\<lparr>buf := take (unat n) (buf b) @ replicate (unat n - length (buf b)) NUL\<rparr>))"

definition EnsureWritable :: "log_config \<Rightarrow> log_buffer \<Rightarrow> u64 \<Rightarrow> (buffer_error + log_buffer) option" where
  "EnsureWritable c b len =
     (if len \<le> WriteableSize b then Some (Inr b)
      else if - 1 - len < write_pos b then Some (Inl Size_overflow)
      else case grow c (write_pos b + len) (capacity b) of
        None \<Rightarrow> None
      | Some new_size \<Rightarrow> Some (resize b new_size))"

text \<open>\<open>data\<close> is the memory the pointer shows: at least \<open>len\<close> bytes, if it is not null.\<close>

definition Push :: "log_config \<Rightarrow> log_buffer \<Rightarrow> string option \<Rightarrow> u64 \<Rightarrow> (buffer_error + log_buffer) option" where
  "Push c b data len =
     (if len = 0 then Some (Inr b)
      else case data of
        None \<Rightarrow> Some (Inl Null_data)
      | Some d \<Rightarrow> (case EnsureWritable c b len of
          None \<Rightarrow> None
        | Some (Inl e) \<Rightarrow> Some (Inl e)
        | Some (Inr b') \<Rightarrow> Some (Inr (b'\<lparr>
            buf := overwrite (unat (write_pos b')) (take (unat len) d) (buf b'),
            write_pos := write_pos b' + len\<rparr>))))"

definition Swap :: "log_buffer \<Rightarrow> log_buffer \<Rightarrow> log_buffer \<times> log_buffer" where
  "Swap a b =
     (a\<lparr>buf := buf b, read_pos := read_pos b, write_pos := write_pos b\<rparr>,
      b\<lparr>buf := buf a, read_pos := read_pos a, write_pos := write_pos a\<rparr>)"

definition Reset :: "log_buffer \<Rightarrow> log_buffer" where
  "Reset b = b\<lparr>write_pos := 0, read_pos := 0\<rparr>"

subsection \<open>Well-formed buffers and what they hold\<close>

definition buffer_ok :: "log_buffer \<Rightarrow> bool" where
  "buffer_ok b \<longleftrightarrow> read_pos b \<le> write_pos b \<and> unat (write_pos b) \<le> length (buf b) \<and> length (buf b) \<le> vector_max"

definition held :: "log_buffer \<Rightarrow> string" where
  "held b = take (unat (ReadableSize b)) (Begin b)"

definition space :: "log_buffer \<Rightarrow> nat" where
  "space b = length (buf b) - unat (write_pos b)"

named_theorems buffer_simps \<open>buffers in terms of natural numbers\<close>

lemma vector_max_less: "n \<le> vector_max \<Longrightarrow> n < 2 ^ 64"
  by (simp add: vector_max_def)

lemma unat_capacity [buffer_simps]: "buffer_ok b \<Longrightarrow> unat (capacity b) = length (buf b)"
  unfolding buffer_ok_def capacity_def by (intro unat_of_nat_u64 vector_max_less) simp

lemma unat_WriteableSize [buffer_simps]: "buffer_ok b \<Longrightarrow> unat (WriteableSize b) = space b"
proof -
  assume ok: "buffer_ok b"
  then have "write_pos b \<le> capacity b" by (simp add: word_le_nat_alt unat_capacity) (simp add: buffer_ok_def)
  then show ?thesis using ok by (simp add: WriteableSize_def unat_diff_u64 unat_capacity space_def)
qed

lemma unat_ReadableSize [buffer_simps]: "buffer_ok b \<Longrightarrow> unat (ReadableSize b) = unat (write_pos b) - unat (read_pos b)"
  by (simp add: buffer_ok_def ReadableSize_def unat_diff_u64)

lemma unat_positions: "buffer_ok b \<Longrightarrow> unat (read_pos b) \<le> unat (write_pos b)"
  by (simp add: buffer_ok_def word_le_nat_alt)

lemma held_length: "buffer_ok b \<Longrightarrow> length (held b) = unat (ReadableSize b)"
  using unat_positions [of b] by (simp add: held_def Begin_def buffer_simps) (auto simp: buffer_ok_def)

lemma IsEmpty_held: "buffer_ok b \<Longrightarrow> IsEmpty b \<longleftrightarrow> held b = []"
proof -
  assume ok: "buffer_ok b"
  have "held b = [] \<longleftrightarrow> unat (ReadableSize b) = 0" using held_length [OF ok] by (metis length_0_conv)
  then show ?thesis by (simp add: ReadableSize_def IsEmpty_def unat_eq_0)
qed

lemma Swap_eq: "Swap a b = (b, a)"
  by (cases a; cases b) (simp add: Swap_def)

subsection \<open>The loop that chooses the size\<close>

lemma growth_step_pos: "0 < linear_growth c \<Longrightarrow> 0 < unat (growth_step c n)"
  by (auto simp: growth_step_def unat_gt_0 word_gt_0 max_def)

lemma growth_step_le: "unat (growth_step c n) \<le> max (unat (threshold c)) (unat (linear_growth c))"
  by (auto simp: growth_step_def max_def word_less_nat_alt word_le_nat_alt)

lemma no_wrap: "\<not> (- 1 - n < g) \<Longrightarrow> unat (n + g :: u64) = unat n + unat g"
proof -
  assume "\<not> (- 1 - n < g)"
  then have "unat g \<le> unat (- 1 - n)" by (simp add: word_le_nat_alt not_less)
  also have "unat (- 1 - n) = unat (- 1 :: u64) - unat n" by (rule unat_diff_u64) simp
  also have "unat (- 1 :: u64) = 2 ^ 64 - 1" by (simp add: unsigned_minus_1_eq_mask mask_eq_exp_minus_1)
  finally have "unat n + unat g < 2 ^ 64" using unat_u64_less [of n] by simp
  then show ?thesis by (rule unat_add_u64)
qed

lemma wrap: "- 1 - n < g \<Longrightarrow> 2 ^ 64 \<le> unat (n :: u64) + unat g"
proof -
  assume "- 1 - n < g"
  then have "unat (- 1 - n) < unat g" by (simp add: word_less_nat_alt)
  also have "unat (- 1 - n) = unat (- 1 :: u64) - unat n" by (rule unat_diff_u64) simp
  also have "unat (- 1 :: u64) = 2 ^ 64 - 1" by (simp add: unsigned_minus_1_eq_mask mask_eq_exp_minus_1)
  finally show ?thesis using unat_u64_less [of n] by simp
qed

lemma grow_returns:
  assumes "0 < linear_growth c" "n < required"
  obtains m where "grow c required n = Some m" "required \<le> m"
    "unat m \<le> unat required + max (unat (threshold c)) (unat (linear_growth c))"
proof -
  have "\<exists>m. grow c required n = Some m \<and> required \<le> m \<and>
      unat m \<le> unat required + max (unat (threshold c)) (unat (linear_growth c))"
    using assms(2)
  proof (induction "unat required - unat n" arbitrary: n rule: less_induct)
    case less
    let ?g = "growth_step c n"
    note step = grow.simps [of c required n]
    show ?case
    proof (cases "- 1 - n < ?g")
      case True
      then have "grow c required n = Some required" using step less.prems by (simp add: Let_def)
      then show ?thesis by simp
    next
      case False
      have u: "unat (n + ?g) = unat n + unat ?g" by (rule no_wrap [OF False])
      have g: "grow c required n = grow c required (n + ?g)" using step less.prems False by (simp add: Let_def)
      show ?thesis
      proof (cases "n + ?g < required")
        case True
        then have "unat required - unat (n + ?g) < unat required - unat n"
          using u growth_step_pos [OF assms(1), of n] by (simp add: word_less_nat_alt)
        from less.hyps [OF this True] show ?thesis using g by simp
      next
        case False
        then have "grow c required n = Some (n + ?g)" using g by (simp add: grow.simps [of c required "n + ?g"])
        moreover have "unat (n + ?g) \<le> unat required + max (unat (threshold c)) (unat (linear_growth c))"
          using u growth_step_le [of c n] less.prems by (simp add: word_less_nat_alt)
        ultimately show ?thesis using False by (simp add: not_less)
      qed
    qed
  qed
  then show thesis using that by blast
qed

text \<open>With a growth step of zero, which the reader of the configuration refuses, the loop never ends.\<close>

lemma grow_diverges:
  assumes "linear_growth c = 0" "threshold c \<le> n" "n < required"
  shows "grow c required n = None"
proof -
  have "\<not> (linear_growth c = 0 \<and> threshold c \<le> n \<and> n < required)" if "grow c required n = Some m" for m
    using that
  proof (rule grow.raw_induct [rotated], goal_cases)
    case (1 g c required n y)
    show ?case
    proof
      assume a: "linear_growth c = 0 \<and> threshold c \<le> n \<and> n < required"
      then have "growth_step c n = 0" by (auto simp: growth_step_def)
      with 1(2) a have "g c required n = Some y" by (simp add: Let_def)
      from 1(1) [OF this] a show False by blast
    qed
  qed
  then show ?thesis using assms by (cases "grow c required n") auto
qed

subsection \<open>Appending\<close>

lemma resize_held:
  assumes "buffer_ok b" "length (buf b) \<le> unat n" "resize b n = Inr b'"
  shows "buffer_ok b'" "held b' = held b" "length (buf b') = unat n" "write_pos b' = write_pos b" "read_pos b' = read_pos b"
proof -
  from assms have b': "b' = b\<lparr>buf := buf b @ replicate (unat n - length (buf b)) NUL\<rparr>" "unat n \<le> vector_max"
    by (auto simp: resize_def split: if_splits)
  show "length (buf b') = unat n" "write_pos b' = write_pos b" "read_pos b' = read_pos b" using assms(2) b' by simp_all
  show "buffer_ok b'" using assms(1,2) b' by (simp add: buffer_ok_def)
  have "unat (read_pos b) + unat (ReadableSize b) \<le> length (buf b)"
    using assms(1) unat_positions [OF assms(1)] by (simp add: buffer_simps buffer_ok_def)
  then show "held b' = held b" using b'(1) by (simp add: held_def Begin_def ReadableSize_def)
qed

lemma write_held:
  assumes "buffer_ok b" "length d \<le> space b"
  shows "buffer_ok (b\<lparr>buf := overwrite (unat (write_pos b)) d (buf b), write_pos := write_pos b + of_nat (length d)\<rparr>)"
    and "held (b\<lparr>buf := overwrite (unat (write_pos b)) d (buf b), write_pos := write_pos b + of_nat (length d)\<rparr>) = held b @ d"
proof -
  let ?w = "unat (write_pos b)" and ?r = "unat (read_pos b)"
  let ?b = "b\<lparr>buf := overwrite ?w d (buf b), write_pos := write_pos b + of_nat (length d)\<rparr>"
  have fit: "?w + length d \<le> length (buf b)" "length (buf b) < 2 ^ 64" "?r \<le> ?w"
    using assms unat_positions [OF assms(1)] vector_max_less by (auto simp: buffer_ok_def space_def)
  have w: "unat (write_pos b + of_nat (length d)) = ?w + length d"
    using fit by (simp add: unat_add_u64 unat_of_nat_u64)
  have len: "length (buf ?b) = length (buf b)" using fit by (simp add: overwrite_def)
  show ok: "buffer_ok ?b" using assms(1) fit w len by (simp add: buffer_ok_def word_le_nat_alt)
  have "held ?b = take (?w + length d - ?r) (drop ?r (take ?w (buf b) @ d @ drop (?w + length d) (buf b)))"
    using unat_ReadableSize [OF ok] w by (simp add: held_def Begin_def overwrite_def)
  also have "\<dots> = take (?w - ?r) (drop ?r (buf b)) @ d"
  proof -
    let ?a = "take (?w - ?r) (drop ?r (buf b))"
    have "length ?a = ?w - ?r" "drop ?r (take ?w (buf b)) = ?a" using fit by (simp_all add: drop_take)
    moreover have "?w + length d - ?r = (?w - ?r) + length d" using fit by simp
    ultimately show ?thesis using fit by simp
  qed
  also have "take (?w - ?r) (drop ?r (buf b)) = held b"
    using unat_ReadableSize [OF assms(1)] by (simp add: held_def Begin_def)
  finally show "held ?b = held b @ d" .
qed

text \<open>The outcome of \<open>EnsureWritable\<close>: room for \<open>len\<close> bytes, or an exception for a size no vector has.\<close>

lemma EnsureWritable_run:
  assumes "buffer_ok b" "0 < linear_growth c"
  obtains (fits) "EnsureWritable c b len = Some (Inr b)" "unat len \<le> space b"
  | (too_long) e where "EnsureWritable c b len = Some (Inl e)" "space b < unat len" "e = Size_overflow \<or> e = Vector_too_long"
      "vector_max < unat (write_pos b) + unat len + max (unat (threshold c)) (unat (linear_growth c))"
  | (grown) b' where "EnsureWritable c b len = Some (Inr b')" "space b < unat len" "buffer_ok b'" "held b' = held b"
      "unat len \<le> space b'" "length (buf b) < length (buf b')" "write_pos b' = write_pos b" "read_pos b' = read_pos b"
      "length (buf b') \<le> unat (write_pos b) + unat len + max (unat (threshold c)) (unat (linear_growth c))"
proof (cases "len \<le> WriteableSize b")
  case True
  then show thesis using fits unat_WriteableSize [OF assms(1)] by (simp add: EnsureWritable_def word_le_nat_alt)
next
  case no: False
  then have sp: "space b < unat len" using unat_WriteableSize [OF assms(1)] by (simp add: word_le_nat_alt)
  show thesis
  proof (cases "- 1 - len < write_pos b")
    case True
    have "vector_max < unat (write_pos b) + unat len" using wrap [OF True] by (simp add: vector_max_def)
    then show thesis using too_long [of Size_overflow] no True sp by (simp add: EnsureWritable_def)
  next
    case False
    have w: "unat (write_pos b + len) = unat (write_pos b) + unat len" using no_wrap [OF False] by (simp add: add.commute)
    have "capacity b < write_pos b + len"
      using sp w assms(1) by (simp add: word_less_nat_alt unat_capacity space_def)
    from grow_returns [OF assms(2) this] obtain m where m: "grow c (write_pos b + len) (capacity b) = Some m"
      "write_pos b + len \<le> m" "unat m \<le> unat (write_pos b) + unat len + max (unat (threshold c)) (unat (linear_growth c))"
      using w by metis
    have e: "EnsureWritable c b len = Some (resize b m)" using no False m(1) by (simp add: EnsureWritable_def)
    have big: "unat (write_pos b) + unat len \<le> unat m" using m(2) w by (simp add: word_le_nat_alt)
    then have more: "length (buf b) < unat m" using sp assms(1) by (simp add: space_def buffer_ok_def)
    show thesis
    proof (cases "resize b m")
      case (Inl er)
      then have "er = Vector_too_long" "vector_max < unat m" by (auto simp: resize_def split: if_splits)
      then show thesis using too_long [of er] e Inl sp m(3) by simp
    next
      case (Inr b')
      note r = resize_held [OF assms(1) less_imp_le [OF more] Inr]
      have "unat len \<le> space b'" using r(3,4) big by (simp add: space_def)
      then show thesis using grown [of b'] e Inr sp r more m(3) by simp
    qed
  qed
qed

lemma Push_run:
  assumes "buffer_ok b" "0 < linear_growth c" "unat len \<le> length d"
  obtains (too_long) e where "Push c b (Some d) len = Some (Inl e)" "space b < unat len" "e = Size_overflow \<or> e = Vector_too_long"
      "vector_max < unat (write_pos b) + unat len + max (unat (threshold c)) (unat (linear_growth c))"
  | (pushed) b' where "Push c b (Some d) len = Some (Inr b')" "buffer_ok b'" "held b' = held b @ take (unat len) d"
      "read_pos b' = read_pos b" "write_pos b' = write_pos b + len"
      "if unat len \<le> space b then length (buf b') = length (buf b)
       else length (buf b) < length (buf b') \<and>
         length (buf b') \<le> unat (write_pos b) + unat len + max (unat (threshold c)) (unat (linear_growth c))"
proof (cases "len = 0")
  case True
  then show thesis using pushed [of b] assms(1) by (simp add: Push_def)
next
  case ne: False
  let ?d = "take (unat len) d"
  have l: "length ?d = unat len" "of_nat (length ?d) = len" using assms(3) by simp_all
  let ?put = "\<lambda>b'. b'\<lparr>buf := overwrite (unat (write_pos b')) ?d (buf b'), write_pos := write_pos b' + len\<rparr>"
  have put: "length (buf (b'\<lparr>buf := overwrite (unat (write_pos b')) ?d (buf b'), write_pos := write_pos b' + len\<rparr>)) = length (buf b')"
    if "buffer_ok b'" "unat len \<le> space b'" for b'
    using that l(1) by (auto simp: overwrite_def space_def buffer_ok_def)
  from assms(1,2) show thesis
  proof (cases rule: EnsureWritable_run [where len = len])
    case fits
    show thesis
      by (rule pushed [of "?put b"]) (use fits ne write_held [OF assms(1), of ?d] l put [OF assms(1) fits(2)] in \<open>simp_all add: Push_def\<close>)
  next
    case (too_long e)
    then show thesis using that(1) ne by (simp add: Push_def)
  next
    case (grown b')
    show thesis
      by (rule pushed [of "?put b'"]) (use grown ne write_held [OF grown(3), of ?d] l put [OF grown(3,5)] in \<open>simp_all add: Push_def\<close>)
  qed
qed

subsection \<open>The interface the workers use\<close>

text \<open>
  A queue of bytes: what is put is added at the end, nothing is refused while there is room, and clearing gives at least
  the room that what was held took.
\<close>

locale byte_queue =
  fixes ok :: "'b \<Rightarrow> bool" and held :: "'b \<Rightarrow> string" and room :: "'b \<Rightarrow> nat"
    and put :: "string \<Rightarrow> 'b \<Rightarrow> 'b option" and clear :: "'b \<Rightarrow> 'b"
  assumes put_ok: "ok b \<Longrightarrow> put d b = Some b' \<Longrightarrow> ok b'"
    and put_held: "ok b \<Longrightarrow> put d b = Some b' \<Longrightarrow> held b' = held b @ d"
    and put_room: "ok b \<Longrightarrow> length d \<le> room b \<Longrightarrow> \<exists>b'. put d b = Some b' \<and> room b' + length d = room b"
    and clear_ok: "ok b \<Longrightarrow> ok (clear b)"
    and clear_held: "ok b \<Longrightarrow> held (clear b) = []"
    and clear_room: "ok b \<Longrightarrow> room b + length (held b) \<le> room (clear b)"
begin

primrec put_all :: "string list \<Rightarrow> 'b \<Rightarrow> 'b option" where
  "put_all [] b = Some b"
| "put_all (d # ds) b = (case put d b of None \<Rightarrow> None | Some b' \<Rightarrow> put_all ds b')"

lemma put_all_held: "ok b \<Longrightarrow> put_all ds b = Some b' \<Longrightarrow> ok b' \<and> held b' = held b @ concat ds"
proof (induction ds arbitrary: b)
  case (Cons d ds)
  then obtain x where x: "put d b = Some x" "put_all ds x = Some b'" by (auto split: option.splits)
  with Cons.IH [of x] Cons.prems(1) put_ok [of b d x] put_held [of b d x] show ?case by simp
qed simp

lemma put_all_room: "ok b \<Longrightarrow> length (concat ds) \<le> room b \<Longrightarrow> \<exists>b'. put_all ds b = Some b' \<and> room b' + length (concat ds) = room b"
proof (induction ds arbitrary: b)
  case (Cons d ds)
  then obtain b' where b': "put d b = Some b'" "room b' + length d = room b"
    using put_room [of b d] by auto
  with Cons.IH [of b'] Cons.prems put_ok show ?case by fastforce
qed simp

text \<open>A cleared queue takes again all it held.\<close>

lemma clear_refill: "ok b \<Longrightarrow> \<exists>b'. put (held b) (clear b) = Some b' \<and> held b' = held b"
  using put_room [of "clear b" "held b"] clear_ok [of b] clear_room [of b] clear_held [of b] put_held [of "clear b" "held b"] by fastforce

end

definition append :: "log_config \<Rightarrow> string \<Rightarrow> log_buffer \<Rightarrow> log_buffer option" where
  "append c d b = (if 2 ^ 64 \<le> length d then None
     else case Push c b (Some d) (of_nat (length d)) of Some (Inr b') \<Rightarrow> Some b' | _ \<Rightarrow> None)"

lemma append_Some:
  assumes "buffer_ok b" "0 < linear_growth c" "append c d b = Some b'"
  shows "buffer_ok b'" "held b' = held b @ d" "read_pos b' = read_pos b"
    "length d \<le> space b \<Longrightarrow> length (buf b') = length (buf b)" "length (buf b) \<le> length (buf b')"
    "unat (write_pos b') = unat (write_pos b) + length d"
proof -
  have l: "unat (of_nat (length d) :: u64) = length d" and p: "Push c b (Some d) (of_nat (length d)) = Some (Inr b')"
    using assms(3) by (auto simp: append_def unat_of_nat_u64 split: if_splits option.splits sum.splits)
  from Push_run [OF assms(1,2), of "of_nat (length d)" d] l p
  have b: "buffer_ok b'" "held b' = held b @ d" "read_pos b' = read_pos b"
    "if length d \<le> space b then length (buf b') = length (buf b) else length (buf b) < length (buf b')"
    by (cases; auto split: if_splits)+
  then show "buffer_ok b'" "held b' = held b @ d" "read_pos b' = read_pos b"
    "length d \<le> space b \<Longrightarrow> length (buf b') = length (buf b)" "length (buf b) \<le> length (buf b')"
    by (auto split: if_splits)
  show "unat (write_pos b') = unat (write_pos b) + length d"
    using held_length [OF b(1)] held_length [OF assms(1)] b(2,3) unat_positions [OF assms(1)] unat_positions [OF b(1)]
    by (simp add: unat_ReadableSize b(1) assms(1))
qed

lemma append_fits:
  assumes "buffer_ok b" "0 < linear_growth c" "length d \<le> space b"
  shows "\<exists>b'. append c d b = Some b'"
proof -
  have "length d \<le> vector_max" using assms(1,3) by (auto simp: buffer_ok_def space_def)
  then have l: "length d < 2 ^ 64" by (rule vector_max_less)
  then have u: "unat (of_nat (length d) :: u64) = length d" by (rule unat_of_nat_u64)
  then have "unat (of_nat (length d) :: u64) \<le> length d" by simp
  with assms(1,2) show ?thesis
  proof (cases rule: Push_run)
    case (too_long e)
    then show ?thesis using u assms(3) by simp
  next
    case (pushed b')
    then show ?thesis using l by (simp add: append_def)
  qed
qed

text \<open>A call of \<open>Push\<close> returns.\<close>

lemma push_total:
  assumes "buffer_ok b" "0 < linear_growth c" "length d < 2 ^ 64"
  shows "Push c b (Some d) (of_nat (length d)) \<noteq> None"
proof -
  have "unat (of_nat (length d) :: u64) \<le> length d" using unat_of_nat_u64 [OF assms(3)] by simp
  with assms(1,2) show ?thesis by (cases rule: Push_run) simp_all
qed

interpretation lb: byte_queue "\<lambda>b. buffer_ok b \<and> 0 < linear_growth c" held space "append c" Reset for c
proof unfold_locales
  fix b b' d
  assume ok: "buffer_ok b \<and> 0 < linear_growth c"
  show "buffer_ok b' \<and> 0 < linear_growth c" if "append c d b = Some b'"
    using append_Some(1) [OF _ _ that] ok by simp
  show "held b' = held b @ d" if "append c d b = Some b'" using append_Some(2) [OF _ _ that] ok by simp
  show "\<exists>b'. append c d b = Some b' \<and> space b' + length d = space b" if "length d \<le> space b"
    using append_fits [of b c d] append_Some(4,6) [of b c d] ok that by (fastforce simp: space_def)
  show "buffer_ok (Reset b) \<and> 0 < linear_growth c" "held (Reset b) = []"
    using ok by (simp_all add: Reset_def buffer_ok_def held_def ReadableSize_def)
  show "space b + length (held b) \<le> space (Reset b)"
    using ok held_length [of b] by (simp add: Reset_def space_def unat_ReadableSize) (simp add: buffer_ok_def)
qed

subsection \<open>Properties\<close>

text \<open>C30. Appending to a log buffer appends. With a positive growth step \<open>Push\<close> always returns; it throws only when
  the buffer would have to exceed what a vector can hold; otherwise the buffer then holds what it held followed by
  exactly the bytes given, nothing wraps around, and the buffer grows only if the bytes do not
  fit, and then by no more than the larger of threshold and growth step beyond what is needed.\<close>

theorem push_appends:
  assumes "buffer_ok b" and "0 < linear_growth c" and "unat len \<le> length d"
  shows "case Push c b (Some d) len of
      None \<Rightarrow> False
    | Some (Inl e) \<Rightarrow> vector_max < unat (write_pos b) + unat len + max (unat (threshold c)) (unat (linear_growth c))
    | Some (Inr b') \<Rightarrow> buffer_ok b' \<and> held b' = held b @ take (unat len) d \<and>
        (if unat len \<le> space b then length (buf b') = length (buf b)
         else length (buf b') \<le> unat (write_pos b) + unat len + max (unat (threshold c)) (unat (linear_growth c)))"
  using assms by (cases rule: Push_run) (auto split: if_splits)

text \<open>The loop that chooses the new size ends because the growth step is positive; with a step of zero it would spin
  for ever as soon as the buffer has reached the threshold, holding the lock. The check in the
  configuration is what rules this out.\<close>

theorem growth_loop_termination:
  assumes "n < required"
  shows "(0 < linear_growth c \<longrightarrow> (\<exists>m. grow c required n = Some m \<and> required \<le> m)) \<and>
    (linear_growth c = 0 \<and> threshold c \<le> n \<longrightarrow> grow c required n = None)"
  using grow_returns [OF _ assms, of c] grow_diverges [of c n required] assms by metis

definition small_config :: log_config where
  "small_config = shipped_log\<lparr>buffer_size := 4, threshold := 8, linear_growth := 3\<rparr>"

definition small_buffer :: log_buffer where
  "small_buffer = \<lparr>buf = ''abNN'', write_pos = 2, read_pos = 0\<rparr>"

lemma small_facts: "buffer_ok small_buffer" "held small_buffer = ''ab''" "space small_buffer = 2" "0 < linear_growth small_config"
  by (simp_all add: small_buffer_def small_config_def buffer_ok_def held_def ReadableSize_def Begin_def space_def vector_max_def
    word_gt_0)

lemma push_appends_witness:
  "\<exists>b'. Push small_config small_buffer (Some ''cdefghij'') 8 = Some (Inr b') \<and> held b' = ''abcdefghij''"
proof -
  have u: "unat (write_pos small_buffer) + unat (8 :: u64) + max (unat (threshold small_config)) (unat (linear_growth small_config)) \<le> vector_max"
    by (simp add: small_buffer_def small_config_def vector_max_def)
  with push_appends [OF small_facts(1,4), of 8 "''cdefghij''"] show ?thesis
    by (auto simp: small_facts split: option.splits sum.splits)
qed

lemma growth_loop_termination_witness:
  "grow (small_config\<lparr>linear_growth := 0\<rparr>) 20 9 = None \<and> (\<exists>m. grow small_config 20 9 = Some m)"
  using growth_loop_termination [of 9 20 "small_config\<lparr>linear_growth := 0\<rparr>"] growth_loop_termination [of 9 20 small_config]
    small_facts(4) by (simp add: small_config_def) blast

end
