(* ===== verification/Steps.thy ===== *)
theory Steps
  imports Prelude
begin

text \<open>
  Threads. The components with several threads are labelled transition systems: a step is what one thread does
  while it holds the mutex, or between two such sections. An execution is a sequence of steps in any order. This
  theory has executions and the interface through which their invariants are used.
\<close>

inductive exec :: "('s \<Rightarrow> 'e \<Rightarrow> 's \<Rightarrow> bool) \<Rightarrow> 's \<Rightarrow> 'e list \<Rightarrow> 's \<Rightarrow> bool" for step where
  exec_nil: "exec step s [] s"
| exec_cons: "step s e t \<Longrightarrow> exec step t es u \<Longrightarrow> exec step s (e # es) u"

inductive_simps exec_simps [simp]: "exec step s [] t" "exec step s (e # es) t"

lemma exec_append: "exec step s (es @ fs) u \<longleftrightarrow> (\<exists>t. exec step s es t \<and> exec step t fs u)"
  by (induction es arbitrary: s) auto

text \<open>An invariant: it holds at the start and every step keeps it.\<close>

locale invariant_steps =
  fixes step :: "'s \<Rightarrow> 'e \<Rightarrow> 's \<Rightarrow> bool" and start :: "'s \<Rightarrow> bool" and inv :: "'s \<Rightarrow> bool"
  assumes inv_start: "start s \<Longrightarrow> inv s"
    and inv_step: "inv s \<Longrightarrow> step s e t \<Longrightarrow> inv t"
begin

lemma inv_exec: "exec step s es t \<Longrightarrow> inv s \<Longrightarrow> inv t"
  by (induction rule: exec.induct) (auto dest: inv_step)

lemma inv_reached: "start s \<Longrightarrow> exec step s es t \<Longrightarrow> inv t"
  by (rule inv_exec [OF _ inv_start])

text \<open>A relation that every step from a state of the invariant respects, if it is reflexive and transitive.\<close>

lemma exec_relation:
  assumes "exec step s es t" "inv s" "\<And>s e t. inv s \<Longrightarrow> step s e t \<Longrightarrow> R s t" "\<And>s. R s s"
    "\<And>s t u. R s t \<Longrightarrow> R t u \<Longrightarrow> R s u"
  shows "R s t"
  using assms(1,2) by (induction rule: exec.induct) (auto intro: assms(3-5) dest: inv_step)

end

text \<open>A bound on the steps of a kind: a rank no step raises and every step of the kind lowers.\<close>

locale ranked_steps = invariant_steps step start inv
  for step :: "'s \<Rightarrow> 'e \<Rightarrow> 's \<Rightarrow> bool" and start :: "'s \<Rightarrow> bool" and inv :: "'s \<Rightarrow> bool" +
  fixes own :: "'e \<Rightarrow> bool" and rank :: "'s \<Rightarrow> nat"
  assumes rank_own: "inv s \<Longrightarrow> step s e t \<Longrightarrow> own e \<Longrightarrow> rank t < rank s"
    and rank_other: "inv s \<Longrightarrow> step s e t \<Longrightarrow> \<not> own e \<Longrightarrow> rank t \<le> rank s"
begin

lemma own_bound: "exec step s es t \<Longrightarrow> inv s \<Longrightarrow> rank t + length (filter own es) \<le> rank s"
proof (induction rule: exec.induct)
  case (exec_cons s e t es u)
  then have "rank u + length (filter own es) \<le> rank t" using inv_step by blast
  with rank_own [OF exec_cons.prems exec_cons.hyps(1)] rank_other [OF exec_cons.prems exec_cons.hyps(1)]
  show ?case by (cases "own e") auto
qed simp

end

end
