(* ===== verification/Async_Worker.thy ===== *)
theory Async_Worker
  imports Log_Buffer Steps
begin

text \<open>
  \<^verbatim>\<open>src/log_system/logs_code/AsyncWorker.hpp\<close>: the double buffer between the threads that log and the writer thread. The
  state has the members of the class, where each thread stands, and two histories: the data whose \<open>Push\<close> returned
  true and the data the callback was given. The steps are the critical sections of the code, in any order. A
  thread that waits on a condition variable is asleep until it is notified, or for no reason at all; \<open>Stop\<close>
  notifies after it has released the mutex, which is a step of its own.
\<close>

datatype AsyncType = ASYNC_SAFE | ASYNC_UNSAFE

datatype consumer_phase = Checking | Asleep | Flushing | Exited

datatype caller = Pushing string | Waiting string

record worker =
  async_type :: AsyncType
  producer :: log_buffer
  consumer :: log_buffer
  stopping :: bool
  stop_pending :: bool
  phase :: consumer_phase
  callers :: "nat \<Rightarrow> caller option"
  accepted :: "string list"
  flushed :: "string list"

definition AsyncWorker :: "log_config option \<Rightarrow> AsyncType \<Rightarrow> buffer_error + worker" where
  "AsyncWorker conf ty = (case Buffer conf of
     Inl e \<Rightarrow> Inl e
   | Inr b \<Rightarrow> Inr \<lparr>async_type = ty, producer = b, consumer = b, stopping = False, stop_pending = False,
       phase = Checking, callers = (\<lambda>t. None), accepted = [], flushed = []\<rparr>)"

subsection \<open>Push\<close>

text \<open>The predicate \<open>Push\<close> waits for, and what it does once it has the mutex.\<close>

definition can_push :: "worker \<Rightarrow> u64 \<Rightarrow> bool" where
  "can_push w len \<longleftrightarrow> stopping w \<or> IsEmpty (producer w) \<or> len \<le> WriteableSize (producer w)"

datatype push_outcome = Blocks | Refused | Stored log_buffer | Throws buffer_error | Hangs

definition try_push :: "log_config \<Rightarrow> worker \<Rightarrow> string \<Rightarrow> push_outcome" where
  "try_push c w data =
     (let len = of_nat (length data) in
      if async_type w = ASYNC_SAFE \<and> \<not> can_push w len then Blocks
      else if stopping w then Refused
      else case Push c (producer w) (Some data) len of
        None \<Rightarrow> Hangs
      | Some (Inl e) \<Rightarrow> Throws e
      | Some (Inr b) \<Rightarrow> Stored b)"

definition wake_consumer :: "worker \<Rightarrow> worker" where
  "wake_consumer w = (if phase w = Asleep then w\<lparr>phase := Checking\<rparr> else w)"

definition wake :: "caller \<Rightarrow> caller" where
  "wake a = (case a of Waiting d \<Rightarrow> Pushing d | Pushing d \<Rightarrow> Pushing d)"

definition wake_producers :: "worker \<Rightarrow> worker" where
  "wake_producers w = w\<lparr>callers := map_option wake \<circ> callers w\<rparr>"

definition store :: "worker \<Rightarrow> nat \<Rightarrow> string \<Rightarrow> log_buffer \<Rightarrow> worker" where
  "store w t data b = wake_consumer
     (w\<lparr>producer := b, callers := (callers w)(t := None), accepted := accepted w @ [data]\<rparr>)"

subsection \<open>Stop\<close>

definition stop_flag :: "worker \<Rightarrow> worker" where
  "stop_flag w = w\<lparr>stopping := True, stop_pending := True\<rparr>"

definition stop_notify :: "worker \<Rightarrow> worker" where
  "stop_notify w = wake_producers (wake_consumer (w\<lparr>stop_pending := False\<rparr>))"

subsection \<open>ThreadEntry\<close>

text \<open>One turn of the writer thread: from the mutex to the swap, or to the end; then the callback.\<close>

definition consumer_check :: "worker \<Rightarrow> worker" where
  "consumer_check w =
     (if \<not> (stopping w \<or> \<not> IsEmpty (producer w)) then w\<lparr>phase := Asleep\<rparr>
      else if stopping w \<and> IsEmpty (producer w) then w\<lparr>phase := Exited\<rparr>
      else case Swap (producer w) (consumer w) of (p, q) \<Rightarrow>
        wake_producers (w\<lparr>producer := p, consumer := q, phase := Flushing\<rparr>))"

definition consumer_flush :: "worker \<Rightarrow> worker" where
  "consumer_flush w = w\<lparr>
     flushed := (if \<not> IsEmpty (consumer w)
       then flushed w @ [take (unat (ReadableSize (consumer w))) (Begin (consumer w))] else flushed w),
     consumer := Reset (consumer w), phase := Checking\<rparr>"

subsection \<open>The steps\<close>

datatype worker_event = Call nat string | Push_sleeps nat | Push_returns nat bool | Push_throws nat buffer_error
  | Stop_call | Stop_notifies | Consumer_checks | Consumer_flushes | Spurious_wake | Spurious_push nat

inductive worker_step :: "log_config \<Rightarrow> worker \<Rightarrow> worker_event \<Rightarrow> worker \<Rightarrow> bool" for c where
  call: "callers w t = None \<Longrightarrow> length d < 2 ^ 64 \<Longrightarrow> worker_step c w (Call t d) (w\<lparr>callers := (callers w)(t \<mapsto> Pushing d)\<rparr>)"
| sleep: "callers w t = Some (Pushing d) \<Longrightarrow> try_push c w d = Blocks \<Longrightarrow>
    worker_step c w (Push_sleeps t) (w\<lparr>callers := (callers w)(t \<mapsto> Waiting d)\<rparr>)"
| refuse: "callers w t = Some (Pushing d) \<Longrightarrow> try_push c w d = Refused \<Longrightarrow>
    worker_step c w (Push_returns t False) (w\<lparr>callers := (callers w)(t := None)\<rparr>)"
| accept: "callers w t = Some (Pushing d) \<Longrightarrow> try_push c w d = Stored b \<Longrightarrow>
    worker_step c w (Push_returns t True) (store w t d b)"
| throw: "callers w t = Some (Pushing d) \<Longrightarrow> try_push c w d = Throws e \<Longrightarrow>
    worker_step c w (Push_throws t e) (w\<lparr>callers := (callers w)(t := None)\<rparr>)"
| stop: "\<not> stopping w \<Longrightarrow> worker_step c w Stop_call (stop_flag w)"
| notify: "stop_pending w \<Longrightarrow> worker_step c w Stop_notifies (stop_notify w)"
| check: "phase w = Checking \<Longrightarrow> worker_step c w Consumer_checks (consumer_check w)"
| flush: "phase w = Flushing \<Longrightarrow> worker_step c w Consumer_flushes (consumer_flush w)"
| spurious: "phase w = Asleep \<Longrightarrow> worker_step c w Spurious_wake (w\<lparr>phase := Checking\<rparr>)"
| spurious_push: "callers w t = Some (Waiting d) \<Longrightarrow>
    worker_step c w (Spurious_push t) (w\<lparr>callers := (callers w)(t \<mapsto> Pushing d)\<rparr>)"

inductive_cases worker_stepE: "worker_step c w e w'"

inductive_simps consumer_step_simps:
  "worker_step c w Consumer_checks w'" "worker_step c w Consumer_flushes w'" "worker_step c w Stop_notifies w'"

subsection \<open>What the steps keep\<close>

text \<open>The bytes on their way to the callback.\<close>

definition in_flight :: "worker \<Rightarrow> string" where
  "in_flight w = held (consumer w) @ held (producer w)"

definition buffers_inv :: "log_config \<Rightarrow> worker \<Rightarrow> bool" where
  "buffers_inv c w \<longleftrightarrow> 0 < linear_growth c \<and> buffer_ok (producer w) \<and> buffer_ok (consumer w) \<and>
     read_pos (producer w) = 0 \<and> read_pos (consumer w) = 0 \<and>
     (phase w \<noteq> Flushing \<longrightarrow> held (consumer w) = []) \<and>
     concat (accepted w) = concat (flushed w) @ in_flight w"

definition writer_inv :: "worker \<Rightarrow> bool" where
  "writer_inv w \<longleftrightarrow> (stop_pending w \<longrightarrow> stopping w) \<and>
     (phase w = Asleep \<longrightarrow> held (producer w) = [] \<and> (stopping w \<longrightarrow> stop_pending w)) \<and>
     (phase w = Exited \<longrightarrow> held (producer w) = [] \<and> stopping w)"

definition blocked :: "worker \<Rightarrow> string \<Rightarrow> bool" where
  "blocked w d \<longleftrightarrow> async_type w = ASYNC_SAFE \<and> held (producer w) \<noteq> [] \<and> space (producer w) < length d \<and>
     (stopping w \<longrightarrow> stop_pending w)"

definition caller_inv :: "worker \<Rightarrow> caller \<Rightarrow> bool" where
  "caller_inv w a = (case a of Pushing d \<Rightarrow> length d < 2 ^ 64 | Waiting d \<Rightarrow> length d < 2 ^ 64 \<and> blocked w d)"

definition wait_inv :: "worker \<Rightarrow> bool" where
  "wait_inv w \<longleftrightarrow> writer_inv w \<and> (\<forall>t a. callers w t = Some a \<longrightarrow> caller_inv w a)"

definition worker_inv :: "log_config \<Rightarrow> worker \<Rightarrow> bool" where
  "worker_inv c w \<longleftrightarrow> buffers_inv c w \<and> wait_inv w"

lemma wake_fields [simp]:
  "producer (wake_consumer w) = producer w" "consumer (wake_consumer w) = consumer w" "stopping (wake_consumer w) = stopping w"
  "stop_pending (wake_consumer w) = stop_pending w" "callers (wake_consumer w) = callers w" "accepted (wake_consumer w) = accepted w"
  "flushed (wake_consumer w) = flushed w" "async_type (wake_consumer w) = async_type w"
  "phase (wake_consumer w) = (if phase w = Asleep then Checking else phase w)"
  "producer (wake_producers w) = producer w" "consumer (wake_producers w) = consumer w" "stopping (wake_producers w) = stopping w"
  "stop_pending (wake_producers w) = stop_pending w" "accepted (wake_producers w) = accepted w"
  "flushed (wake_producers w) = flushed w" "async_type (wake_producers w) = async_type w" "phase (wake_producers w) = phase w"
  by (simp_all add: wake_consumer_def wake_producers_def)

lemma wake_callers: "callers (wake_producers w) t = Some a \<longleftrightarrow> (\<exists>d. a = Pushing d \<and> (callers w t = Some (Pushing d) \<or> callers w t = Some (Waiting d)))"
proof (cases "callers w t")
  case (Some x)
  then show ?thesis by (cases x) (auto simp: wake_producers_def wake_def)
qed (simp add: wake_producers_def)

lemma in_flight_simps [simp]:
  "in_flight (wake_consumer w) = in_flight w" "in_flight (wake_producers w) = in_flight w"
  "in_flight (w\<lparr>callers := f\<rparr>) = in_flight w" "in_flight (w\<lparr>phase := p\<rparr>) = in_flight w"
  "in_flight (w\<lparr>stop_pending := x\<rparr>) = in_flight w" "in_flight (w\<lparr>stopping := y\<rparr>) = in_flight w"
  "in_flight (w\<lparr>accepted := a\<rparr>) = in_flight w"
  by (simp_all add: in_flight_def)

lemma worker_starts:
  assumes "AsyncWorker (Some c) ty = Inr w" "0 < linear_growth c"
  shows "worker_inv c w"
  using assms
  by (auto simp: AsyncWorker_def Buffer_def worker_inv_def buffers_inv_def wait_inv_def writer_inv_def in_flight_def buffer_ok_def held_def
    ReadableSize_def split: if_splits sum.splits)

text \<open>The outcomes of \<open>Push\<close>, through the interface of the buffer.\<close>

lemma try_push_Stored:
  assumes "try_push c w d = Stored b" "length d < 2 ^ 64" "buffers_inv c w"
  shows "append c d (producer w) = Some b" "buffer_ok b" "held b = held (producer w) @ d" "read_pos b = 0"
    "\<not> stopping w" "async_type w = ASYNC_SAFE \<Longrightarrow> held (producer w) = [] \<or> length d \<le> space (producer w)"
proof -
  have c: "buffer_ok (producer w) \<and> 0 < linear_growth c" using assms(3) by (simp add: buffers_inv_def)
  show a: "append c d (producer w) = Some b" and "\<not> stopping w"
    using assms(1,2) by (auto simp: try_push_def append_def Let_def split: if_splits option.splits sum.splits)
  show "buffer_ok b" "held b = held (producer w) @ d" using lb.put_ok [OF c a] lb.put_held [OF c a] by simp_all
  show "read_pos b = 0" using append_Some(3) [OF _ _ a] c assms(3) by (simp add: buffers_inv_def)
  show "held (producer w) = [] \<or> length d \<le> space (producer w)" if "async_type w = ASYNC_SAFE"
    using assms(1,2) that c \<open>\<not> stopping w\<close>
    by (auto simp: try_push_def Let_def can_push_def IsEmpty_held word_le_nat_alt unat_WriteableSize unat_of_nat_u64
        split: if_splits)
qed

lemma try_push_Blocks:
  assumes "try_push c w d = Blocks" "length d < 2 ^ 64" "buffers_inv c w"
  shows "async_type w = ASYNC_SAFE" "\<not> stopping w" "held (producer w) \<noteq> []" "space (producer w) < length d"
  using assms
  by (auto simp: try_push_def Let_def can_push_def IsEmpty_held buffers_inv_def word_le_nat_alt unat_WriteableSize
      unat_of_nat_u64 split: if_splits option.splits sum.splits)

text \<open>With a positive growth step \<open>Push\<close> never hangs while it holds the mutex.\<close>

lemma try_push_returns: "worker_inv c w \<Longrightarrow> length d < 2 ^ 64 \<Longrightarrow> try_push c w d \<noteq> Hangs"
  using push_total [of "producer w" c d]
  by (auto simp: worker_inv_def buffers_inv_def try_push_def Let_def split: if_splits option.splits sum.splits)

lemma callers_length: "wait_inv w \<Longrightarrow> callers w t = Some (Pushing d) \<Longrightarrow> length d < 2 ^ 64"
  unfolding wait_inv_def caller_inv_def by force

lemma caller_blocked: "wait_inv w \<Longrightarrow> callers w t = Some (Waiting d) \<Longrightarrow> length d < 2 ^ 64 \<and> blocked w d"
  unfolding wait_inv_def caller_inv_def by force

lemma buffers_step:
  assumes "worker_inv c w" "worker_step c w e w'"
  shows "buffers_inv c w'"
proof -
  have b: "buffers_inv c w" and wt: "wait_inv w"
    using assms(1) by (simp_all add: worker_inv_def)
  note len = callers_length [OF wt]
  from assms(2) show ?thesis
  proof cases
    case (accept t d x)
    note st = try_push_Stored [OF accept(4) len [OF accept(3)] b]
    have "phase w \<noteq> Flushing \<longrightarrow> held (consumer w) = []" "concat (accepted w) = concat (flushed w) @ in_flight w"
      using b by (simp_all add: buffers_inv_def)
    then show ?thesis using b st(2-4) accept(2) by (auto simp: buffers_inv_def store_def in_flight_def)
  next
    case check
    show ?thesis
      using b check(2,3) by (auto simp: consumer_check_def Swap_eq buffers_inv_def in_flight_def IsEmpty_held)
  next
    case flush
    have "lb_ok": "buffer_ok (consumer w) \<and> 0 < linear_growth c" using b by (simp add: buffers_inv_def)
    show ?thesis
      using b flush(2) lb.clear_ok [OF lb_ok] lb.clear_held [OF lb_ok]
      by (auto simp: consumer_flush_def buffers_inv_def in_flight_def IsEmpty_held held_def Reset_def)
  qed (use b in \<open>auto simp: buffers_inv_def stop_flag_def stop_notify_def\<close>)
qed

lemma wait_invI:
  assumes "writer_inv w'" "\<And>t d. callers w' t = Some (Pushing d) \<Longrightarrow> length d < 2 ^ 64"
    "\<And>t d. callers w' t = Some (Waiting d) \<Longrightarrow> length d < 2 ^ 64 \<and> blocked w' d"
  shows "wait_inv w'"
  unfolding wait_inv_def caller_inv_def using assms by (auto split: caller.split)

lemma wake_waiting: "callers (wake_producers w) t \<noteq> Some (Waiting d)"
  by (simp add: wake_callers)

lemma wait_step:
  assumes "worker_inv c w" "worker_step c w e w'"
  shows "wait_inv w'"
proof -
  have b: "buffers_inv c w" and wt: "wait_inv w" and wr: "writer_inv w"
    using assms(1) by (simp_all add: worker_inv_def wait_inv_def)
  note len = callers_length [OF wt] and bl = caller_blocked [OF wt]
  have ok: "buffer_ok (producer w)" "buffer_ok (consumer w)" using b by (simp_all add: buffers_inv_def)
  from assms(2) show ?thesis
  proof cases
    case (call t d)
    then show ?thesis using wr len bl
      by (intro wait_invI) (auto simp: writer_inv_def blocked_def split: if_splits)
  next
    case (sleep t d)
    from try_push_Blocks [OF sleep(4) len [OF sleep(3)] b] show ?thesis
      using wr len bl sleep(2,3) by (intro wait_invI) (auto simp: writer_inv_def blocked_def split: if_splits)
  next
    case (refuse t d)
    then show ?thesis using wr len bl
      by (intro wait_invI) (auto simp: writer_inv_def blocked_def split: if_splits)
  next
    case (accept t d x)
    note st = try_push_Stored [OF accept(4) len [OF accept(3)] b]
    have "blocked w' d'" if "callers w t' = Some (Waiting d')" for t' d'
    proof -
      have wd: "async_type w = ASYNC_SAFE" "held (producer w) \<noteq> []" "space (producer w) < length d'"
        using bl [OF that] by (simp_all add: blocked_def)
      then have fit: "length d \<le> space (producer w)" using st(6) by simp
      have "buffer_ok (producer w) \<and> 0 < linear_growth c" using b by (simp add: buffers_inv_def)
      from lb.put_room [OF this fit] st(1) wd(3) have "space x < length d'" by auto
      then show ?thesis using wd st(3,5) accept(2) by (simp add: blocked_def store_def)
    qed
    then show ?thesis using wr len bl st(3,5) accept(2,3)
      by (intro wait_invI) (auto simp: writer_inv_def store_def split: if_splits)
  next
    case (throw t d er)
    then show ?thesis using wr len bl
      by (intro wait_invI) (auto simp: writer_inv_def blocked_def split: if_splits)
  next
    case stop
    then show ?thesis using wr len bl
      by (intro wait_invI) (auto simp: writer_inv_def blocked_def stop_flag_def split: if_splits)
  next
    case notify
    then show ?thesis using wr len bl
      by (intro wait_invI) (auto simp: writer_inv_def stop_notify_def wake_callers split: if_splits)
  next
    case check
    show ?thesis
    proof (cases "\<not> (stopping w \<or> \<not> IsEmpty (producer w)) \<or> stopping w \<and> IsEmpty (producer w)")
      case True
      then show ?thesis using wr len bl check(2,3)
        by (intro wait_invI) (auto simp: consumer_check_def writer_inv_def blocked_def IsEmpty_held ok split: if_splits)
    next
      case False
      then show ?thesis using wr len bl check(2,3)
        by (intro wait_invI) (auto simp: consumer_check_def Swap_eq writer_inv_def wake_callers split: if_splits)
    qed
  next
    case flush
    then show ?thesis using wr len bl
      by (intro wait_invI) (auto simp: writer_inv_def blocked_def consumer_flush_def split: if_splits)
  next
    case spurious
    then show ?thesis using wr len bl
      by (intro wait_invI) (auto simp: writer_inv_def blocked_def split: if_splits)
  next
    case (spurious_push t d)
    then show ?thesis using wr len bl
      by (intro wait_invI) (auto simp: writer_inv_def blocked_def split: if_splits)
  qed
qed

interpretation aw: invariant_steps "worker_step c" "\<lambda>w. 0 < linear_growth c \<and> (\<exists>ty. AsyncWorker (Some c) ty = Inr w)" "worker_inv c" for c
proof unfold_locales
  show "worker_inv c w" if "0 < linear_growth c \<and> (\<exists>ty. AsyncWorker (Some c) ty = Inr w)" for w
    using that worker_starts by blast
  show "worker_inv c w'" if "worker_inv c w" "worker_step c w e w'" for w e w'
    unfolding worker_inv_def using buffers_step [OF that] wait_step [OF that] by blast
qed

text \<open>A worker that can occur.\<close>

definition reached :: "log_config \<Rightarrow> AsyncType \<Rightarrow> worker_event list \<Rightarrow> worker \<Rightarrow> bool" where
  "reached c ty es w \<longleftrightarrow> (\<exists>w0. AsyncWorker (Some c) ty = Inr w0 \<and> exec (worker_step c) w0 es w)"

lemma reached_inv: "0 < linear_growth c \<Longrightarrow> reached c ty es w \<Longrightarrow> worker_inv c w"
  unfolding reached_def using aw.inv_reached by blast

subsection \<open>The writer thread finishes\<close>

text \<open>How many turns the writer still takes once \<open>stopping\<close> is set, if it is not notified of anything else.\<close>

definition turns :: "worker \<Rightarrow> nat" where
  "turns w = (if \<not> stopping w then 0 else case phase w of
     Exited \<Rightarrow> 0
   | Checking \<Rightarrow> if IsEmpty (producer w) then 1 else 3
   | Asleep \<Rightarrow> if IsEmpty (producer w) then 1 else 3
   | Flushing \<Rightarrow> if IsEmpty (producer w) then 2 else 4)"

definition writer_event :: "worker_event \<Rightarrow> bool" where
  "writer_event e \<longleftrightarrow> e = Consumer_checks \<or> e = Consumer_flushes"

lemma turns_le: "turns w \<le> 4"
  by (simp add: turns_def split: consumer_phase.split)

definition stopped_inv :: "log_config \<Rightarrow> worker \<Rightarrow> bool" where
  "stopped_inv c w \<longleftrightarrow> worker_inv c w \<and> stopping w"

lemma stopping_kept:
  assumes "worker_step c w e w'" "stopping w"
  shows "stopping w'"
  using assms by cases (auto simp: store_def stop_flag_def stop_notify_def consumer_check_def Swap_eq consumer_flush_def)

lemma stopped_producer:
  assumes "worker_step c w e w'" "stopping w" "\<not> writer_event e"
  shows "producer w' = producer w" "phase w' = phase w \<or> phase w = Asleep \<and> phase w' = Checking"
  using assms
  by (cases; auto simp: try_push_def Let_def writer_event_def stop_flag_def stop_notify_def can_push_def
      split: if_splits option.splits sum.splits)+

interpretation sw: ranked_steps "worker_step c" "stopped_inv c" "stopped_inv c" writer_event turns for c
proof unfold_locales
  fix w e w'
  assume inv: "stopped_inv c w" and st: "worker_step c w e w'"
  have s: "stopping w" "stopping w'" using inv stopping_kept [OF st] by (simp_all add: stopped_inv_def)
  show "stopped_inv c w'" using aw.inv_step [OF _ st] inv s by (simp add: stopped_inv_def)
  have ok: "buffer_ok (consumer w)" "phase w \<noteq> Flushing \<Longrightarrow> IsEmpty (consumer w)"
    using inv by (auto simp: stopped_inv_def worker_inv_def buffers_inv_def IsEmpty_held)
  show "turns w' < turns w" if "writer_event e"
    using st that s ok
    by cases (auto simp: writer_event_def turns_def consumer_check_def Swap_eq consumer_flush_def)
  show "turns w' \<le> turns w" if "\<not> writer_event e"
    using stopped_producer [OF st s(1) that] s by (auto simp: turns_def)
qed simp

text \<open>While the writer has not ended and is not asleep, it has a step to take.\<close>

lemma writer_enabled:
  assumes "phase w = Checking \<or> phase w = Flushing"
  shows "\<exists>e w'. writer_event e \<and> worker_step c w e w'"
  using assms by (auto simp: writer_event_def intro: worker_step.check worker_step.flush)

lemma writer_awake:
  assumes "worker_inv c w" "phase w \<noteq> Exited" "held (producer w) \<noteq> [] \<or> stopping w" "\<not> stop_pending w"
  shows "phase w = Checking \<or> phase w = Flushing"
  using assms by (cases "phase w") (auto simp: worker_inv_def wait_inv_def writer_inv_def)

subsection \<open>No growth in safe mode\<close>

text \<open>No message is longer than a buffer was at the start: then both buffers keep their size.\<close>

definition short_inv :: "log_config \<Rightarrow> worker \<Rightarrow> bool" where
  "short_inv c w \<longleftrightarrow> async_type w = ASYNC_SAFE \<and>
     length (buf (producer w)) = unat (buffer_size c) \<and> length (buf (consumer w)) = unat (buffer_size c) \<and>
     (\<forall>t a. callers w t = Some a \<longrightarrow> (case a of Pushing d \<Rightarrow> length d \<le> unat (buffer_size c)
        | Waiting d \<Rightarrow> length d \<le> unat (buffer_size c)))"

definition short_event :: "log_config \<Rightarrow> worker_event \<Rightarrow> bool" where
  "short_event c e = (case e of Call t d \<Rightarrow> length d \<le> unat (buffer_size c) | _ \<Rightarrow> True)"

lemma short_push:
  assumes "worker_inv c w" "short_inv c w" "callers w t = Some (Pushing d)" "try_push c w d = Stored b"
  shows "length (buf b) = unat (buffer_size c)"
proof -
  have b: "buffers_inv c w" and wt: "wait_inv w" using assms(1) by (simp_all add: worker_inv_def)
  note st = try_push_Stored [OF assms(4) callers_length [OF wt assms(3)] b]
  have s: "async_type w = ASYNC_SAFE" "length (buf (producer w)) = unat (buffer_size c)" "length d \<le> unat (buffer_size c)"
    using assms(2,3) unfolding short_inv_def by (auto split: caller.splits)
  have ok: "buffer_ok (producer w)" "0 < linear_growth c" "read_pos (producer w) = 0"
    using b by (simp_all add: buffers_inv_def)
  have "length d \<le> space (producer w)"
  proof (cases "held (producer w) = []")
    case True
    then have "unat (write_pos (producer w)) = 0"
      using held_length [OF ok(1)] ok(3) by (simp add: unat_ReadableSize [OF ok(1)])
    then show ?thesis using s(2,3) by (simp add: space_def)
  next
    case False
    then show ?thesis using st(6) s(1) by simp
  qed
  then show ?thesis using append_Some(4) [OF ok(1,2) st(1)] s(2) by simp
qed

lemma short_step:
  assumes "worker_inv c w" "short_inv c w" "worker_step c w e w'" "short_event c e"
  shows "short_inv c w'"
proof -
  have call: "length d \<le> unat (buffer_size c)" if "callers w t = Some (Pushing d) \<or> callers w t = Some (Waiting d)" for t d
    using that assms(2) unfolding short_inv_def by (auto split: caller.splits)
  have sh: "async_type w = ASYNC_SAFE" "length (buf (producer w)) = unat (buffer_size c)"
      "length (buf (consumer w)) = unat (buffer_size c)"
    using assms(2) by (simp_all add: short_inv_def)
  have sI: "short_inv c v" if "async_type v = ASYNC_SAFE" "length (buf (producer v)) = unat (buffer_size c)"
      "length (buf (consumer v)) = unat (buffer_size c)"
      "\<And>t d. callers v t = Some (Pushing d) \<or> callers v t = Some (Waiting d) \<Longrightarrow> length d \<le> unat (buffer_size c)" for v
    using that unfolding short_inv_def by (auto split: caller.split)
  from assms(3) show ?thesis
  proof cases
    case (accept t d b)
    show ?thesis
      by (rule sI) (use sh call short_push [OF assms(1,2) accept(3,4)] accept(2) in \<open>auto simp: store_def split: if_splits\<close>)
  next
    case check
    show ?thesis
      by (rule sI) (use sh call check(2) in \<open>auto simp: consumer_check_def Swap_eq wake_callers split: if_splits\<close>)
  next
    case notify
    then show ?thesis by (intro sI) (use sh call in \<open>auto simp: stop_notify_def wake_callers\<close>)
  qed (use assms(4) in \<open>intro sI; use sh call in \<open>auto simp: short_event_def stop_flag_def consumer_flush_def Reset_def split: if_splits\<close>\<close>)+
qed

subsection \<open>Running events\<close>

text \<open>The steps as a function of the event: each event has at most one outcome.\<close>

definition apply_event :: "log_config \<Rightarrow> worker \<Rightarrow> worker_event \<Rightarrow> worker option" where
  "apply_event c w e = (case e of
     Call t d \<Rightarrow> if callers w t = None \<and> length d < 2 ^ 64 then Some (w\<lparr>callers := (callers w)(t \<mapsto> Pushing d)\<rparr>) else None
   | Push_sleeps t \<Rightarrow> (case callers w t of
       Some (Pushing d) \<Rightarrow> if try_push c w d = Blocks then Some (w\<lparr>callers := (callers w)(t \<mapsto> Waiting d)\<rparr>) else None
     | _ \<Rightarrow> None)
   | Push_returns t r \<Rightarrow> (case callers w t of
       Some (Pushing d) \<Rightarrow> (case try_push c w d of
           Refused \<Rightarrow> if \<not> r then Some (w\<lparr>callers := (callers w)(t := None)\<rparr>) else None
         | Stored b \<Rightarrow> if r then Some (store w t d b) else None
         | _ \<Rightarrow> None)
     | _ \<Rightarrow> None)
   | Push_throws t e \<Rightarrow> (case callers w t of
       Some (Pushing d) \<Rightarrow> if try_push c w d = Throws e then Some (w\<lparr>callers := (callers w)(t := None)\<rparr>) else None
     | _ \<Rightarrow> None)
   | Stop_call \<Rightarrow> if stopping w then None else Some (stop_flag w)
   | Stop_notifies \<Rightarrow> if stop_pending w then Some (stop_notify w) else None
   | Consumer_checks \<Rightarrow> if phase w = Checking then Some (consumer_check w) else None
   | Consumer_flushes \<Rightarrow> if phase w = Flushing then Some (consumer_flush w) else None
   | Spurious_wake \<Rightarrow> if phase w = Asleep then Some (w\<lparr>phase := Checking\<rparr>) else None
   | Spurious_push t \<Rightarrow> (case callers w t of
       Some (Waiting d) \<Rightarrow> Some (w\<lparr>callers := (callers w)(t \<mapsto> Pushing d)\<rparr>)
     | _ \<Rightarrow> None))"

lemma apply_event_step: "apply_event c w e = Some w' \<Longrightarrow> worker_step c w e w'"
  by (cases e) (auto simp: apply_event_def intro: worker_step.intros split: if_splits option.splits caller.splits push_outcome.splits)

lemma step_apply_event: "worker_step c w e w' \<Longrightarrow> apply_event c w e = Some w'"
  by (induction rule: worker_step.induct) (simp_all add: apply_event_def)

fun run_events :: "log_config \<Rightarrow> worker \<Rightarrow> worker_event list \<Rightarrow> worker option" where
  "run_events c w [] = Some w"
| "run_events c w (e # es) = (case apply_event c w e of None \<Rightarrow> None | Some v \<Rightarrow> run_events c v es)"

lemma run_events_exec: "run_events c w es = Some v \<longleftrightarrow> exec (worker_step c) w es v"
proof (induction es arbitrary: w)
  case (Cons e es)
  have "worker_step c w e t \<longleftrightarrow> apply_event c w e = Some t" for t
    using apply_event_step step_apply_event by blast
  then show ?case by (cases "apply_event c w e") (simp_all add: Cons.IH)
qed auto

subsection \<open>Properties\<close>

text \<open>C15. No log data is lost, duplicated or reordered, whatever the interleaving of any number of logging threads, the
  writer and \<open>Stop\<close>: at every moment the bytes whose \<open>Push\<close> returned true are exactly the bytes already given to the
  callback followed by those in the two buffers, and once the writer has ended they have all been given to
  the callback.\<close>

theorem worker_loses_nothing:
  assumes "0 < linear_growth c" and "reached c ty es w"
  shows "concat (accepted w) = concat (flushed w) @ in_flight w \<and>
    (phase w = Exited \<longrightarrow> concat (flushed w) = concat (accepted w))"
  using reached_inv [OF assms]
  by (auto simp: worker_inv_def buffers_inv_def wait_inv_def writer_inv_def in_flight_def)

text \<open>C9. No wakeup is lost and no thread sleeps for ever. When \<open>Stop\<close> is not just between setting its flag and
  notifying: if the writer sleeps or has ended, nothing is buffered and no logging thread sleeps, and it does not sleep once
  stopping is set; otherwise it has a step to take. A \<open>Push\<close> never hangs while it holds the mutex.\<close>

theorem worker_never_stuck:
  assumes "0 < linear_growth c" and "reached c ty es w" and "\<not> stop_pending w"
  shows "(if phase w = Asleep \<or> phase w = Exited
      then in_flight w = [] \<and> (\<forall>t d. callers w t \<noteq> Some (Waiting d)) \<and> (phase w = Exited \<longleftrightarrow> stopping w)
      else \<exists>e w'. writer_event e \<and> worker_step c w e w') \<and>
    (\<forall>t d. callers w t = Some (Pushing d) \<longrightarrow> try_push c w d \<noteq> Hangs)"
proof -
  note inv = reached_inv [OF assms(1,2)]
  then have wt: "wait_inv w" and b: "buffers_inv c w" by (simp_all add: worker_inv_def)
  have "in_flight w = [] \<and> (phase w = Exited \<longleftrightarrow> stopping w)" if "phase w = Asleep \<or> phase w = Exited"
    using wt b that assms(3) by (auto simp: wait_inv_def writer_inv_def buffers_inv_def in_flight_def)
  moreover have "callers w t \<noteq> Some (Waiting d)" if "phase w = Asleep \<or> phase w = Exited" for t d
    using caller_blocked [OF wt, of t d] wt that by (auto simp: blocked_def wait_inv_def writer_inv_def)
  moreover have "\<exists>e w'. writer_event e \<and> worker_step c w e w'" if "\<not> (phase w = Asleep \<or> phase w = Exited)"
    using that writer_enabled by (cases "phase w") auto
  moreover have "try_push c w d \<noteq> Hangs" if "callers w t = Some (Pushing d)" for t d
    using try_push_returns [OF inv callers_length [OF wt that]] .
  ultimately show ?thesis by simp
qed

text \<open>C16. \<open>Stop\<close> drains the buffers and ends. Once stopping is set, nothing more is accepted; the writer takes at
  most four more steps, always has the next one to take after the notification, and when it has ended everything
  accepted has been flushed. So the join in \<open>Stop\<close> returns and loses nothing.\<close>

theorem stop_drains:
  assumes "0 < linear_growth c" and "reached c ty es w" and "stopping w" and "exec (worker_step c) w fs v"
  shows "length (filter writer_event fs) \<le> 4 \<and> accepted v = accepted w \<and>
    (phase v = Exited \<or> stop_pending v \<or> (\<exists>e v'. writer_event e \<and> worker_step c v e v')) \<and>
    (phase v = Exited \<longrightarrow> concat (flushed v) = concat (accepted w))"
proof -
  have inv: "stopped_inv c w" using reached_inv [OF assms(1,2)] assms(3) by (simp add: stopped_inv_def)
  have v: "stopped_inv c v" by (rule sw.inv_exec [OF assms(4) inv])
  have "length (filter writer_event fs) \<le> 4"
    using sw.own_bound [OF assms(4) inv] turns_le [of w] by simp
  moreover have "accepted t = accepted s" if "stopped_inv c s" "worker_step c s e t" for s e t
    using that(2,1)
    by cases (auto simp: stopped_inv_def try_push_def Let_def stop_flag_def stop_notify_def consumer_check_def consumer_flush_def
        Swap_eq split: if_splits option.splits sum.splits)
  then have acc: "accepted v = accepted w"
    using sw.exec_relation [OF assms(4) inv, of "\<lambda>s t. accepted t = accepted s"] by metis
  moreover have "phase v = Exited \<or> stop_pending v \<or> (\<exists>e v'. writer_event e \<and> worker_step c v e v')"
    using v writer_awake [of c v] writer_enabled [of v c] by (auto simp: stopped_inv_def)
  moreover have "phase v = Exited \<longrightarrow> concat (flushed v) = concat (accepted w)"
    using v acc by (auto simp: stopped_inv_def worker_inv_def buffers_inv_def wait_inv_def writer_inv_def in_flight_def)
  ultimately show ?thesis by simp
qed

text \<open>C29. In safe mode the memory is bounded: as long as no single message is longer than the configured size, both buffers
  keep exactly that size, however many threads log and however slow the callback is.\<close>

theorem safe_mode_bounded:
  assumes "0 < linear_growth c" and "AsyncWorker (Some c) ASYNC_SAFE = Inr w0"
    and "exec (worker_step c) w0 es w" and "list_all (short_event c) es"
  shows "length (buf (producer w)) = unat (buffer_size c) \<and> length (buf (consumer w)) = unat (buffer_size c)"
proof -
  have w0: "worker_inv c w0" by (rule worker_starts [OF assms(2,1)])
  have s0: "short_inv c w0"
    using assms(2) by (auto simp: AsyncWorker_def Buffer_def short_inv_def split: if_splits)
  have "short_inv c w"
    using assms(3,4) w0 s0
  proof (induction rule: exec.induct)
    case (exec_cons s e t es u)
    from short_step [OF exec_cons.prems(2,3) exec_cons.hyps(1)] exec_cons.IH aw.inv_step [OF exec_cons.prems(2) exec_cons.hyps(1)]
      exec_cons.prems(1)
    show ?case by simp
  qed
  then show ?thesis by (simp add: short_inv_def)
qed

subsection \<open>Examples\<close>

definition small_worker :: worker where
  "small_worker = (case AsyncWorker (Some small_config) ASYNC_SAFE of Inr w \<Rightarrow> w)"

text \<open>Two threads log; the second has to wait for room.\<close>

definition two_threads :: "worker_event list" where
  "two_threads = [Call 1 ''abc'', Call 2 ''de'', Push_returns 1 True, Push_sleeps 2]"

definition then_stop :: "worker_event list" where
  "then_stop = [Consumer_checks, Push_returns 2 True, Consumer_flushes, Stop_call, Stop_notifies, Consumer_checks,
     Consumer_flushes, Consumer_checks]"

lemmas run_defs = apply_event_def small_worker_def AsyncWorker_def Buffer_def small_config_def shipped_log_def vector_max_def
  try_push_def can_push_def IsEmpty_def WriteableSize_def capacity_def Push_def EnsureWritable_def overwrite_def store_def
  wake_consumer_def consumer_check_def Swap_eq wake_producers_def wake_def consumer_flush_def ReadableSize_def Begin_def
  Reset_def stop_flag_def stop_notify_def

lemma small_worker_runs:
  "\<exists>w. run_events small_config small_worker two_threads = Some w \<and> callers w 2 = Some (Waiting ''de'') \<and> \<not> stop_pending w \<and>
     phase w = Checking"
  "\<exists>w. run_events small_config small_worker (two_threads @ then_stop) = Some w \<and> phase w = Exited \<and> flushed w = [''abc'', ''de'']"
  "\<exists>w v. run_events small_config small_worker (two_threads @ [Stop_call]) = Some w \<and> stopping w \<and> accepted w = [''abc''] \<and>
     run_events small_config w [Consumer_checks, Consumer_flushes, Consumer_checks] = Some v \<and> phase v = Exited"
  "AsyncWorker (Some small_config) ASYNC_SAFE = Inr small_worker"
  by (simp_all add: two_threads_def then_stop_def run_defs word_le_nat_alt)

lemma small_worker_reached: "run_events small_config small_worker es = Some w \<Longrightarrow> reached small_config ASYNC_SAFE es w"
  using small_worker_runs(4) by (auto simp: reached_def run_events_exec)

lemma worker_loses_nothing_witness:
  "\<exists>w. reached small_config ASYNC_SAFE (two_threads @ then_stop) w \<and> concat (accepted w) = ''abcde''"
proof -
  obtain w where "run_events small_config small_worker (two_threads @ then_stop) = Some w" "phase w = Exited" "flushed w = [''abc'', ''de'']"
    using small_worker_runs(2) by blast
  with worker_loses_nothing [OF small_facts(4) small_worker_reached, of _ w] small_worker_reached show ?thesis by fastforce
qed

lemma worker_never_stuck_witness:
  "\<exists>w. reached small_config ASYNC_SAFE two_threads w \<and> callers w 2 = Some (Waiting ''de'') \<and>
     (\<exists>e w'. writer_event e \<and> worker_step small_config w e w')"
proof -
  obtain w where w: "run_events small_config small_worker two_threads = Some w" "callers w 2 = Some (Waiting ''de'')"
      "\<not> stop_pending w" "phase w = Checking"
    using small_worker_runs(1) by blast
  have "\<exists>e w'. writer_event e \<and> worker_step small_config w e w'"
    using worker_never_stuck [OF small_facts(4) small_worker_reached [OF w(1)] w(3)] w(4) by simp
  with w small_worker_reached show ?thesis by blast
qed

lemma stop_drains_witness:
  "\<exists>w v. stopping w \<and> exec (worker_step small_config) w [Consumer_checks, Consumer_flushes, Consumer_checks] v \<and>
     concat (flushed v) = ''abc''"
proof -
  obtain w v where w: "run_events small_config small_worker (two_threads @ [Stop_call]) = Some w" "stopping w" "accepted w = [''abc'']"
      "run_events small_config w [Consumer_checks, Consumer_flushes, Consumer_checks] = Some v" "phase v = Exited"
    using small_worker_runs(3) by blast
  have e: "exec (worker_step small_config) w [Consumer_checks, Consumer_flushes, Consumer_checks] v"
    using w(4) unfolding run_events_exec .
  have "concat (flushed v) = ''abc''"
    using stop_drains [OF small_facts(4) small_worker_reached [OF w(1)] w(2) e] w(3,5) by simp
  with e w(2) show ?thesis by blast
qed

lemma safe_mode_bounded_witness:
  "\<exists>w. exec (worker_step small_config) small_worker two_threads w \<and> length (buf (producer w)) = 4"
proof -
  obtain w where w: "exec (worker_step small_config) small_worker two_threads w"
    using small_worker_runs(1) unfolding run_events_exec by blast
  have "list_all (short_event small_config) two_threads"
    by (simp add: two_threads_def short_event_def small_config_def)
  from safe_mode_bounded [OF small_facts(4) small_worker_runs(4) w this] w show ?thesis
    by (auto simp: small_config_def)
qed

end
