(* ===== verification/Thread_Pool.thy ===== *)
theory Thread_Pool
  imports Steps "HOL-Library.Multiset"
begin

text \<open>
  \<^verbatim>\<open>src/log_system/logs_code/ThreadPool.hpp\<close>: the pool that sends backups in the background. Threads that stand at the
  same place of the code are interchangeable, so the state counts them: callers inside \<open>Enqueue\<close> about to look at the
  queue or asleep, workers about to look, asleep, running a task, or ended. The notifications are sent after the mutex
  has been released, so they are steps of their own and those that are due are counted too. Histories record
  the tasks in the order they were queued and in the order they were started.
\<close>

datatype pool_error = No_worker | No_queue

record 't pool =
  tasks :: "'t list"
  max_pending :: nat
  pool_stopping :: bool
  stop_due :: bool
  task_notes :: nat
  space_notes :: nat
  entering :: "'t multiset"
  blocked_callers :: "'t multiset"
  looking :: nat
  sleeping :: nat
  running :: "'t multiset"
  gone :: nat
  submitted :: "'t list"
  started :: "'t list"
  finished :: "'t list"

definition ThreadPool :: "nat \<Rightarrow> nat \<Rightarrow> pool_error + 't pool" where
  "ThreadPool thread_count max_tasks =
     (if thread_count = 0 then Inl No_worker
      else if max_tasks = 0 then Inl No_queue
      else Inr \<lparr>tasks = [], max_pending = max_tasks, pool_stopping = False, stop_due = False, task_notes = 0, space_notes = 0,
        entering = {#}, blocked_callers = {#}, looking = thread_count, sleeping = 0, running = {#}, gone = 0,
        submitted = [], started = [], finished = []\<rparr>)"

subsection \<open>Enqueue and TryEnqueue\<close>

definition has_space :: "'t pool \<Rightarrow> bool" where
  "has_space p \<longleftrightarrow> pool_stopping p \<or> length (tasks p) < max_pending p"

definition emplace :: "'t \<Rightarrow> 't pool \<Rightarrow> 't pool" where
  "emplace t p = p\<lparr>tasks := tasks p @ [t], submitted := submitted p @ [t], task_notes := task_notes p + 1\<rparr>"

datatype enqueue_outcome = Must_wait | Stopped_error | Queued

definition Enqueue :: "'t pool \<Rightarrow> 't \<Rightarrow> enqueue_outcome \<times> 't pool" where
  "Enqueue p t =
     (if \<not> has_space p then (Must_wait, p\<lparr>entering := entering p - {#t#}, blocked_callers := add_mset t (blocked_callers p)\<rparr>)
      else if pool_stopping p then (Stopped_error, p\<lparr>entering := entering p - {#t#}\<rparr>)
      else (Queued, emplace t (p\<lparr>entering := entering p - {#t#}\<rparr>)))"

definition TryEnqueue :: "'t pool \<Rightarrow> 't \<Rightarrow> bool \<times> 't pool" where
  "TryEnqueue p t =
     (if pool_stopping p \<or> max_pending p \<le> length (tasks p) then (False, p) else (True, emplace t p))"

subsection \<open>The destructor\<close>

definition set_stopping :: "'t pool \<Rightarrow> 't pool" where
  "set_stopping p = p\<lparr>pool_stopping := True, stop_due := True\<rparr>"

definition notify_everyone :: "'t pool \<Rightarrow> 't pool" where
  "notify_everyone p = p\<lparr>stop_due := False, looking := looking p + sleeping p, sleeping := 0,
     entering := entering p + blocked_callers p, blocked_callers := {#}\<rparr>"

subsection \<open>WorkerLoop\<close>

text \<open>What a worker does when it has the mutex: sleep, end, or take the first task.\<close>

definition worker_turn :: "'t pool \<Rightarrow> 't pool" where
  "worker_turn p = (case tasks p of
     [] \<Rightarrow> if \<not> pool_stopping p then p\<lparr>looking := looking p - 1, sleeping := sleeping p + 1\<rparr>
           else p\<lparr>looking := looking p - 1, gone := gone p + 1\<rparr>
   | t # ts \<Rightarrow> p\<lparr>looking := looking p - 1, tasks := ts, running := add_mset t (running p), started := started p @ [t],
       space_notes := space_notes p + 1\<rparr>)"

definition task_done :: "'t \<Rightarrow> 't pool \<Rightarrow> 't pool" where
  "task_done t p = p\<lparr>running := running p - {#t#}, looking := looking p + 1, finished := finished p @ [t]\<rparr>"

text \<open>\<open>notify_one\<close>, on the workers and on the callers; \<open>which\<close> is the caller it wakes.\<close>

definition notify_worker :: "'t pool \<Rightarrow> 't pool" where
  "notify_worker p = (let p = p\<lparr>task_notes := task_notes p - 1\<rparr> in
     if sleeping p = 0 then p else p\<lparr>sleeping := sleeping p - 1, looking := looking p + 1\<rparr>)"

definition notify_caller :: "'t option \<Rightarrow> 't pool \<Rightarrow> 't pool" where
  "notify_caller which p = (let p = p\<lparr>space_notes := space_notes p - 1\<rparr> in
     case which of None \<Rightarrow> p
     | Some t \<Rightarrow> p\<lparr>blocked_callers := blocked_callers p - {#t#}, entering := add_mset t (entering p)\<rparr>)"

subsection \<open>The steps\<close>

datatype 't pool_event = Enter 't | Enqueues 't enqueue_outcome | Tries 't bool | Notify_worker | Notify_caller "'t option"
  | Worker_turn | Task_done 't | Destroy | Destroy_notifies | Worker_wakes | Caller_wakes 't

fun pool_next :: "'t pool \<Rightarrow> 't pool_event \<Rightarrow> 't pool option" where
  "pool_next p (Enter t) = Some (p\<lparr>entering := add_mset t (entering p)\<rparr>)"
| "pool_next p (Enqueues t r) = (if t \<in># entering p \<and> fst (Enqueue p t) = r then Some (snd (Enqueue p t)) else None)"
| "pool_next p (Tries t r) = (if fst (TryEnqueue p t) = r then Some (snd (TryEnqueue p t)) else None)"
| "pool_next p Notify_worker = (if 0 < task_notes p then Some (notify_worker p) else None)"
| "pool_next p (Notify_caller w) =
     (if 0 < space_notes p \<and> (case w of None \<Rightarrow> blocked_callers p = {#} | Some t \<Rightarrow> t \<in># blocked_callers p)
      then Some (notify_caller w p) else None)"
| "pool_next p Worker_turn = (if 0 < looking p then Some (worker_turn p) else None)"
| "pool_next p (Task_done t) = (if t \<in># running p then Some (task_done t p) else None)"
| "pool_next p Destroy = (if pool_stopping p then None else Some (set_stopping p))"
| "pool_next p Destroy_notifies = (if stop_due p then Some (notify_everyone p) else None)"
| "pool_next p Worker_wakes = (if 0 < sleeping p then Some (p\<lparr>sleeping := sleeping p - 1, looking := looking p + 1\<rparr>) else None)"
| "pool_next p (Caller_wakes t) = (if t \<in># blocked_callers p
     then Some (p\<lparr>blocked_callers := blocked_callers p - {#t#}, entering := add_mset t (entering p)\<rparr>) else None)"

fun_cases pool_nextE: "pool_next p e = Some q"

definition pool_step :: "'t pool \<Rightarrow> 't pool_event \<Rightarrow> 't pool \<Rightarrow> bool" where
  "pool_step p e q \<longleftrightarrow> pool_next p e = Some q"

subsection \<open>What the steps keep\<close>

definition queue_inv :: "nat \<Rightarrow> 't pool \<Rightarrow> bool" where
  "queue_inv n p \<longleftrightarrow> 0 < max_pending p \<and> length (tasks p) \<le> max_pending p \<and> submitted p = started p @ tasks p \<and>
     mset (started p) = running p + mset (finished p) \<and> looking p + sleeping p + size (running p) + gone p = n"

text \<open>Every sleeper is accounted for: enough notifications are due, or enough threads are about to look.\<close>

definition notes_inv :: "'t pool \<Rightarrow> bool" where
  "notes_inv p \<longleftrightarrow> (stop_due p \<longrightarrow> pool_stopping p) \<and>
     (pool_stopping p \<and> \<not> stop_due p \<longrightarrow> sleeping p = 0 \<and> blocked_callers p = {#}) \<and>
     (0 < gone p \<longrightarrow> pool_stopping p \<and> tasks p = []) \<and>
     (0 < sleeping p \<longrightarrow> length (tasks p) \<le> task_notes p + looking p) \<and>
     (blocked_callers p \<noteq> {#} \<and> \<not> pool_stopping p \<longrightarrow> max_pending p \<le> length (tasks p) + space_notes p + size (entering p))"

definition pool_inv :: "nat \<Rightarrow> 't pool \<Rightarrow> bool" where
  "pool_inv n p \<longleftrightarrow> queue_inv n p \<and> notes_inv p"

lemma pool_starts: "ThreadPool n m = Inr p \<Longrightarrow> pool_inv n p"
  by (auto simp: ThreadPool_def pool_inv_def queue_inv_def notes_inv_def split: if_splits)

lemma Enqueue_inv:
  assumes "pool_inv n p" "t \<in># entering p"
  shows "pool_inv n (snd (Enqueue p t))"
proof -
  obtain r where r: "entering p = add_mset t r" using assms(2) by (metis insert_DiffM)
  have "queue_inv n (snd (Enqueue p t))"
    using assms(1) by (simp add: pool_inv_def queue_inv_def Enqueue_def has_space_def emplace_def)
  moreover have "notes_inv (snd (Enqueue p t))"
    using assms(1) r by (auto simp: pool_inv_def notes_inv_def Enqueue_def has_space_def emplace_def)
  ultimately show ?thesis by (simp add: pool_inv_def)
qed

lemma TryEnqueue_inv: "pool_inv n p \<Longrightarrow> pool_inv n (snd (TryEnqueue p t))"
  by (auto simp: pool_inv_def queue_inv_def notes_inv_def TryEnqueue_def emplace_def)

lemma worker_turn_inv:
  assumes "pool_inv n p" "0 < looking p"
  shows "pool_inv n (worker_turn p)"
  using assms by (cases "tasks p") (auto simp: pool_inv_def queue_inv_def notes_inv_def worker_turn_def)

lemma task_done_inv:
  assumes "pool_inv n p" "t \<in># running p"
  shows "pool_inv n (task_done t p)"
proof -
  obtain r where "running p = add_mset t r" using assms(2) by (metis insert_DiffM)
  with assms(1) show ?thesis
    by (auto simp: pool_inv_def queue_inv_def notes_inv_def task_done_def)
qed

lemma notify_inv:
  "pool_inv n p \<Longrightarrow> 0 < task_notes p \<Longrightarrow> pool_inv n (notify_worker p)"
  "pool_inv n p \<Longrightarrow> pool_inv n (notify_everyone p)" "pool_inv n p \<Longrightarrow> \<not> pool_stopping p \<Longrightarrow> pool_inv n (set_stopping p)"
  by (auto simp: pool_inv_def queue_inv_def notes_inv_def notify_worker_def notify_everyone_def set_stopping_def Let_def)

lemma notify_caller_inv:
  assumes "pool_inv n p" "0 < space_notes p" "case w of None \<Rightarrow> blocked_callers p = {#} | Some t \<Rightarrow> t \<in># blocked_callers p"
  shows "pool_inv n (notify_caller w p)"
  using assms by (cases w) (auto simp: pool_inv_def queue_inv_def notes_inv_def notify_caller_def Let_def)

lemma wake_inv:
  "pool_inv n p \<Longrightarrow> pool_inv n (p\<lparr>entering := add_mset t (entering p)\<rparr>)"
  "pool_inv n p \<Longrightarrow> 0 < sleeping p \<Longrightarrow> pool_inv n (p\<lparr>sleeping := sleeping p - 1, looking := looking p + 1\<rparr>)"
  "pool_inv n p \<Longrightarrow> t \<in># blocked_callers p \<Longrightarrow>
     pool_inv n (p\<lparr>blocked_callers := blocked_callers p - {#t#}, entering := add_mset t (entering p)\<rparr>)"
  by (auto simp: pool_inv_def queue_inv_def notes_inv_def)

lemmas event_inv = Enqueue_inv TryEnqueue_inv worker_turn_inv task_done_inv notify_inv notify_caller_inv wake_inv

lemma pool_keeps:
  assumes "pool_inv n p" "pool_next p e = Some q"
  shows "pool_inv n q"
  using assms by (cases e) (auto simp: event_inv simp del: One_nat_def split: if_splits)

interpretation tp: invariant_steps pool_step "\<lambda>p. \<exists>m. ThreadPool n m = Inr p" "pool_inv n" for n
  by unfold_locales (auto simp: pool_starts pool_step_def pool_keeps)

text \<open>The steps that the threads of the pool and the calls in progress take by themselves: no new call, no spurious wakeup.\<close>

definition own_event :: "'t pool_event \<Rightarrow> bool" where
  "own_event e = (case e of Enqueues t r \<Rightarrow> True | Notify_worker \<Rightarrow> True | Notify_caller w \<Rightarrow> True | Worker_turn \<Rightarrow> True
     | Task_done t \<Rightarrow> True | Destroy_notifies \<Rightarrow> True | _ \<Rightarrow> False)"

definition own_step :: "'t pool \<Rightarrow> 't pool_event \<Rightarrow> 't pool \<Rightarrow> bool" where
  "own_step p e q \<longleftrightarrow> own_event e \<and> pool_step p e q"

definition work_left :: "'t pool \<Rightarrow> nat" where
  "work_left p = 7 * size (entering p) + 6 * size (blocked_callers p) + 4 * length (tasks p) + 2 * task_notes p + 2 * space_notes p +
     2 * size (running p) + looking p + (if stop_due p then 1 + sleeping p + size (blocked_callers p) else 0)"

lemma own_lowers:
  assumes "pool_inv n p" "own_step p e q"
  shows "work_left q < work_left p"
proof -
  have st: "pool_next p e = Some q" and "own_event e" using assms(2) by (simp_all add: own_step_def pool_step_def)
  show ?thesis
  proof (cases e)
    case (Enqueues t r)
    with st have "t \<in># entering p" by (auto split: if_splits)
    then obtain x where "entering p = add_mset t x" by (metis insert_DiffM)
    with st Enqueues assms(1) show ?thesis
      by (auto simp: work_left_def Enqueue_def has_space_def emplace_def pool_inv_def notes_inv_def split: if_splits)
  next
    case (Notify_caller w)
    show ?thesis
    proof (cases w)
      case (Some t)
      with st Notify_caller have "t \<in># blocked_callers p" by (auto split: if_splits)
      then obtain x where "blocked_callers p = add_mset t x" by (metis insert_DiffM)
      with st Notify_caller Some show ?thesis by (auto simp: work_left_def notify_caller_def Let_def split: if_splits)
    qed (use st Notify_caller in \<open>auto simp: work_left_def notify_caller_def Let_def split: if_splits\<close>)
  next
    case (Task_done t)
    with st have "t \<in># running p" by (auto split: if_splits)
    then obtain x where "running p = add_mset t x" by (metis insert_DiffM)
    with st Task_done show ?thesis by (auto simp: work_left_def task_done_def)
  next
    case Worker_turn
    with st assms(1) show ?thesis
      by (auto simp: work_left_def worker_turn_def pool_inv_def notes_inv_def split: if_splits list.splits)
  qed (use st \<open>own_event e\<close> in \<open>auto simp: work_left_def own_event_def notify_worker_def notify_everyone_def Let_def split: if_splits\<close>)
qed

interpretation ow: ranked_steps own_step "\<lambda>p. \<exists>m. ThreadPool n m = Inr p" "pool_inv n" own_event work_left for n
  by unfold_locales (auto simp: pool_starts own_step_def tp.inv_step intro: own_lowers [unfolded own_step_def])

text \<open>A state in which no step of its own is left.\<close>

definition at_rest :: "'t pool \<Rightarrow> bool" where
  "at_rest p \<longleftrightarrow> entering p = {#} \<and> blocked_callers p = {#} \<and> tasks p = [] \<and> running p = {#} \<and> task_notes p = 0 \<and>
     space_notes p = 0 \<and> looking p = 0 \<and> \<not> stop_due p"

lemma own_step_left:
  assumes "pool_inv n p" "0 < n" "\<not> at_rest p"
  shows "\<exists>e q. own_step p e q"
proof -
  have go: "\<exists>e q. own_step p e q" if "own_event e" "pool_next p e \<noteq> None" for e
    using that by (auto simp: own_step_def pool_step_def)
  consider "entering p \<noteq> {#}" | "running p \<noteq> {#}" | "0 < task_notes p" | "0 < space_notes p" | "0 < looking p" | "stop_due p"
    | "entering p = {#}" "running p = {#}" "task_notes p = 0" "space_notes p = 0" "looking p = 0" "\<not> stop_due p"
    by blast
  then show ?thesis
  proof cases
    case 1
    then obtain t where "t \<in># entering p" by auto
    then show ?thesis by (intro go [of "Enqueues t (fst (Enqueue p t))"]) (simp_all add: own_event_def)
  next
    case 2
    then obtain t where "t \<in># running p" by auto
    then show ?thesis by (intro go [of "Task_done t"]) (simp_all add: own_event_def)
  next
    case 4
    then show ?thesis
    proof (cases "blocked_callers p = {#}")
      case False
      then obtain t where "t \<in># blocked_callers p" by auto
      with 4 show ?thesis by (intro go [of "Notify_caller (Some t)"]) (simp_all add: own_event_def)
    qed (use 4 in \<open>intro go [of "Notify_caller None"]; simp add: own_event_def\<close>)
  next
    case 7
    then have "tasks p = []" "blocked_callers p = {#}"
      using assms(1,2) by (auto simp: pool_inv_def queue_inv_def notes_inv_def)
    with 7 assms(3) show ?thesis by (simp add: at_rest_def)
  qed (intro go [of Notify_worker] go [of Worker_turn] go [of Destroy_notifies]; simp add: own_event_def)+
qed

lemma at_rest_done:
  assumes "pool_inv n p" "at_rest p"
  shows "mset (finished p) = mset (submitted p)" "pool_stopping p \<Longrightarrow> gone p = n"
  using assms by (auto simp: at_rest_def pool_inv_def queue_inv_def notes_inv_def)

lemma stopped_step:
  assumes "pool_step p e q"
  shows "max_pending q = max_pending p" "pool_stopping p \<Longrightarrow> pool_stopping q \<and> submitted q = submitted p"
  using assms
  by (cases e; auto simp: pool_step_def Enqueue_def TryEnqueue_def has_space_def emplace_def worker_turn_def task_done_def
      notify_worker_def notify_caller_def notify_everyone_def set_stopping_def Let_def split: if_splits list.splits option.splits)+

subsection \<open>Properties\<close>

definition pool_reached :: "nat \<Rightarrow> nat \<Rightarrow> 't pool_event list \<Rightarrow> 't pool \<Rightarrow> bool" where
  "pool_reached n m es p \<longleftrightarrow> (\<exists>p0. ThreadPool n m = Inr p0 \<and> exec pool_step p0 es p)"

lemma pool_reached_inv: "pool_reached n m es p \<Longrightarrow> pool_inv n p"
  unfolding pool_reached_def by (blast intro: tp.inv_reached)

lemma stopped_exec:
  assumes "exec pool_step p es q" "pool_inv n p"
  shows "max_pending q = max_pending p" "pool_stopping p \<longrightarrow> pool_stopping q \<and> submitted q = submitted p"
proof -
  show "max_pending q = max_pending p"
    by (rule tp.exec_relation [OF assms, of "\<lambda>p q. max_pending q = max_pending p"]) (auto simp: stopped_step(1))
  show "pool_stopping p \<longrightarrow> pool_stopping q \<and> submitted q = submitted p"
    by (rule tp.exec_relation [OF assms, of "\<lambda>p q. pool_stopping p \<longrightarrow> pool_stopping q \<and> submitted q = submitted p"])
      (use stopped_step(2) in \<open>blast, auto\<close>)
qed

text \<open>C19. The pool is a bounded queue served in order by the workers: whatever the interleaving of callers, workers and the
  destructor, at most \<open>max_tasks\<close> tasks are pending, at most as many run as there are workers, tasks start in
  the order they were queued, and a task that has started is running or has finished, once: none is lost or run twice.\<close>

theorem pool_fifo_bounded:
  assumes "pool_reached n m es p"
  shows "length (tasks p) \<le> m \<and> size (running p) \<le> n \<and> submitted p = started p @ tasks p \<and>
    mset (started p) = running p + mset (finished p)"
proof -
  obtain p0 where p0: "ThreadPool n m = Inr p0" "exec pool_step p0 es p" using assms by (auto simp: pool_reached_def)
  have "max_pending p = m"
    using stopped_exec(1) [OF p0(2) pool_starts [OF p0(1)]] p0(1) by (auto simp: ThreadPool_def split: if_splits)
  with pool_reached_inv [OF assms] show ?thesis by (auto simp: pool_inv_def queue_inv_def)
qed

text \<open>C10. The pool always gets its work done. From any reachable state, the threads of the pool and the calls in progress
  take at most \<open>work_left\<close> steps; as long as a caller is inside \<open>Enqueue\<close>, a task is pending or running, or a
  notification is due, one of them can go on (no wakeup is lost); and when none can, every task queued has finished, and if
  the pool is being destroyed all workers have ended, so that the joins return.\<close>

theorem pool_finishes_work:
  assumes "pool_reached n m es p" and "exec own_step p fs q"
  shows "length fs \<le> work_left p \<and>
    ((\<exists>e r. own_step q e r) \<or>
     entering q = {#} \<and> blocked_callers q = {#} \<and> mset (finished q) = mset (submitted q) \<and> (pool_stopping q \<longrightarrow> gone q = n))"
proof -
  have p: "pool_inv n p" and n: "0 < n"
    using pool_reached_inv [OF assms(1)] assms(1) by (auto simp: pool_reached_def ThreadPool_def split: if_splits)
  have q: "pool_inv n q" by (rule ow.inv_exec [OF assms(2) p])
  have "filter own_event fs = fs"
    using assms(2) by (induction rule: exec.induct) (simp_all add: own_step_def)
  then have "length fs \<le> work_left p" using ow.own_bound [OF assms(2) p] by simp
  moreover have "(\<exists>e r. own_step q e r) \<or> at_rest q" using own_step_left [OF q n] by blast
  ultimately show ?thesis using at_rest_done [OF q] by (auto simp: at_rest_def)
qed

text \<open>Destroying the pool loses no task: once \<open>stopping_\<close> is set nothing more is queued, and when all workers
  have ended every task that was ever queued has been run to its end.\<close>

theorem destructor_runs_everything:
  assumes "pool_reached n m es p" and "pool_stopping p" and "exec pool_step p fs q" and "gone q = n"
  shows "submitted q = submitted p \<and> mset (finished q) = mset (submitted p) \<and> tasks q = []"
proof -
  have p: "pool_inv n p" and n: "0 < n"
    using pool_reached_inv [OF assms(1)] assms(1) by (auto simp: pool_reached_def ThreadPool_def split: if_splits)
  have q: "pool_inv n q" by (rule tp.inv_exec [OF assms(3) p])
  then have t: "tasks q = []" "running q = {#}"
    using assms(4) n by (auto simp: pool_inv_def queue_inv_def notes_inv_def)
  with q stopped_exec(2) [OF assms(3) p] assms(2) show ?thesis by (simp add: pool_inv_def queue_inv_def)
qed

subsection \<open>An example\<close>

fun run_pool :: "'t pool \<Rightarrow> 't pool_event list \<Rightarrow> 't pool option" where
  "run_pool p [] = Some p"
| "run_pool p (e # es) = (case pool_next p e of None \<Rightarrow> None | Some q \<Rightarrow> run_pool q es)"

lemma run_pool_exec: "run_pool p es = Some q \<longleftrightarrow> exec pool_step p es q"
  by (induction es arbitrary: p) (auto simp: pool_step_def split: option.splits)

lemma run_pool_own: "run_pool p es = Some q \<Longrightarrow> list_all own_event es \<Longrightarrow> exec own_step p es q"
  by (induction es arbitrary: p) (auto simp: own_step_def pool_step_def split: option.splits)

text \<open>One worker and one place; the second caller has to wait.\<close>

definition one_worker :: "nat pool" where
  "one_worker = (case ThreadPool 1 1 of Inr p \<Rightarrow> p)"

definition queue_full :: "nat pool_event list" where
  "queue_full = [Worker_turn, Enter 10, Enqueues 10 Queued, Enter 20, Enqueues 20 Must_wait]"

definition serve :: "nat pool_event list" where
  "serve = [Notify_worker, Worker_turn, Notify_caller (Some 20), Task_done 10, Enqueues 20 Queued, Notify_worker, Worker_turn,
     Notify_caller None, Task_done 20, Worker_turn]"

lemmas pool_defs = Enqueue_def TryEnqueue_def has_space_def emplace_def worker_turn_def task_done_def notify_worker_def
  notify_caller_def notify_everyone_def set_stopping_def Let_def ThreadPool_def one_worker_def

lemma one_worker_runs:
  "\<exists>p q. run_pool one_worker queue_full = Some p \<and> run_pool p serve = Some q \<and> finished q = [10, 20] \<and> tasks p = [10]"
  "\<exists>p q. run_pool one_worker (queue_full @ [Destroy]) = Some p \<and> pool_stopping p \<and> submitted p = [10] \<and>
     run_pool p [Destroy_notifies, Worker_turn, Task_done 10, Worker_turn] = Some q \<and> gone q = 1"
  by (simp_all add: queue_full_def serve_def pool_defs)

lemma one_worker_reached: "run_pool one_worker es = Some p \<Longrightarrow> pool_reached 1 1 es p"
  by (auto simp: pool_reached_def run_pool_exec one_worker_def ThreadPool_def)

lemma pool_fifo_bounded_witness:
  "\<exists>p. run_pool one_worker queue_full = Some p \<and> length (tasks p) = 1 \<and> size (running p) \<le> 1"
proof -
  obtain p where p: "run_pool one_worker queue_full = Some p" "tasks p = [10]" using one_worker_runs(1) by blast
  from pool_fifo_bounded [OF one_worker_reached [OF p(1)]] p show ?thesis by auto
qed

lemma pool_finishes_work_witness:
  "\<exists>p q. run_pool one_worker queue_full = Some p \<and> exec own_step p serve q \<and> length serve \<le> work_left p"
proof -
  obtain p q where p: "run_pool one_worker queue_full = Some p" "run_pool p serve = Some q" using one_worker_runs(1) by blast
  have e: "exec own_step p serve q" by (rule run_pool_own [OF p(2)]) (simp add: serve_def own_event_def)
  from pool_finishes_work [OF one_worker_reached [OF p(1)] e] p(1) e show ?thesis by blast
qed

lemma destructor_runs_everything_witness:
  "\<exists>p q. run_pool one_worker (queue_full @ [Destroy]) = Some p \<and> pool_stopping p \<and>
     exec pool_step p [Destroy_notifies, Worker_turn, Task_done 10, Worker_turn] q \<and> finished q = [10]"
proof -
  obtain p q where p: "run_pool one_worker (queue_full @ [Destroy]) = Some p" "pool_stopping p" "submitted p = [10]"
      "run_pool p [Destroy_notifies, Worker_turn, Task_done 10, Worker_turn] = Some q" "gone q = 1"
    using one_worker_runs(2) by blast
  have e: "exec pool_step p [Destroy_notifies, Worker_turn, Task_done 10, Worker_turn] q" using p(4) by (simp only: run_pool_exec)
  have "mset (finished q) = {#10#}"
    using destructor_runs_everything [OF one_worker_reached [OF p(1)] p(2) e p(5)] p(3) by simp
  then have "finished q = [10]" by (cases "finished q") (auto simp: add_mset_eq_single)
  with p(1,2) e show ?thesis by blast
qed

end
