(* ===== verification/Log_Message.thy ===== *)
theory Log_Message
  imports Cpp_String
begin

text \<open>
  \<^verbatim>\<open>src/log_system/logs_code/Level.hpp\<close> and \<^verbatim>\<open>Message.hpp\<close>: the levels and the line a message is written as. The conversion
  of a time to local time depends on the time zone of the machine and is a parameter; the two \<^verbatim>\<open>strftime\<close>
  formats of the program are written out on its result. A thread id prints as the number of the thread.
\<close>

datatype log_level = DEBUG | INFO | WARN | ERROR | FATAL

definition ToString :: "log_level \<Rightarrow> string" where
  "ToString level = (case level of DEBUG \<Rightarrow> ''DEBUG'' | INFO \<Rightarrow> ''INFO'' | WARN \<Rightarrow> ''WARN'' | ERROR \<Rightarrow> ''ERROR'' | FATAL \<Rightarrow> ''FATAL'')"

text \<open>The levels form a finite type, so that a statement about all of them is decided by evaluation.\<close>

instantiation log_level :: enum
begin

definition enum_log_level :: "log_level list" where
  "enum_log_level = [DEBUG, INFO, WARN, ERROR, FATAL]"

definition enum_all_log_level :: "(log_level \<Rightarrow> bool) \<Rightarrow> bool" where
  "enum_all_log_level P \<longleftrightarrow> list_all P enum_class.enum"

definition enum_ex_log_level :: "(log_level \<Rightarrow> bool) \<Rightarrow> bool" where
  "enum_ex_log_level P \<longleftrightarrow> list_ex P enum_class.enum"

instance
proof
  show U: "UNIV = set (enum_class.enum :: log_level list)"
    by (auto simp: enum_log_level_def intro: log_level.exhaust)
  show "distinct (enum_class.enum :: log_level list)" by (simp add: enum_log_level_def)
  show "enum_class.enum_all P = Ball UNIV P" "enum_class.enum_ex P = Bex UNIV P" for P :: "log_level \<Rightarrow> bool"
    by (simp_all add: enum_all_log_level_def enum_ex_log_level_def list_all_iff list_ex_iff U)
qed

end

lemma level_names: "\<forall>a b. (ToString a = ToString b) = (a = b)" "\<forall>a. CHR '']'' \<notin> set (ToString a)"
  by code_simp+

subsection \<open>Times\<close>

record tm =
  tm_year :: int
  tm_mon :: nat
  tm_mday :: nat
  tm_hour :: nat
  tm_min :: nat
  tm_sec :: nat

definition setw :: "nat \<Rightarrow> nat \<Rightarrow> string" where
  "setw w n = replicate (w - length (to_dec n)) (CHR ''0'') @ to_dec n"

definition strftime_line :: "tm \<Rightarrow> string" where
  "strftime_line t = to_dec_int (1900 + tm_year t) @ ''-'' @ setw 2 (tm_mon t + 1) @ ''-'' @ setw 2 (tm_mday t) @ '' '' @
     setw 2 (tm_hour t) @ '':'' @ setw 2 (tm_min t) @ '':'' @ setw 2 (tm_sec t)"

definition strftime_name :: "tm \<Rightarrow> string" where
  "strftime_name t = to_dec_int (1900 + tm_year t) @ setw 2 (tm_mon t + 1) @ setw 2 (tm_mday t) @ ''-'' @
     setw 2 (tm_hour t) @ setw 2 (tm_min t) @ setw 2 (tm_sec t)"

subsection \<open>Messages\<close>

record log_message =
  msg_line :: u64
  created_at :: int
  file_name :: string
  msg_logger :: string
  payload :: string
  thread_id :: nat
  msg_level :: log_level

definition LogMessage :: "int \<Rightarrow> nat \<Rightarrow> log_level \<Rightarrow> string \<Rightarrow> u64 \<Rightarrow> string \<Rightarrow> string \<Rightarrow> log_message" where
  "LogMessage now thread level file line name text = \<lparr>msg_line = line, created_at = now, file_name = file, msg_logger = name,
     payload = text, thread_id = thread, msg_level = level\<rparr>"

definition Format :: "(int \<Rightarrow> tm) \<Rightarrow> log_message \<Rightarrow> string" where
  "Format localtime m = ''['' @ strftime_line (localtime (created_at m)) @ '']['' @ to_dec (thread_id m) @ '']['' @
     ToString (msg_level m) @ '']['' @ msg_logger m @ '']['' @ file_name m @ '':'' @ to_dec (unat (msg_line m)) @ '']'' @
     [CHR 0x09] @ payload m @ [LF]"

subsection \<open>Fields\<close>

text \<open>A text up to the first \<open>c\<close> can be read back.\<close>

lemma upto_char:
  assumes "a @ c # x = b @ c # y" "c \<notin> set a" "c \<notin> set b"
  shows "a = b \<and> x = y"
proof -
  have "a = b" using takeWhile_neq_append [OF assms(2), of x] takeWhile_neq_append [OF assms(3), of y] assms(1) by simp
  with assms(1) show ?thesis by simp
qed

lemma digit_plain: "is_digit c \<Longrightarrow> c \<noteq> CHR '']'' \<and> c \<noteq> CHR '':'' \<and> c \<noteq> CHR ''-'' \<and> c \<noteq> CHR ''/'' \<and> c \<noteq> NUL"
  by (auto simp: is_digit_def less_eq_char_def)

lemma to_dec_plain: "c \<in> set (to_dec n) \<Longrightarrow> is_digit c"
  using to_dec_digits [of n] by (simp add: list_all_iff)

lemma setw_plain: "c \<in> set (setw w n) \<Longrightarrow> is_digit c"
  by (auto simp: setw_def is_digit_def less_eq_char_def dest: to_dec_plain split: if_splits)

lemma to_dec_int_plain: "c \<in> set (to_dec_int i) \<Longrightarrow> is_digit c \<or> c = CHR ''-''"
  by (auto simp: to_dec_int_def dest: to_dec_plain split: if_splits)

lemma time_plain: "CHR '']'' \<notin> set (strftime_line t)"
  using digit_plain by (auto simp: strftime_line_def dest!: setw_plain to_dec_int_plain)

lemma number_plain: "CHR '']'' \<notin> set (to_dec n)" "CHR '':'' \<notin> set (to_dec n)"
  using digit_plain by (auto dest!: to_dec_plain)

text \<open>The text after the last colon, when that is a number.\<close>

lemma upto_last_colon:
  assumes "a @ CHR '':'' # to_dec m = b @ CHR '':'' # to_dec n"
  shows "a = b \<and> m = n"
proof -
  have "rev (to_dec m) @ CHR '':'' # rev a = rev (to_dec n) @ CHR '':'' # rev b"
    using arg_cong [OF assms, of rev] by simp
  then have "rev (to_dec m) = rev (to_dec n) \<and> rev a = rev b"
    by (rule upto_char) (simp_all add: number_plain)
  then show ?thesis by (simp add: to_dec_eq_iff word_unat_eq_iff)
qed

subsection \<open>Properties\<close>

text \<open>C28. A line can be attributed: two messages whose logger and file names have no closing bracket and that are written
  as the same line agree in thread, level, logger, file, line number and text, and were created at times
  that print the same. Every message ends its line.\<close>

theorem format_unambiguous:
  assumes "CHR '']'' \<notin> set (msg_logger m) \<union> set (file_name m)" and "CHR '']'' \<notin> set (msg_logger n) \<union> set (file_name n)"
    and "Format lt m = Format lt n"
  shows "thread_id m = thread_id n \<and> msg_level m = msg_level n \<and> msg_logger m = msg_logger n \<and> file_name m = file_name n \<and>
    msg_line m = msg_line n \<and> payload m = payload n \<and>
    strftime_line (lt (created_at m)) = strftime_line (lt (created_at n)) \<and> last (Format lt m) = LF"
proof -
  let ?f = "\<lambda>m. file_name m @ CHR '':'' # to_dec (unat (msg_line m))"
  let ?r5 = "\<lambda>m. CHR 0x09 # payload m @ [LF]"
  let ?r4 = "\<lambda>m. ''['' @ ?f m @ CHR '']'' # ?r5 m"
  let ?r3 = "\<lambda>m. ''['' @ msg_logger m @ CHR '']'' # ?r4 m"
  let ?r2 = "\<lambda>m. ''['' @ ToString (msg_level m) @ CHR '']'' # ?r3 m"
  let ?r1 = "\<lambda>m. ''['' @ to_dec (thread_id m) @ CHR '']'' # ?r2 m"
  let ?t = "\<lambda>m. strftime_line (lt (created_at m))"
  have 1: "?t m = ?t n \<and> ?r1 m = ?r1 n"
    by (rule upto_char [OF _ time_plain time_plain]) (use assms(3) in \<open>simp add: Format_def\<close>)
  have 2: "to_dec (thread_id m) = to_dec (thread_id n) \<and> ?r2 m = ?r2 n"
    by (rule upto_char [OF _ number_plain(1) number_plain(1)]) (use 1 in simp)
  have 3: "ToString (msg_level m) = ToString (msg_level n) \<and> ?r3 m = ?r3 n"
    by (rule upto_char [OF _ level_names(2) [rule_format] level_names(2) [rule_format]]) (use 2 in simp)
  have 4: "msg_logger m = msg_logger n \<and> ?r4 m = ?r4 n"
    by (rule upto_char [where c = "CHR '']''"]) (use assms(1,2) 3 in simp_all)
  have 5: "?f m = ?f n \<and> ?r5 m = ?r5 n"
    by (rule upto_char [where c = "CHR '']''"]) (use assms(1,2) 4 number_plain(1) in simp_all)
  have 6: "file_name m = file_name n \<and> unat (msg_line m) = unat (msg_line n)"
    by (rule upto_last_colon) (use 5 in blast)
  have "last (Format lt m) = LF" by (simp add: Format_def)
  with 1 2 3 4 5 6 level_names(1) show ?thesis by (simp add: to_dec_eq_iff word_unat_eq_iff)
qed

definition sample_tm :: "int \<Rightarrow> tm" where
  "sample_tm now = \<lparr>tm_year = 126, tm_mon = 0, tm_mday = 2, tm_hour = 3, tm_min = 4, tm_sec = nat now\<rparr>"

definition sample_message :: log_message where
  "sample_message = LogMessage 5 77 ERROR ''Service.cpp'' 12 ''cloud'' ''disk full''"

lemma sample_line: "Format sample_tm sample_message = ''[2026-01-02 03:04:05][77][ERROR][cloud][Service.cpp:12]'' @ [CHR 0x09] @ ''disk full'' @ [LF]"
  by code_simp

lemma format_unambiguous_witness: "last (Format sample_tm sample_message) = LF \<and> msg_level sample_message = ERROR"
  using format_unambiguous [of sample_message sample_message sample_tm] by (simp add: sample_message_def LogMessage_def)

end
