(* ===== verification/Stdio.thy ===== *)
theory Stdio
  imports File_Util "HOL-Library.Sublist"
begin

text \<open>
  The C streams the logging library and the backup server write through, on top of the system calls. A \<^verbatim>\<open>FILE\<close>
  opened with mode \<open>"ab"\<close> is a descriptor, the bytes the C library has accepted but not passed on, and the
  error flag, which nothing in the program clears. For \<open>fwrite\<close> and \<open>fflush\<close> an outcome \<open>Short k\<close> is no
  failure: the library passes on \<open>k\<close> bytes of its buffer, which it may do whenever it likes; a failure uses a second
  outcome, for the part that was done before it.
\<close>

record cfile =
  cf_fd :: nat
  unwritten :: string
  cf_error :: bool

definition append_to :: "nat \<Rightarrow> string \<Rightarrow> 'z os_scheme \<Rightarrow> 'z os_scheme" where
  "append_to i data s =
     s\<lparr>inodes := (inodes s)(i := (inodes s i)\<lparr>bytes := bytes (inodes s i) @ data, mtime := clock s\<rparr>)\<rparr>"

definition append_fd :: "nat \<Rightarrow> string \<Rightarrow> ('z, unit) io" where
  "append_fd fd data = modify (\<lambda>s. case fds s fd of
     None \<Rightarrow> s
   | Some d \<Rightarrow> (case fd_ino d of None \<Rightarrow> s | Some i \<Rightarrow> append_to i data s))"

definition fopen_append :: "string \<Rightarrow> ('z, cfile option) io" where
  "fopen_append p = syscall None (do {
     s \<leftarrow> State_Monad.get;
     fd \<leftarrow> (case lookup s p of
       None \<Rightarrow>
         if parent_exists s p then do { modify (create_at (key s p)); new_fd (Some (next_ino s)) }
         else fail ENOENT None
     | Some Dir \<Rightarrow> fail EISDIR None
     | Some (File i) \<Rightarrow> new_fd (Some i));
     give (map_option (\<lambda>fd. \<lparr>cf_fd = fd, unwritten = [], cf_error = False\<rparr>) fd)
   })"

definition take_in :: "string \<Rightarrow> cfile \<Rightarrow> cfile" where
  "take_in data f = f\<lparr>unwritten := unwritten f @ data\<rparr>"

definition pass_on :: "nat \<Rightarrow> cfile \<Rightarrow> ('z, cfile) io" where
  "pass_on k f = do { append_fd (cf_fd f) (take k (unwritten f)); give (f\<lparr>unwritten := drop k (unwritten f)\<rparr>) }"

definition before_failure :: "nat \<Rightarrow> ('z, nat) io" where
  "before_failure len = do { q \<leftarrow> next_outcome; give (case q of Short n \<Rightarrow> min n (len - 1) | _ \<Rightarrow> 0) }"

definition fwrite :: "cfile \<Rightarrow> string \<Rightarrow> ('z, nat \<times> cfile) io" where
  "fwrite f data = do {
     r \<leftarrow> next_outcome;
     case r of
       Done \<Rightarrow> give (length data, take_in data f)
     | Short k \<Rightarrow> do { f \<leftarrow> pass_on k (take_in data f); give (length data, f) }
     | Fault e \<Rightarrow> do {
         n \<leftarrow> before_failure (length data);
         set_errno e;
         give (n, (take_in (take n data) f)\<lparr>cf_error := True\<rparr>) }
   }"

definition fflush :: "cfile \<Rightarrow> ('z, bool \<times> cfile) io" where
  "fflush f = do {
     r \<leftarrow> next_outcome;
     case r of
       Fault e \<Rightarrow> do {
         n \<leftarrow> before_failure (length (unwritten f));
         f \<leftarrow> pass_on n f;
         set_errno e;
         give (False, f\<lparr>cf_error := True\<rparr>) }
     | _ \<Rightarrow> do { f \<leftarrow> pass_on (length (unwritten f)) f; give (True, f) }
   }"

definition fclose :: "cfile \<Rightarrow> ('z, bool) io" where
  "fclose f = do { r \<leftarrow> fflush f; ok \<leftarrow> close (cf_fd f); give (fst r \<and> ok) }"

text \<open>The loop around \<open>fwrite\<close> that the flushers and the backup server share.\<close>

function fwrite_loop :: "cfile \<Rightarrow> string \<Rightarrow> nat \<Rightarrow> 'z os_scheme \<Rightarrow> (bool \<times> cfile) \<times> 'z os_scheme" where
  "fwrite_loop f data written s =
     (if written < length data then
        (case run_state (fwrite f (drop written data)) s of
           ((count, g), t) \<Rightarrow> if count = 0 then ((False, g), t) else fwrite_loop g data (written + count) t)
      else ((True, f), s))"
  by auto

termination
  by (relation "measure (\<lambda>(f, data, written, s). length data - written)") auto

declare fwrite_loop.simps [simp del]

text \<open>\<open>file_size\<close> and \<open>remove\<close> of \<^verbatim>\<open>std::filesystem\<close>; the second component is whether the error code is set.\<close>

definition fs_file_size :: "string \<Rightarrow> ('z, nat \<times> bool) io" where
  "fs_file_size p = do {
     r \<leftarrow> next_outcome;
     s \<leftarrow> State_Monad.get;
     give (case r of
       Fault e \<Rightarrow> (0, True)
     | _ \<Rightarrow> (case lookup s p of Some (File i) \<Rightarrow> (length (bytes (inodes s i)), False) | _ \<Rightarrow> (0, True)))
   }"

definition fs_remove :: "string \<Rightarrow> ('z, bool) io" where
  "fs_remove p = do {
     there \<leftarrow> gets (\<lambda>s. lookup s p \<noteq> None);
     if there then unlink p else syscall False (give True)
   }"

subsection \<open>What the calls do\<close>

text \<open>Nothing changes but outcomes, the error number, and bytes at the end of file \<open>i\<close>.\<close>

definition only_appends :: "nat \<Rightarrow> 'z os_scheme \<Rightarrow> 'z os_scheme \<Rightarrow> bool" where
  "only_appends i s t \<longleftrightarrow> node t = node s \<and> next_ino t = next_ino s \<and> dir_stat t = dir_stat s \<and> cwd t = cwd s \<and>
     clock t = clock s \<and> os.suffixes t = os.suffixes s \<and> os.more t = os.more s \<and> fds t = fds s \<and> next_fd t = next_fd s \<and>
     (\<forall>j. j \<noteq> i \<longrightarrow> inodes t j = inodes s j) \<and> prefix (bytes (inodes s i)) (bytes (inodes t i))"

interpretation ap: os_relation "only_appends i" for i
  by unfold_locales (auto simp: only_appends_def)

lemma only_appends_eqs:
  assumes "only_appends i s t"
  shows "node t = node s" "next_ino t = next_ino s" "fds t = fds s" "next_fd t = next_fd s" "cwd t = cwd s"
    "key t p = key s p" "lookup t p = lookup s p" "parent_exists t p = parent_exists s p" "j \<noteq> i \<Longrightarrow> inodes t j = inodes s j"
    "fs_wf t = fs_wf s"
  using assms by (simp_all add: only_appends_def key_def lookup_def parent_exists_def fs_wf_def)

definition opened :: "'z os_scheme \<Rightarrow> cfile \<Rightarrow> nat \<Rightarrow> bool" where
  "opened s f i \<longleftrightarrow> (\<exists>d. fds s (cf_fd f) = Some d \<and> fd_ino d = Some i)"

text \<open>What has been written to the stream: the bytes of the file and those on their way to it.\<close>

definition stream :: "'z os_scheme \<Rightarrow> cfile \<Rightarrow> nat \<Rightarrow> string" where
  "stream s f i = bytes (inodes s i) @ unwritten f"

definition faultless :: "outcome list \<Rightarrow> bool" where
  "faultless = list_all (\<lambda>r. case r of Fault e \<Rightarrow> False | _ \<Rightarrow> True)"

lemma faultless_simps [simp]:
  "faultless []" "faultless (Done # rs) = faultless rs" "faultless (Short k # rs) = faultless rs" "\<not> faultless (Fault e # rs)"
  by (simp_all add: faultless_def)

text \<open>A stream operation that adds \<open>x\<close>, from \<open>f\<close> in \<open>s\<close> to \<open>g\<close> in \<open>t\<close>.\<close>

definition streams :: "nat \<Rightarrow> string \<Rightarrow> cfile \<Rightarrow> 'z os_scheme \<Rightarrow> cfile \<Rightarrow> 'z os_scheme \<Rightarrow> bool" where
  "streams i x f s g t \<longleftrightarrow> only_appends i s t \<and> stream t g i = stream s f i @ x \<and> cf_fd g = cf_fd f \<and>
     (cf_error f \<longrightarrow> cf_error g) \<and> (faultless (tape s) \<longrightarrow> faultless (tape t) \<and> cf_error g = cf_error f)"

lemma streams_trans: "streams i x f s g t \<Longrightarrow> streams i y g t h u \<Longrightarrow> streams i (x @ y) f s h u"
  unfolding streams_def by (auto intro: ap.trans)

lemma streams_opened: "streams i x f s g t \<Longrightarrow> opened t g j = opened s f j"
  by (simp add: streams_def opened_def only_appends_def)

lemma append_fd_run:
  "opened s f i \<Longrightarrow> run_state (append_fd (cf_fd f) data) s = ((), append_to i data s)"
  by (auto simp: append_fd_def opened_def)

lemma pass_on_run:
  assumes "run_state (pass_on k f) s = (g, t)" "opened s f i"
  shows "t = append_to i (take k (unwritten f)) s" "g = f\<lparr>unwritten := drop k (unwritten f)\<rparr>"
  using assms by (simp_all add: pass_on_def append_fd_run)

lemma append_streams:
  "streams i [] f s (f\<lparr>unwritten := drop k (unwritten f)\<rparr>) (append_to i (take k (unwritten f)) s)"
  by (simp add: streams_def stream_def append_to_def only_appends_def)

lemma streams_tape:
  assumes "streams i x f (s\<lparr>tape := ts\<rparr>) g t" "faultless (tape s) \<Longrightarrow> faultless ts"
  shows "streams i x f s g t"
  using assms by (auto simp: streams_def only_appends_def stream_def)

lemma next_outcome_run:
  assumes "run_state next_outcome s = (r, t)"
  obtains ts where "t = s\<lparr>tape := ts\<rparr>" "faultless (tape s) \<Longrightarrow> faultless ts \<and> (\<forall>e. r \<noteq> Fault e)"
proof (cases "tape s")
  case Nil
  with assms have "r = Done" "t = s\<lparr>tape := []\<rparr>" by (auto simp: next_outcome_def)
  then show thesis using that by auto
next
  case (Cons x xs)
  with assms have "r = x" "t = s\<lparr>tape := xs\<rparr>" by (auto simp: next_outcome_def)
  then show thesis using that Cons by (cases x) auto
qed

lemma before_failure_run:
  assumes "run_state (before_failure len) s = (n, t)"
  obtains ts where "t = s\<lparr>tape := ts\<rparr>" "n \<le> len - 1"
proof -
  obtain q u where q: "run_state next_outcome s = (q, u)" by fastforce
  obtain ts where "u = s\<lparr>tape := ts\<rparr>" by (rule next_outcome_run [OF q])
  then show thesis using that assms q by (cases q) (auto simp: before_failure_def)
qed

lemma take_in_streams: "streams i data f s (take_in data f) s"
  by (simp add: streams_def stream_def take_in_def ap.refl)

lemma fail_streams:
  "\<not> faultless (tape s) \<Longrightarrow> streams i x f s g t \<Longrightarrow> streams i x f s (g\<lparr>cf_error := True\<rparr>) (t\<lparr>errno := e\<rparr>)"
  by (auto simp: streams_def stream_def only_appends_def)

text \<open>A call of \<open>fwrite\<close> adds as many bytes of its argument as it returns; it is short only together with an error.\<close>

lemma fwrite_run:
  assumes "run_state (fwrite f data) s = ((n, g), t)" "opened s f i" "data \<noteq> []"
  shows "streams i (take n data) f s g t" "n \<le> length data" "n < length data \<Longrightarrow> cf_error g"
    "faultless (tape s) \<Longrightarrow> n = length data"
proof -
  obtain r u where r: "run_state next_outcome s = (r, u)" by fastforce
  from next_outcome_run [OF r] obtain ts where u: "u = s\<lparr>tape := ts\<rparr>"
    and fl: "faultless (tape s) \<Longrightarrow> faultless ts \<and> (\<forall>e. r \<noteq> Fault e)" by blast
  have op: "opened (s\<lparr>tape := ts\<rparr>) h i" if "cf_fd h = cf_fd f" for h using assms(2) that by (simp add: opened_def)
  have "streams i (take n data) f s g t \<and> n \<le> length data \<and> (n < length data \<longrightarrow> cf_error g) \<and>
      (faultless (tape s) \<longrightarrow> n = length data)"
  proof (cases r)
    case Done
    with assms(1) r u have "n = length data" "g = take_in data f" "t = s\<lparr>tape := ts\<rparr>" by (auto simp: fwrite_def)
    with streams_tape [OF take_in_streams [of i data f "s\<lparr>tape := ts\<rparr>"]] fl show ?thesis by simp
  next
    case (Short k)
    let ?f = "take_in data f"
    from Short assms(1) r u have n: "n = length data" and p: "run_state (pass_on k ?f) (s\<lparr>tape := ts\<rparr>) = (g, t)"
      by (auto simp: fwrite_def split: prod.splits)
    from streams_trans [OF take_in_streams [of i data f "s\<lparr>tape := ts\<rparr>"]
        append_streams [of i ?f "s\<lparr>tape := ts\<rparr>" k]] pass_on_run [OF p op]
    have "streams i data f (s\<lparr>tape := ts\<rparr>) g t" by (simp add: take_in_def)
    with n fl show ?thesis by (auto intro: streams_tape)
  next
    case (Fault e)
    obtain m v where m: "run_state (before_failure (length data)) (s\<lparr>tape := ts\<rparr>) = (m, v)" by fastforce
    from before_failure_run [OF m] obtain ts' where v: "v = s\<lparr>tape := ts'\<rparr>" and le: "m \<le> length data - 1" by auto
    from Fault assms(1) r u m v have n: "n = m" and g: "g = (take_in (take m data) f)\<lparr>cf_error := True\<rparr>"
      and t: "t = s\<lparr>tape := ts', errno := e\<rparr>" by (auto simp: fwrite_def set_errno_def)
    have nf: "\<not> faultless (tape s)" using fl Fault by blast
    then have "streams i (take m data) f s (take_in (take m data) f) (s\<lparr>tape := ts'\<rparr>)"
      by (intro streams_tape [OF take_in_streams]) simp
    from fail_streams [OF nf this, of e] n g t le nf assms(3) show ?thesis by simp
  qed
  then show "streams i (take n data) f s g t" "n \<le> length data" "n < length data \<Longrightarrow> cf_error g"
    "faultless (tape s) \<Longrightarrow> n = length data" by blast+
qed

lemma fflush_run:
  assumes "run_state (fflush f) s = ((ok, g), t)" "opened s f i"
  shows "streams i [] f s g t" "ok \<Longrightarrow> unwritten g = []" "faultless (tape s) \<Longrightarrow> ok"
proof -
  obtain r u where r: "run_state next_outcome s = (r, u)" by fastforce
  from next_outcome_run [OF r] obtain ts where u: "u = s\<lparr>tape := ts\<rparr>"
    and fl: "faultless (tape s) \<Longrightarrow> faultless ts \<and> (\<forall>e. r \<noteq> Fault e)" by blast
  have op: "opened (s\<lparr>tape := ts\<rparr>) f i" for ts using assms(2) by (simp add: opened_def)
  have "streams i [] f s g t \<and> (ok \<longrightarrow> unwritten g = []) \<and> (faultless (tape s) \<longrightarrow> ok)"
  proof (cases "\<exists>e. r = Fault e")
    case True
    then obtain e where e: "r = Fault e" by blast
    obtain m v where m: "run_state (before_failure (length (unwritten f))) (s\<lparr>tape := ts\<rparr>) = (m, v)" by fastforce
    from before_failure_run [OF m] obtain ts' where v: "v = s\<lparr>tape := ts'\<rparr>" by auto
    obtain h w where h: "run_state (pass_on m f) (s\<lparr>tape := ts'\<rparr>) = (h, w)" by fastforce
    from e assms(1) r u m v h have g: "\<not> ok" "g = h\<lparr>cf_error := True\<rparr>" "t = w\<lparr>errno := e\<rparr>"
      by (auto simp: fflush_def set_errno_def)
    have nf: "\<not> faultless (tape s)" using fl e by blast
    from append_streams [of i f "s\<lparr>tape := ts'\<rparr>" m] pass_on_run [OF h op] nf
    have "streams i [] f s h w" by (auto intro: streams_tape)
    from fail_streams [OF nf this, of e] g nf show ?thesis by simp
  next
    case False
    with assms(1) r u obtain h where p: "run_state (pass_on (length (unwritten f)) f) (s\<lparr>tape := ts\<rparr>) = (h, t)"
      and g: "ok" "g = h" by (cases r) (auto simp: fflush_def split: prod.splits)
    from append_streams [of i f "s\<lparr>tape := ts\<rparr>" "length (unwritten f)"] pass_on_run [OF p op] fl g
    show ?thesis by (auto intro: streams_tape)
  qed
  then show "streams i [] f s g t" "ok \<Longrightarrow> unwritten g = []" "faultless (tape s) \<Longrightarrow> ok" by blast+
qed

lemma fwrite_loop_run:
  assumes "fwrite_loop f data written s = ((ok, g), t)" "opened s f i" "written \<le> length data"
  shows "\<exists>n. streams i (take n (drop written data)) f s g t \<and>
    (ok \<longrightarrow> n = length data - written) \<and> (faultless (tape s) \<longrightarrow> ok)"
  using assms
proof (induction f data written s arbitrary: ok g t rule: fwrite_loop.induct)
  case (1 f data written s)
  show ?case
  proof (cases "written < length data")
    case False
    with 1(2) have "ok" "g = f" "t = s" by (auto simp: fwrite_loop.simps)
    with False show ?thesis by (auto simp: streams_def stream_def ap.refl)
  next
    case True
    obtain n h u where w: "run_state (fwrite f (drop written data)) s = ((n, h), u)" by (metis prod.exhaust)
    from True have ne: "drop written data \<noteq> []" by simp
    note fw = fwrite_run [OF w 1(3) ne]
    show ?thesis
    proof (cases "n = 0")
      case True
      with 1(2) \<open>written < length data\<close> w have "\<not> ok" "g = h" "t = u" by (auto simp: fwrite_loop.simps)
      with fw(1,4) True \<open>written < length data\<close> show ?thesis by (intro exI [of _ 0]) auto
    next
      case False
      with 1(2) True w have l: "fwrite_loop h data (written + n) u = ((ok, g), t)"
        by (subst (asm) fwrite_loop.simps) simp
      from fw(1) 1(3) have op: "opened u h i" by (simp add: streams_opened)
      have le: "written + n \<le> length data" using fw(2) True by auto
      from 1(1) [OF True w [symmetric] refl False l op le] obtain m where
        m: "streams i (take m (drop (written + n) data)) h u g t" "ok \<longrightarrow> m = length data - (written + n)"
          "faultless (tape u) \<longrightarrow> ok" by blast
      have "take n (drop written data) @ take m (drop (written + n) data) = take (n + m) (drop written data)"
        by (simp only: take_add drop_drop add.commute [of written n])
      with streams_trans [OF fw(1) m(1)] have "streams i (take (n + m) (drop written data)) f s g t" by simp
      moreover have "faultless (tape s) \<longrightarrow> ok" using m(3) fw(1) by (simp add: streams_def)
      ultimately show ?thesis using m(2) le by (intro exI [of _ "n + m"]) auto
    qed
  qed
qed

lemma quiet_faultless:
  assumes "run_state (syscall bad (give x)) s = (r, t)" "faultless (tape s)"
  shows "r = x" "faultless (tape t)"
  using assms by (auto simp: syscall_def next_outcome_def fail_def split: list.splits outcome.splits)

lemma fclose_run:
  assumes "run_state (fclose f) s = (ok, t)" "opened s f i"
  obtains u g where "streams i [] f s g u" "quiet (u\<lparr>fds := (fds u)(cf_fd f := None)\<rparr>) t" "ok \<Longrightarrow> unwritten g = []"
    "faultless (tape s) \<Longrightarrow> ok \<and> faultless (tape t)"
proof -
  obtain a g u where fl: "run_state (fflush f) s = ((a, g), u)" by (metis prod.exhaust)
  obtain b v where cl: "run_state (close (cf_fd f)) u = (b, v)" by fastforce
  from assms(1) fl cl have r: "ok = (a \<and> b)" "t = v" by (auto simp: fclose_def)
  note ff = fflush_run [OF fl assms(2)]
  have "b \<and> faultless (tape v)" if "faultless (tape s)"
    using cl ff(1) that
    by (auto simp: close_def streams_def syscall_def next_outcome_def fail_def split: list.splits outcome.splits)
  with ff r close_run [OF cl] that [of g u] show thesis by blast
qed

text \<open>Opening: a new name denotes a new empty file.\<close>

lemma fopen_append_run:
  assumes "run_state (fopen_append p) s = (r, t)"
  obtains (failed) "r = None" "quiet s t"
      "faultless (tape s) \<Longrightarrow> lookup s p = Some Dir \<or> lookup s p = None \<and> \<not> parent_exists s p"
  | (opened) ts where "r = Some \<lparr>cf_fd = next_fd s, unwritten = [], cf_error = False\<rparr>" "lookup s p \<noteq> Some Dir"
      "t = (if lookup s p = None then create_at (key s p) (s\<lparr>tape := ts\<rparr>) else s\<lparr>tape := ts\<rparr>)
        \<lparr>fds := (fds s)(next_fd s \<mapsto> \<lparr>fd_ino = Some (target s p), fd_pos = 0\<rparr>), next_fd := next_fd s + 1\<rparr>"
      "faultless (tape s) \<Longrightarrow> faultless ts" "lookup s p = None \<Longrightarrow> parent_exists s p"
proof -
  obtain x u where x: "run_state next_outcome s = (x, u)" by fastforce
  from next_outcome_run [OF x] obtain ts where u: "u = s\<lparr>tape := ts\<rparr>"
    and fl: "faultless (tape s) \<Longrightarrow> faultless ts \<and> (\<forall>e. x \<noteq> Fault e)" by blast
  show thesis
  proof (cases "\<exists>e. x = Fault e")
    case True
    with assms x u fl show ?thesis
      by (intro failed) (auto simp: fopen_append_def syscall_def fail_def quiet_def silent_def)
  next
    case False
    then have run: "run_state (fopen_append p) s = run_state (do {
        s \<leftarrow> State_Monad.get;
        fd \<leftarrow> (case lookup s p of
          None \<Rightarrow> if parent_exists s p then do { modify (create_at (key s p)); new_fd (Some (next_ino s)) } else fail ENOENT None
        | Some Dir \<Rightarrow> fail EISDIR None
        | Some (File i) \<Rightarrow> new_fd (Some i));
        give (map_option (\<lambda>fd. \<lparr>cf_fd = fd, unwritten = [], cf_error = False\<rparr>) fd) }) (s\<lparr>tape := ts\<rparr>)"
      using x u by (cases x) (simp_all add: fopen_append_def syscall_def)
    show ?thesis
    proof (cases "lookup s p = Some Dir \<or> lookup s p = None \<and> \<not> parent_exists s p")
      case True
      with assms run show ?thesis
        by (intro failed) (auto simp: fail_def quiet_def silent_def split: if_splits)
    next
      case False
      with assms run fl show ?thesis
        by (intro opened [of ts]) (auto simp: new_fd_def create_at_def target_def split: option.splits node.splits)
    qed
  qed
qed

lemma fs_file_size_run:
  assumes "run_state next_outcome s = (r, u)" "\<forall>e. r \<noteq> Fault e" "lookup u p = Some (File i)"
  shows "run_state (fs_file_size p) s = ((length (bytes (inodes u i)), False), u)"
  using assms by (cases r) (auto simp: fs_file_size_def)

lemma fsync_run:
  assumes "run_state (fsync fd) s = (ok, t)"
  shows "quiet s t" "faultless (tape s) \<Longrightarrow> ok \<and> faultless (tape t)"
  using assms
  by (auto simp: fsync_def syscall_def next_outcome_def fail_def quiet_def silent_def split: list.splits outcome.splits)

lemma quiet_streams:
  assumes "quiet s t" "faultless (tape s) \<Longrightarrow> faultless (tape t)"
  shows "streams i [] f s f t"
  using assms by (auto simp: streams_def stream_def only_appends_def quiet_def silent_def)

subsection \<open>Names made by adding a suffix\<close>

text \<open>A rolled file is named after a base by a suffix without separators; such names differ when their suffixes do.\<close>

definition plain_suffix :: "string \<Rightarrow> bool" where
  "plain_suffix n \<longleftrightarrow> SLASH \<notin> set n \<and> NUL \<notin> set n \<and> (\<exists>c \<in> set n. c \<noteq> CHR ''.'')"

definition dir_key :: "'z os_scheme \<Rightarrow> string \<Rightarrow> string list" where
  "dir_key s b = walk (filter (\<lambda>n. n \<noteq> []) (butlast (split_slash b))) (if is_absolute b then [] else cwd s)"

lemma split_slash_suffix: "SLASH \<notin> set n \<Longrightarrow> split_slash (b @ n) = butlast (split_slash b) @ [last (split_slash b) @ n]"
proof (induction b)
  case (Cons c b)
  then show ?case by (cases "split_slash b") auto
qed (simp add: split_slash_plain)

lemma key_suffix:
  assumes "NUL \<notin> set b" "plain_suffix n"
  shows "key s (b @ n) = dir_key s b @ [last (split_slash b) @ n]"
proof -
  have n: "SLASH \<notin> set n" "n \<noteq> []" and dot: "last (split_slash b) @ n \<noteq> ''.''" "last (split_slash b) @ n \<noteq> ''..''"
    using assms(2) by (auto simp: plain_suffix_def append_eq_Cons_conv)
  have "c_str (b @ n) = b @ n" using assms by (simp add: c_str_id plain_suffix_def)
  moreover have "is_absolute (b @ n) = is_absolute b" using n by (cases b; cases n) (auto simp: is_absolute_def)
  ultimately show ?thesis using n dot
    by (simp add: key_def dir_key_def path_names_def split_slash_suffix walk_append)
qed

lemma parent_exists_suffix:
  assumes "NUL \<notin> set b" "plain_suffix n"
  shows "parent_exists s (b @ n) \<longleftrightarrow> node s (dir_key s b) = Some Dir"
  using assms key_suffix [OF assms, of s] by (auto simp: parent_exists_def c_str_id plain_suffix_def)

lemma lookup_suffix:
  assumes "NUL \<notin> set b" "plain_suffix n"
  shows "lookup s (b @ n) = node s (dir_key s b @ [last (split_slash b) @ n])"
  using assms key_suffix [OF assms, of s] by (auto simp: lookup_def c_str_id plain_suffix_def)

lemma key_suffix_eq_iff:
  "NUL \<notin> set b \<Longrightarrow> plain_suffix m \<Longrightarrow> plain_suffix n \<Longrightarrow> key s (b @ m) = key s (b @ n) \<longleftrightarrow> m = n"
  by (simp add: key_suffix)

end
