(* ===== verification/Log_Flush.thy ===== *)
theory Log_Flush
  imports Stdio Log_Config Log_Message
begin

text \<open>
  \<^verbatim>\<open>src/log_system/logs_code/LogFlush.hpp\<close>: where the writer thread puts the log: the console, one file, or a sequence of
  files of limited size. A flusher's \<open>Flush\<close> returns nothing; here it returns the flusher as it is afterwards. The
  configuration \<^verbatim>\<open>g_conf_data\<close> may be absent. The local time, the microseconds and the process id that make up
  a file name are arguments.
\<close>

datatype flush_error = No_directory | No_file | No_size

subsection \<open>FileFlush\<close>

definition WriteAll :: "cfile option \<Rightarrow> string \<Rightarrow> ('z, bool \<times> cfile option) io" where
  "WriteAll file data = (case file of
     None \<Rightarrow> give (False, None)
   | Some f \<Rightarrow> do {
       r \<leftarrow> State (fwrite_loop f data 0);
       give (fst r \<and> \<not> cf_error (snd r), Some (snd r)) })"

definition ApplyFlushPolicy :: "log_config option \<Rightarrow> cfile option \<Rightarrow> ('z, bool \<times> cfile option) io" where
  "ApplyFlushPolicy conf file = (case (file, conf) of
     (Some f, Some c) \<Rightarrow> do {
       r \<leftarrow> (if 1 \<le> flush_log c then fflush f else give (True, f));
       if \<not> fst r then give (False, Some (snd r))
       else do {
         synced \<leftarrow> (if flush_log c = 2 then fsync (cf_fd (snd r)) else give True);
         give (synced, Some (snd r)) } }
   | _ \<Rightarrow> give (False, file))"

definition FileFlush :: "string \<Rightarrow> ('z, flush_error + cfile option) io" where
  "FileFlush filename = do {
     ok \<leftarrow> log_CreateDirectory (log_Path filename);
     if \<not> ok then give (Inl No_directory)
     else do {
       f \<leftarrow> fopen_append filename;
       give (case f of None \<Rightarrow> Inl No_file | Some f \<Rightarrow> Inr (Some f)) } }"

definition FileFlush_Flush :: "log_config option \<Rightarrow> string \<Rightarrow> cfile option \<Rightarrow> ('z, cfile option) io" where
  "FileFlush_Flush conf data file = do {
     w \<leftarrow> WriteAll file data;
     p \<leftarrow> ApplyFlushPolicy conf (snd w);
     give (snd p) }"

subsection \<open>RollFileFlush\<close>

record roll =
  max_size :: nat
  basename :: string
  current_size :: nat
  roll_seq :: nat
  roll_file :: "cfile option"

record stamp =
  local_time :: tm
  micros :: nat

definition RollFileFlush :: "string \<Rightarrow> nat \<Rightarrow> ('z, flush_error + roll) io" where
  "RollFileFlush base limit =
     (if limit = 0 then give (Inl No_size)
      else do {
        ok \<leftarrow> log_CreateDirectory (log_Path base);
        give (if ok then Inr \<lparr>max_size = limit, basename = base, current_size = 0, roll_seq = 1, roll_file = None\<rparr>
          else Inl No_directory) })"

definition roll_suffix :: "stamp \<Rightarrow> nat \<Rightarrow> nat \<Rightarrow> string" where
  "roll_suffix now pid seq = ''-'' @ strftime_name (local_time now) @ ''-'' @ setw 6 (micros now mod 1000000) @ ''-'' @
     to_dec pid @ ''-'' @ to_dec seq @ ''.log''"

definition CreateFilename :: "stamp \<Rightarrow> nat \<Rightarrow> roll \<Rightarrow> string \<times> roll" where
  "CreateFilename now pid r = (basename r @ roll_suffix now pid (roll_seq r), r\<lparr>roll_seq := roll_seq r + 1\<rparr>)"

definition fits :: "roll \<Rightarrow> nat \<Rightarrow> bool" where
  "fits r incoming \<longleftrightarrow> roll_file r \<noteq> None \<and>
     (current_size r = 0 \<or> incoming \<le> max_size r - min (current_size r) (max_size r))"

text \<open>The second half of \<open>EnsureFile\<close>, once no file is open.\<close>

definition open_next :: "stamp \<Rightarrow> nat \<Rightarrow> roll \<Rightarrow> ('z, bool \<times> roll) io" where
  "open_next now pid r = (case CreateFilename now pid r of (filename, r) \<Rightarrow> do {
     f \<leftarrow> fopen_append filename;
     case f of
       None \<Rightarrow> give (False, r)
     | Some f \<Rightarrow> do {
         n \<leftarrow> fs_file_size filename;
         give (True, r\<lparr>roll_file := Some f, current_size := (if snd n then 0 else fst n)\<rparr>) } })"

definition EnsureFile :: "stamp \<Rightarrow> nat \<Rightarrow> nat \<Rightarrow> roll \<Rightarrow> ('z, bool \<times> roll) io" where
  "EnsureFile now pid incoming r =
     (if fits r incoming then give (True, r)
      else do {
        (case roll_file r of None \<Rightarrow> give True | Some f \<Rightarrow> fclose f);
        open_next now pid (r\<lparr>roll_file := None\<rparr>) })"

definition Roll_Flush :: "log_config option \<Rightarrow> stamp \<Rightarrow> nat \<Rightarrow> string \<Rightarrow> roll \<Rightarrow> ('z, roll) io" where
  "Roll_Flush conf now pid data r = do {
     e \<leftarrow> EnsureFile now pid (length data) r;
     (let r = snd e in
      if \<not> fst e then give r
      else do {
        w \<leftarrow> WriteAll (roll_file r) data;
        (let r = r\<lparr>roll_file := snd w\<rparr> in
         if \<not> fst w then give r
         else do {
           p \<leftarrow> ApplyFlushPolicy conf (roll_file r);
           give (r\<lparr>current_size := current_size r + length data, roll_file := snd p\<rparr>) }) }) }"

subsection \<open>Any flusher\<close>

text \<open>The classes derived from \<open>LogFlush\<close>; the console has shown a text.\<close>

datatype flusher = StdoutFlush string | File_flusher "cfile option" | Roll_flusher roll

definition Flush :: "log_config option \<Rightarrow> stamp \<Rightarrow> nat \<Rightarrow> string \<Rightarrow> flusher \<Rightarrow> ('z, flusher) io" where
  "Flush conf now pid data fl = (case fl of
     StdoutFlush shown \<Rightarrow> give (StdoutFlush (shown @ data))
   | File_flusher f \<Rightarrow> do { f \<leftarrow> FileFlush_Flush conf data f; give (File_flusher f) }
   | Roll_flusher r \<Rightarrow> do { r \<leftarrow> Roll_Flush conf now pid data r; give (Roll_flusher r) })"

subsection \<open>What they do\<close>

lemma WriteAll_run:
  assumes "run_state (WriteAll (Some f) data) s = ((ok, h), t)" "opened s f i"
  obtains g n where "h = Some g" "streams i (take n data) f s g t" "ok \<Longrightarrow> n = length data \<and> \<not> cf_error g"
    "faultless (tape s) \<Longrightarrow> n = length data \<and> ok = (\<not> cf_error f)"
proof -
  obtain a g u where l: "fwrite_loop f data 0 s = ((a, g), u)" by (metis prod.exhaust)
  from fwrite_loop_run [OF l assms(2)] obtain n where n: "streams i (take n data) f s g u"
    "a \<longrightarrow> n = length data" "faultless (tape s) \<longrightarrow> a" by auto
  from assms(1) l have r: "ok = (a \<and> \<not> cf_error g)" "h = Some g" "t = u" by (auto simp: WriteAll_def)
  show thesis
  proof (rule that [of g n])
    show "faultless (tape s) \<Longrightarrow> n = length data \<and> ok = (\<not> cf_error f)"
      using n r by (auto simp: streams_def)
  qed (use n r in auto)
qed

lemma ApplyFlushPolicy_run:
  assumes "run_state (ApplyFlushPolicy conf (Some f)) s = ((ok, h), t)" "opened s f i"
  obtains g where "h = Some g" "streams i [] f s g t"
    "ok \<Longrightarrow> conf = Some c \<Longrightarrow> 1 \<le> flush_log c \<Longrightarrow> unwritten g = []"
    "faultless (tape s) \<Longrightarrow> conf = Some c \<Longrightarrow> ok"
proof (cases conf)
  case None
  with assms(1) show thesis
    by (intro that [of f]) (auto simp: ApplyFlushPolicy_def streams_def stream_def ap.refl)
next
  case (Some c')
  let ?first = "if 1 \<le> flush_log c' then fflush f else give (True, f)"
  obtain a g u where 1: "run_state ?first s = ((a, g), u)" by (metis prod.exhaust)
  have g: "streams i [] f s g u" "a \<Longrightarrow> 1 \<le> flush_log c' \<Longrightarrow> unwritten g = []" "faultless (tape s) \<Longrightarrow> a"
  proof -
    have "streams i [] f s g u \<and> (a \<longrightarrow> 1 \<le> flush_log c' \<longrightarrow> unwritten g = []) \<and> (faultless (tape s) \<longrightarrow> a)"
    proof (cases "1 \<le> flush_log c'")
      case True
      with 1 have fl: "run_state (fflush f) s = ((a, g), u)" by simp
      show ?thesis using fflush_run [OF fl assms(2)] by blast
    next
      case False
      with 1 show ?thesis by (simp add: streams_def stream_def ap.refl)
    qed
    then show "streams i [] f s g u" "a \<Longrightarrow> 1 \<le> flush_log c' \<Longrightarrow> unwritten g = []" "faultless (tape s) \<Longrightarrow> a" by blast+
  qed
  show thesis
  proof (cases a)
    case False
    with assms(1) Some 1 have "\<not> ok" "h = Some g" "t = u" by (auto simp: ApplyFlushPolicy_def)
    with g False show thesis by (intro that [of g]) auto
  next
    case True
    let ?second = "if flush_log c' = 2 then fsync (cf_fd g) else give True"
    obtain b v where 2: "run_state ?second u = (b, v)" by fastforce
    have v: "streams i [] g u g v \<and> (faultless (tape u) \<longrightarrow> b)"
    proof (cases "flush_log c' = 2")
      case True
      with 2 have fs: "run_state (fsync (cf_fd g)) u = (b, v)" by simp
      show ?thesis using fsync_run [OF fs] quiet_streams by blast
    next
      case False
      with 2 show ?thesis by (simp add: streams_def stream_def ap.refl)
    qed
    from assms(1) Some 1 2 True have r: "ok = b" "h = Some g" "t = v"
      by (auto simp: ApplyFlushPolicy_def cong: if_cong)
    show thesis
    proof (rule that [of g])
      show "streams i [] f s g t" using streams_trans [OF g(1) v [THEN conjunct1]] r by simp
      show "faultless (tape s) \<Longrightarrow> conf = Some c \<Longrightarrow> ok" using r v g(1) by (simp add: streams_def)
    qed (use r g(2) True Some in auto)
  qed
qed

lemma FileFlush_run:
  assumes "run_state (FileFlush_Flush conf data (Some f)) s = (h, t)" "opened s f i"
  obtains g n where "h = Some g" "streams i (take n data) f s g t" "faultless (tape s) \<Longrightarrow> n = length data"
    "faultless (tape s) \<Longrightarrow> conf = Some c \<Longrightarrow> 1 \<le> flush_log c \<Longrightarrow> unwritten g = []"
proof -
  obtain a x u where w: "run_state (WriteAll (Some f) data) s = ((a, x), u)" by (metis prod.exhaust)
  from WriteAll_run [OF w assms(2)] obtain g n where g: "x = Some g" "streams i (take n data) f s g u"
    "faultless (tape s) \<Longrightarrow> n = length data" by metis
  obtain b y v where p: "run_state (ApplyFlushPolicy conf (Some g)) u = ((b, y), v)" by (metis prod.exhaust)
  have op: "opened u g i" using streams_opened [OF g(2)] assms(2) by simp
  obtain k where k: "y = Some k" "streams i [] g u k v" "b \<Longrightarrow> conf = Some c \<Longrightarrow> 1 \<le> flush_log c \<Longrightarrow> unwritten k = []"
    "faultless (tape u) \<Longrightarrow> conf = Some c \<Longrightarrow> b" using ApplyFlushPolicy_run [OF p op, of c] by metis
  from assms(1) w p g(1) have r: "h = y" "t = v" by (auto simp: FileFlush_Flush_def)
  have "faultless (tape u)" if "faultless (tape s)" using that g(2) by (simp add: streams_def)
  with k r streams_trans [OF g(2) k(2)] g(3) show thesis by (intro that [of k n]) auto
qed

text \<open>A flush into the file that is open.\<close>

lemma Roll_Flush_fits:
  assumes "run_state (Roll_Flush conf now pid data r) s = (q, t)" "fits r (length data)" "roll_file r = Some f" "opened s f i"
    "faultless (tape s)"
  obtains g where "q = r\<lparr>roll_file := Some g, current_size := (if cf_error f then current_size r else current_size r + length data)\<rparr>"
    "streams i data f s g t"
proof -
  obtain a x u where w: "run_state (WriteAll (Some f) data) s = ((a, x), u)" by (metis prod.exhaust)
  from WriteAll_run [OF w assms(4)] assms(5) obtain g where g: "x = Some g" "streams i data f s g u" "a = (\<not> cf_error f)"
    by (metis take_all order_refl)
  show thesis
  proof (cases "cf_error f")
    case True
    with assms w g have "q = r\<lparr>roll_file := Some g\<rparr>" "t = u" by (auto simp: Roll_Flush_def EnsureFile_def Let_def)
    with g True show thesis by (intro that [of g]) (cases r, simp_all)
  next
    case False
    obtain b y v where p: "run_state (ApplyFlushPolicy conf (Some g)) u = ((b, y), v)" by (metis prod.exhaust)
    have op: "opened u g i" using streams_opened [OF g(2)] assms(4) by simp
    obtain k where k: "y = Some k" "streams i [] g u k v" by (rule ApplyFlushPolicy_run [OF p op]) blast
    from assms w g False p k have "q = r\<lparr>current_size := current_size r + length data, roll_file := Some k\<rparr>" "t = v"
      by (auto simp: Roll_Flush_def EnsureFile_def Let_def)
    with streams_trans [OF g(2) k(2)] False show thesis by (intro that [of k]) simp_all
  qed
qed

text \<open>Names made with different sequence numbers differ.\<close>

lemma roll_suffix_plain: "plain_suffix (roll_suffix now pid q)"
  unfolding plain_suffix_def roll_suffix_def
  by (auto simp: strftime_name_def dest!: setw_plain to_dec_int_plain to_dec_plain digit_plain)

lemma roll_suffix_eq: "roll_suffix now pid q = roll_suffix now' pid' q' \<Longrightarrow> q = q'"
proof -
  assume "roll_suffix now pid q = roll_suffix now' pid' q'"
  then have "rev (roll_suffix now pid q) = rev (roll_suffix now' pid' q')" by simp
  then have "rev (to_dec q) @ CHR ''-'' # rev (''-'' @ strftime_name (local_time now) @ ''-'' @ setw 6 (micros now mod 1000000) @ ''-'' @ to_dec pid) =
    rev (to_dec q') @ CHR ''-'' # rev (''-'' @ strftime_name (local_time now') @ ''-'' @ setw 6 (micros now' mod 1000000) @ ''-'' @ to_dec pid')"
    by (simp add: roll_suffix_def)
  then have "rev (to_dec q) = rev (to_dec q')"
    by (rule upto_char [THEN conjunct1]) (auto dest!: to_dec_plain digit_plain)
  then show "q = q'" by (simp add: to_dec_eq_iff)
qed

subsection \<open>The sequence of files\<close>

text \<open>What the files should hold: a message goes to the last file if it fits or that file is empty, else to a new one.\<close>

definition roll_add :: "nat \<Rightarrow> string list \<Rightarrow> string \<Rightarrow> string list" where
  "roll_add limit files x =
     (if files \<noteq> [] \<and> (last files = [] \<or> length x \<le> limit - min (length (last files)) limit)
      then butlast files @ [last files @ x] else files @ [x])"

lemma roll_add_concat: "concat (roll_add limit files x) = concat files @ x"
  by (cases files rule: rev_cases) (auto simp: roll_add_def)

lemma roll_add_all: "concat (foldl (roll_add limit) files xs) = concat files @ concat xs"
  by (induction xs arbitrary: files) (simp_all add: roll_add_concat)

lemma roll_add_bounded:
  assumes "\<forall>f \<in> set files. length f \<le> limit \<or> f \<in> X" "x \<in> X"
  shows "\<forall>f \<in> set (roll_add limit files x). length f \<le> limit \<or> f \<in> X"
  using assms by (cases files rule: rev_cases; cases x) (auto simp: roll_add_def min_def split: if_splits)

lemma roll_all_bounded:
  "\<forall>f \<in> set files. length f \<le> limit \<or> f \<in> X \<Longrightarrow> set xs \<subseteq> X \<Longrightarrow>
     \<forall>f \<in> set (foldl (roll_add limit) files xs). length f \<le> limit \<or> f \<in> X"
proof (induction xs arbitrary: files)
  case (Cons x xs)
  from Cons.IH [OF roll_add_bounded [OF Cons.prems(1), of x]] Cons.prems(2) show ?case by simp
qed simp

text \<open>An entry is a name, the file it denotes, and the text in it.\<close>

type_synonym entry = "string \<times> nat \<times> string"

definition kept_entry :: "'z os_scheme \<Rightarrow> entry \<Rightarrow> bool" where
  "kept_entry t e \<longleftrightarrow> (case e of (n, i, x) \<Rightarrow> lookup t n = Some (File i) \<and> bytes (inodes t i) = x)"

definition current :: "roll \<Rightarrow> 'z os_scheme \<Rightarrow> entry \<Rightarrow> bool" where
  "current r t e \<longleftrightarrow> (case e of (n, i, x) \<Rightarrow> lookup t n = Some (File i) \<and> current_size r = length x \<and>
     (\<exists>f. roll_file r = Some f \<and> opened t f i \<and> \<not> cf_error f \<and> stream t f i = x))"

text \<open>None of the names exists yet that process \<open>pid\<close> can make at the moments \<open>W\<close>.\<close>

definition roll_ready :: "string \<Rightarrow> nat \<Rightarrow> stamp set \<Rightarrow> nat \<Rightarrow> roll \<Rightarrow> 'z os_scheme \<Rightarrow> bool" where
  "roll_ready base limit W pid r t \<longleftrightarrow> basename r = base \<and> max_size r = limit \<and> NUL \<notin> set base \<and> faultless (tape t) \<and> fs_wf t \<and>
     node t (dir_key t base) = Some Dir \<and> (\<forall>w \<in> W. \<forall>q \<ge> roll_seq r. lookup t (base @ roll_suffix w pid q) = None)"

definition texts :: "entry list \<Rightarrow> string list" where
  "texts = map (\<lambda>(n, i, x). x)"

definition roll_inv :: "string \<Rightarrow> nat \<Rightarrow> stamp set \<Rightarrow> nat \<Rightarrow> entry list \<Rightarrow> entry option \<Rightarrow> roll \<Rightarrow> 'z os_scheme \<Rightarrow> bool" where
  "roll_inv base limit W pid old cur r t \<longleftrightarrow> roll_ready base limit W pid r t \<and> list_all (kept_entry t) old \<and>
     distinct (map (\<lambda>(n, i, x). i) old) \<and>
     (case cur of None \<Rightarrow> old = [] \<and> roll_file r = None | Some e \<Rightarrow> current r t e \<and> fst (snd e) \<notin> (\<lambda>(n, i, x). i) ` set old)"

text \<open>Operations on the open file leave the rest of the picture as it is.\<close>

lemma roll_inv_appends:
  assumes "roll_inv base limit W pid old (Some (n, i, x)) r s" "only_appends i s t" "faultless (tape t)"
    "current q t (n, i, y)" "basename q = basename r" "max_size q = max_size r" "roll_seq q = roll_seq r"
  shows "roll_inv base limit W pid old (Some (n, i, y)) q t"
proof -
  have "kept_entry t e" if "e \<in> set old" for e
    using that assms(1) only_appends_eqs [OF assms(2)]
    by (auto simp: roll_inv_def kept_entry_def list_all_iff image_iff) fastforce+
  moreover have "roll_ready base limit W pid q t"
    using assms only_appends_eqs [OF assms(2)] by (auto simp: roll_inv_def roll_ready_def dir_key_def)
  ultimately show ?thesis using assms(1,4) by (auto simp: roll_inv_def list_all_iff)
qed

lemma roll_fit_step:
  assumes "roll_inv base limit W pid old (Some (n, i, x)) r s" "fits r (length data)"
    "run_state (Roll_Flush conf now pid data r) s = (q, t)"
  shows "roll_inv base limit W pid old (Some (n, i, x @ data)) q t"
proof -
  from assms(1) obtain f where f: "roll_file r = Some f" "opened s f i" "\<not> cf_error f" "stream s f i = x" "current_size r = length x"
    and n: "lookup s n = Some (File i)" and fl: "faultless (tape s)"
    by (auto simp: roll_inv_def current_def roll_ready_def)
  from Roll_Flush_fits [OF assms(3,2) f(1,2) fl] f(3) obtain g where
    g: "q = r\<lparr>roll_file := Some g, current_size := current_size r + length data\<rparr>" "streams i data f s g t" by metis
  have op: "opened t g i" using streams_opened [OF g(2)] f(2) by simp
  have "current q t (n, i, x @ data)"
    using g f n op fl only_appends_eqs(7) [of i s t n] by (auto simp: current_def streams_def)
  with roll_inv_appends [OF assms(1) _ _ this] g fl show ?thesis by (auto simp: streams_def)
qed

text \<open>Closing the open file and opening a new one.\<close>

lemma roll_close_step:
  assumes "roll_inv base limit W pid old (Some (n, i, x)) r s" "roll_file r = Some f" "run_state (fclose f) s = (ok, t)"
  shows "roll_ready base limit W pid r t" "list_all (kept_entry t) (old @ [(n, i, x)])" "distinct (map (\<lambda>(n, i, x). i) (old @ [(n, i, x)]))"
proof -
  from assms(1,2) have f: "opened s f i" "stream s f i = x" "faultless (tape s)"
    by (auto simp: roll_inv_def current_def roll_ready_def)
  from fclose_run [OF assms(3) f(1)] f(3) obtain u g where u: "streams i [] f s g u"
    "quiet (u\<lparr>fds := (fds u)(cf_fd f := None)\<rparr>) t" "unwritten g = []" "faultless (tape t)" by metis
  have ap: "only_appends i s u" "bytes (inodes u i) = x" using u f(2) by (simp_all add: streams_def stream_def)
  note eqs = only_appends_eqs [OF ap(1)]
  have t: "node t = node s" "inodes t = inodes u" "cwd t = cwd s" "next_ino t = next_ino s" "fds t = (fds s)(cf_fd f := None)" "next_fd t = next_fd s"
    using u(2) eqs by (auto simp: quiet_def silent_def)
  then have lk: "lookup t m = lookup s m" for m by (simp add: lookup_def key_def)
  show "roll_ready base limit W pid r t"
    using assms(1) u(4) t lk by (auto simp: roll_inv_def roll_ready_def dir_key_def fs_wf_def)
  have "kept_entry t e" if "e \<in> set old" for e
    using that assms(1) eqs(9) lk t(2) by (auto simp: roll_inv_def kept_entry_def list_all_iff image_iff) fastforce+
  moreover have "kept_entry t (n, i, x)" using assms(1) lk t(2) ap(2) by (auto simp: kept_entry_def roll_inv_def current_def)
  ultimately show "list_all (kept_entry t) (old @ [(n, i, x)])" by (simp add: list_all_iff)
  show "distinct (map (\<lambda>(n, i, x). i) (old @ [(n, i, x)]))" using assms(1) by (auto simp: roll_inv_def)
qed

lemma roll_open_step:
  assumes "roll_ready base limit W pid r s" "list_all (kept_entry s) old" "distinct (map (\<lambda>(n, i, x). i) old)" "roll_file r = None"
    and "now \<in> W"
  obtains p i q t where "run_state (open_next now pid r) s = ((True, q), t)" "fits q len" "roll_inv base limit W pid old (Some (p, i, [])) q t"
proof -
  let ?p = "base @ roll_suffix now pid (roll_seq r)"
  let ?q = "\<lambda>f. r\<lparr>roll_seq := roll_seq r + 1, roll_file := Some f, current_size := 0\<rparr>"
  note pl = roll_suffix_plain
  from assms(1) have rd: "basename r = base" "max_size r = limit" "NUL \<notin> set base" "faultless (tape s)" "fs_wf s"
    "node s (dir_key s base) = Some Dir" "\<And>w q. w \<in> W \<Longrightarrow> roll_seq r \<le> q \<Longrightarrow> lookup s (base @ roll_suffix w pid q) = None"
    by (auto simp: roll_ready_def)
  have lk: "lookup s ?p = None" "parent_exists s ?p" using rd(6,7) assms(5) parent_exists_suffix [OF rd(3) pl, of s] by auto
  obtain a u where a: "run_state (fopen_append ?p) s = (a, u)" by fastforce
  let ?f = "\<lparr>cf_fd = next_fd s, unwritten = [], cf_error = False\<rparr>"
  obtain ts where u: "a = Some ?f" "u = (create_at (key s ?p) (s\<lparr>tape := ts\<rparr>))
      \<lparr>fds := (fds s)(next_fd s \<mapsto> \<lparr>fd_ino = Some (next_ino s), fd_pos = 0\<rparr>), next_fd := next_fd s + 1\<rparr>" "faultless ts"
    by (rule fopen_append_run [OF a]) (use lk rd(4) in \<open>auto simp: target_def\<close>)
  have lku: "lookup u m = (if key s m = key s ?p \<and> c_str m \<noteq> [] then Some (File (next_ino s)) else lookup s m)" for m
    using u(2) by (auto simp: lookup_def key_def create_at_def)
  have nu: "lookup u ?p = Some (File (next_ino s))" "bytes (inodes u (next_ino s)) = []"
    using lku [of ?p] lk(2) u(2) by (auto simp: parent_exists_def create_at_def fresh_inode_def)
  obtain b v where v: "run_state next_outcome u = (b, v)" by fastforce
  have "faultless (tape u)" using u(2,3) by (simp add: create_at_def)
  with next_outcome_run [OF v] obtain ts' where ts': "v = u\<lparr>tape := ts'\<rparr>" "faultless ts'" "\<forall>e. b \<noteq> Fault e" by metis
  have "run_state (fs_file_size ?p) u = ((0, False), v)"
    using fs_file_size_run [OF v ts'(3)] ts'(1) nu by simp
  with a u(1) rd(1) have run: "run_state (open_next now pid r) s = ((True, ?q ?f), v)"
    by (simp add: open_next_def CreateFilename_def)
  have lkv: "lookup v m = lookup u m" for m by (simp add: ts'(1))
  have old_i: "inodes v i = inodes s i" if "i < next_ino s" for i using that by (simp add: ts'(1) u(2) create_at_def)
  have keep: "kept_entry v e \<and> fst (snd e) < next_ino s" if "e \<in> set old" for e
  proof -
    obtain n i x where e: "e = (n, i, x)" by (cases e)
    from that assms(2) e have k: "lookup s n = Some (File i)" "bytes (inodes s i) = x" by (auto simp: list_all_iff kept_entry_def)
    then have lt: "i < next_ino s" using rd(5) by (auto simp: fs_wf_def lookup_def split: if_splits)
    have "\<not> (key s n = key s ?p \<and> c_str n \<noteq> [])" using k(1) lk by (auto simp: lookup_def parent_exists_def split: if_splits)
    with k lku [of n] have "lookup v n = Some (File i)" by (auto simp: lkv)
    with k lt e old_i show ?thesis by (simp add: kept_entry_def)
  qed
  have "lookup v (base @ roll_suffix w pid q) = None" if "w \<in> W" "roll_seq r + 1 \<le> q" for w q
  proof -
    have "roll_suffix w pid q \<noteq> roll_suffix now pid (roll_seq r)" using roll_suffix_eq that by fastforce
    then have "key s (base @ roll_suffix w pid q) \<noteq> key s ?p" using key_suffix_eq_iff [OF rd(3) pl pl] by blast
    with lku rd(7) [of w q] that show ?thesis by (auto simp: lkv)
  qed
  moreover have "fs_wf v"
    using rd(5) u(2) ts'(1) key_suffix [OF rd(3) pl, of s now pid "roll_seq r"]
    by (auto simp: fs_wf_def create_at_def less_Suc_eq split: if_splits)
  moreover have "node v (dir_key v base) = Some Dir"
    using rd(6) u(2) ts'(1) key_suffix [OF rd(3) pl, of s now pid "roll_seq r"] by (auto simp: create_at_def dir_key_def)
  ultimately have "roll_ready base limit W pid (?q ?f) v"
    using rd ts' by (auto simp: roll_ready_def)
  moreover have "current (?q ?f) v (?p, next_ino s, [])"
    using nu by (simp add: current_def opened_def stream_def lkv) (simp add: ts'(1) u(2))
  ultimately have "roll_inv base limit W pid old (Some (?p, next_ino s, [])) (?q ?f) v"
    using keep assms(3) by (fastforce simp: roll_inv_def list_all_iff)
  with run show thesis by (intro that) (simp_all add: fits_def)
qed

lemma Roll_Flush_ensured:
  assumes "run_state (EnsureFile now pid (length data) r) s = ((True, q), t)" "fits q (length data)"
  shows "run_state (Roll_Flush conf now pid data r) s = run_state (Roll_Flush conf now pid data q) t"
  using assms by (simp add: Roll_Flush_def EnsureFile_def [of now pid "length data" q])

lemma roll_step:
  assumes "roll_inv base limit W pid old cur r s" "run_state (Roll_Flush conf now pid data r) s = (q, t)" "now \<in> W"
  shows "\<exists>old' e. roll_inv base limit W pid old' (Some e) q t \<and>
    texts (old' @ [e]) = roll_add limit (texts (old @ (case cur of None \<Rightarrow> [] | Some e \<Rightarrow> [e]))) data"
proof (cases "fits r (length data)")
  case True
  with assms(1) obtain n i x where cur: "cur = Some (n, i, x)" by (cases cur) (auto simp: roll_inv_def fits_def)
  from roll_fit_step [OF assms(1) [unfolded cur] True assms(2)] True assms(1) cur show ?thesis
    by (intro exI [of _ old] exI [of _ "(n, i, x @ data)"])
      (auto simp: roll_add_def texts_def fits_def roll_inv_def current_def roll_ready_def)
next
  case False
  let ?all = "old @ (case cur of None \<Rightarrow> [] | Some e \<Rightarrow> [e])" and ?r = "r\<lparr>roll_file := None\<rparr>"
  obtain ok u where u: "run_state (case roll_file r of None \<Rightarrow> give True | Some f \<Rightarrow> fclose f) s = (ok, u)" by fastforce
  have closed: "roll_ready base limit W pid ?r u \<and> list_all (kept_entry u) ?all \<and> distinct (map (\<lambda>(n, i, x). i) ?all)"
  proof (cases cur)
    case None
    with assms(1) u show ?thesis by (auto simp: roll_inv_def roll_ready_def)
  next
    case (Some e)
    obtain n i x where e: "e = (n, i, x)" by (cases e)
    from assms(1) Some obtain f where f: "roll_file r = Some f" by (auto simp: roll_inv_def current_def)
    with u have "run_state (fclose f) s = (ok, u)" by simp
    from roll_close_step [OF assms(1) [unfolded Some e] f this] Some e show ?thesis by (simp add: roll_ready_def)
  qed
  obtain p i r' v where v: "run_state (open_next now pid ?r) u = ((True, r'), v)" and ft: "fits r' (length data)"
    and inv: "roll_inv base limit W pid ?all (Some (p, i, [])) r' v"
    by (rule roll_open_step [of base limit W pid ?r u ?all now "length data"]) (use closed assms(3) in auto)
  with u False have "run_state (EnsureFile now pid (length data) r) s = ((True, r'), v)" by (simp add: EnsureFile_def)
  from Roll_Flush_ensured [OF this ft, of conf] assms(2) have run: "run_state (Roll_Flush conf now pid data r') v = (q, t)" by simp
  have "roll_inv base limit W pid ?all (Some (p, i, data)) q t"
    using roll_fit_step [OF inv ft run] by simp
  moreover have "texts (?all @ [(p, i, data)]) = roll_add limit (texts ?all) data"
    using False assms(1)
    by (auto simp: roll_add_def texts_def fits_def roll_inv_def current_def roll_ready_def split: option.splits)
  ultimately show ?thesis by blast
qed

text \<open>The writer thread flushes one buffer after the other.\<close>

fun Roll_Flushes :: "log_config option \<Rightarrow> nat \<Rightarrow> (stamp \<times> string) list \<Rightarrow> roll \<Rightarrow> ('z, roll) io" where
  "Roll_Flushes conf pid [] r = give r"
| "Roll_Flushes conf pid ((now, data) # xs) r = do { r \<leftarrow> Roll_Flush conf now pid data r; Roll_Flushes conf pid xs r }"

lemma roll_steps:
  assumes "roll_inv base limit W pid old cur r s" "run_state (Roll_Flushes conf pid xs r) s = (q, t)" "fst ` set xs \<subseteq> W"
  shows "\<exists>old' cur'. roll_inv base limit W pid old' cur' q t \<and>
    texts (old' @ (case cur' of None \<Rightarrow> [] | Some e \<Rightarrow> [e])) =
      foldl (roll_add limit) (texts (old @ (case cur of None \<Rightarrow> [] | Some e \<Rightarrow> [e]))) (map snd xs)"
  using assms
proof (induction xs arbitrary: old cur r s)
  case (Cons x xs)
  obtain now data where x: "x = (now, data)" by (cases x)
  obtain r' u where run: "run_state (Roll_Flush conf now pid data r) s = (r', u)" by fastforce
  with Cons.prems(2) x have rest: "run_state (Roll_Flushes conf pid xs r') u = (q, t)" by simp
  have "now \<in> W" "fst ` set xs \<subseteq> W" using Cons.prems(3) x by auto
  from roll_step [OF Cons.prems(1) run this(1)] obtain o1 e where
    "roll_inv base limit W pid o1 (Some e) r' u" "texts (o1 @ [e]) = roll_add limit (texts (old @ (case cur of None \<Rightarrow> [] | Some e \<Rightarrow> [e]))) data"
    by blast
  with Cons.IH [OF this(1) rest \<open>fst ` set xs \<subseteq> W\<close>] x show ?case by simp
qed auto

lemma stuck_run:
  assumes "roll_file r = Some f" "opened s f i" "cf_error f" "faultless (tape s)" "\<forall>x \<in> set xs. fits r (length (snd x))"
    "run_state (Roll_Flushes conf pid xs r) s = (q, t)"
  shows "\<exists>g. q = r\<lparr>roll_file := Some g\<rparr> \<and> cf_error g \<and> opened t g i \<and> stream t g i = stream s f i @ concat (map snd xs)"
  using assms
proof (induction xs arbitrary: r f s)
  case (Cons x xs)
  obtain now data where x: "x = (now, data)" by (cases x)
  obtain r' u where run: "run_state (Roll_Flush conf now pid data r) s = (r', u)" by fastforce
  with Cons.prems(6) x have rest: "run_state (Roll_Flushes conf pid xs r') u = (q, t)" by simp
  have ft: "fits r (length data)" using Cons.prems(5) x by simp
  obtain g where g0: "r' = r\<lparr>roll_file := Some g, current_size := (if cf_error f then current_size r else current_size r + length data)\<rparr>"
    "streams i data f s g u" by (rule Roll_Flush_fits [OF run ft Cons.prems(1,2,4)])
  then have g: "r' = r\<lparr>roll_file := Some g\<rparr>" "streams i data f s g u" using Cons.prems(3) by (cases r; simp)+
  have "roll_file r' = Some g" "opened u g i" "cf_error g" "faultless (tape u)" "\<forall>x \<in> set xs. fits r' (length (snd x))"
    using g Cons.prems streams_opened [OF g(2)] by (auto simp: streams_def fits_def)
  from Cons.IH [OF this rest] g x show ?case by (auto simp: streams_def)
next
  case Nil
  then show ?case by (intro exI [of _ f]) (auto intro: roll.equality)
qed

subsection \<open>Properties\<close>

text \<open>C11. Rolling splits the log into files of limited size and loses nothing. While no system call fails, and if the base name has no NUL, its directory
  is there and none of the names exists that this process can make at the moments of the flushes (names carry the time to
  the microsecond, the process number and a sequence number, so the files of earlier runs are allowed), then, whatever buffers are
  flushed: the texts of the files the flusher has made, in order, are exactly what the rule \<open>roll_add\<close> prescribes, so
  they join to everything flushed and none is longer than the limit unless it is a single buffer that is;
  the files are pairwise different, the closed ones are on disk, and the last is the one that is open.\<close>

theorem rolled_files_bounded:
  assumes "r = \<lparr>max_size = limit, basename = base, current_size = 0, roll_seq = 1, roll_file = None\<rparr>"
    and "roll_ready base limit (fst ` set xs) pid r s" and "run_state (Roll_Flushes conf pid xs r) s = (q, t)"
  shows "\<exists>files. texts files = foldl (roll_add limit) [] (map snd xs) \<and> concat (texts files) = concat (map snd xs) \<and>
    (\<forall>x \<in> set (texts files). length x \<le> limit \<or> x \<in> set (map snd xs)) \<and> distinct (map (\<lambda>(n, i, x). i) files) \<and>
    list_all (kept_entry t) (butlast files) \<and> (files \<noteq> [] \<longrightarrow> current q t (last files))"
proof -
  let ?W = "fst ` set xs"
  have "roll_inv base limit ?W pid [] None r s" using assms(1,2) by (simp add: roll_inv_def)
  from roll_steps [OF this assms(3) subset_refl] obtain old cur where inv: "roll_inv base limit ?W pid old cur q t"
    and tx: "texts (old @ (case cur of None \<Rightarrow> [] | Some e \<Rightarrow> [e])) = foldl (roll_add limit) [] (map snd xs)"
    by (auto simp: texts_def)
  let ?files = "old @ (case cur of None \<Rightarrow> [] | Some e \<Rightarrow> [e])"
  have "distinct (map (\<lambda>(n, i, x). i) ?files)" "list_all (kept_entry t) (butlast ?files)" "?files \<noteq> [] \<longrightarrow> current q t (last ?files)"
    using inv by (cases cur; force simp: roll_inv_def)+
  with tx show ?thesis
    using roll_add_all [of limit "[]" "map snd xs"] roll_all_bounded [of "[]" limit "set (map snd xs)" "map snd xs"]
    by (intro exI [of _ ?files]) auto
qed

text \<open>C35. After one write error the limit is no longer kept. \<open>WriteAll\<close> reports the error flag of the stream, which stays set, so
  every later flush counts as failed and \<open>current_size_\<close> is never updated: all buffers that fit beside the stale size
  go to the same file, without end.\<close>

theorem roll_error_sticks:
  assumes "roll_file r = Some f" and "opened s f i" and "cf_error f" and "faultless (tape s)"
    and "\<forall>x \<in> set xs. fits r (length (snd x))" and "run_state (Roll_Flushes conf pid xs r) s = (q, t)"
  shows "\<exists>g. roll_file q = Some g \<and> roll_seq q = roll_seq r \<and> current_size q = current_size r \<and>
    stream t g i = stream s f i @ concat (map snd xs)"
  using stuck_run [OF assms] by auto

subsection \<open>Examples\<close>

definition new_year :: stamp where
  "new_year = \<lparr>local_time = sample_tm 6, micros = 42\<rparr>"

definition roll_start :: roll where
  "roll_start = \<lparr>max_size = 4, basename = ''/l'', current_size = 0, roll_seq = 1, roll_file = None\<rparr>"

lemma roll_start_ready: "roll_ready ''/l'' 4 W pid roll_start (boot [] ts [])" if "faultless ts"
proof -
  have k: "key (boot [] ts []) (''/l'' @ roll_suffix w pid q) = [''l'' @ roll_suffix w pid q]" for w pid q
    using key_suffix [OF _ roll_suffix_plain, of "''/l''" "boot [] ts []"] by (simp add: dir_key_def is_absolute_def)
  then have "lookup (boot [] ts []) (''/l'' @ roll_suffix w pid q) = None" for w pid q
    by (simp add: lookup_def boot_def)
  with that show ?thesis
    by (simp add: roll_ready_def roll_start_def dir_key_def is_absolute_def) (simp add: boot_def fs_wf_def)
qed

lemma rolled_files_bounded_witness:
  "\<exists>q t files. run_state (Roll_Flushes (Some shipped_log) 7 [(new_year, ''abc''), (new_year, ''d''), (new_year, ''ef'')] roll_start)
     (boot [] [] []) = (q, t) \<and> texts files = [''abcd'', ''ef''] \<and> list_all (kept_entry t) (butlast files)"
proof -
  let ?xs = "[(new_year, ''abc''), (new_year, ''d''), (new_year, ''ef'')]"
  obtain q t where r: "run_state (Roll_Flushes (Some shipped_log) 7 ?xs roll_start) (boot [] [] []) = (q, t)" by fastforce
  have "foldl (roll_add 4) [] (map snd ?xs) = [''abcd'', ''ef'']" by (simp add: roll_add_def)
  with rolled_files_bounded [OF roll_start_def roll_start_ready r] r show ?thesis by (metis faultless_simps(1))
qed

text \<open>The disk is full once, during the first flush.\<close>

definition full_once :: os where
  "full_once = boot [] [Done, Done, Fault ENOSPC] []"

lemma full_once_runs:
  "\<exists>r s f. run_state (Roll_Flush None new_year 7 ''ab'' roll_start) full_once = (r, s) \<and> roll_file r = Some f \<and> opened s f 0 \<and>
     cf_error f \<and> tape s = [] \<and> current_size r = 0 \<and> max_size r = 4 \<and> stream s f 0 = []"
proof -
  let ?p = "''/l'' @ roll_suffix new_year 7 1"
  have b: "NUL \<notin> set ''/l''" by simp
  have p: "lookup full_once ?p = None" "parent_exists full_once ?p" "key full_once ?p = [''l'' @ roll_suffix new_year 7 1]"
    unfolding lookup_suffix [OF b roll_suffix_plain] parent_exists_suffix [OF b roll_suffix_plain] key_suffix [OF b roll_suffix_plain]
    by (simp_all add: dir_key_def is_absolute_def) (simp_all add: full_once_def boot_def)
  have t: "tape full_once = [Done, Done, Fault ENOSPC]" "next_ino full_once = 0" "next_fd full_once = 3" "fds full_once = Map.empty"
    by (simp_all add: full_once_def boot_def)
  let ?s1 = "(create_at (key full_once ?p) (full_once\<lparr>tape := [Done, Fault ENOSPC]\<rparr>))
    \<lparr>fds := [3 \<mapsto> \<lparr>fd_ino = Some 0, fd_pos = 0\<rparr>], next_fd := 4\<rparr>"
  let ?f = "\<lparr>cf_fd = 3, unwritten = [], cf_error = False\<rparr>"
  let ?s2 = "?s1\<lparr>tape := [Fault ENOSPC]\<rparr>"
  let ?s3 = "?s2\<lparr>tape := [], errno := ENOSPC\<rparr>"
  let ?r = "roll_start\<lparr>roll_seq := 2, roll_file := Some ?f, current_size := 0\<rparr>"
  have 1: "run_state (fopen_append ?p) full_once = (Some ?f, ?s1)"
    unfolding fopen_append_def syscall_def next_outcome_def using p t by (simp add: new_fd_def create_at_def)
  have "lookup ?s2 ?p = Some (File 0)"
    using p(2,3) t by (auto simp: lookup_def parent_exists_def create_at_def key_def)
  with fs_file_size_run [of ?s1 Done ?s2 ?p 0] have 2: "run_state (fs_file_size ?p) ?s1 = ((0, False), ?s2)"
    by (simp add: next_outcome_def create_at_def fresh_inode_def t)
  have 3: "run_state (fwrite ?f ''ab'') ?s2 = ((0, ?f\<lparr>cf_error := True\<rparr>), ?s3)"
    by (simp add: fwrite_def next_outcome_def before_failure_def set_errno_def take_in_def create_at_def)
  have 4: "run_state (WriteAll (Some ?f) ''ab'') ?s2 = ((False, Some (?f\<lparr>cf_error := True\<rparr>)), ?s3)"
    using 3 by (simp add: WriteAll_def fwrite_loop.simps [of _ _ 0])
  have 5: "run_state (open_next new_year 7 roll_start) full_once = ((True, ?r), ?s2)"
    unfolding open_next_def CreateFilename_def using 1 2 by (simp add: roll_start_def)
  have "run_state (Roll_Flush None new_year 7 ''ab'' roll_start) full_once = (?r\<lparr>roll_file := Some (?f\<lparr>cf_error := True\<rparr>)\<rparr>, ?s3)"
    unfolding Roll_Flush_def EnsureFile_def using 4 5 by (simp add: roll_start_def fits_def)
  then show ?thesis
    by (intro exI [of _ "?r\<lparr>roll_file := Some (?f\<lparr>cf_error := True\<rparr>)\<rparr>"] exI [of _ ?s3] exI [of _ "?f\<lparr>cf_error := True\<rparr>"])
      (simp add: opened_def stream_def create_at_def fresh_inode_def roll_start_def t)
qed

text \<open>Then three buffers of four bytes each end up in one file that should not exceed four.\<close>

lemma roll_error_sticks_witness:
  "\<exists>r s q t g. run_state (Roll_Flush None new_year 7 ''ab'' roll_start) full_once = (r, s) \<and>
     run_state (Roll_Flushes None 7 [(new_year, ''abcd''), (new_year, ''efgh''), (new_year, ''ijkl'')] r) s = (q, t) \<and>
     roll_file q = Some g \<and> max_size q = 4 \<and> stream t g 0 = ''abcdefghijkl''"
proof -
  obtain r s f where r: "run_state (Roll_Flush None new_year 7 ''ab'' roll_start) full_once = (r, s)" "roll_file r = Some f"
    "opened s f 0" "cf_error f" "tape s = []" "current_size r = 0" "max_size r = 4" "stream s f 0 = []"
    using full_once_runs by blast
  let ?xs = "[(new_year, ''abcd''), (new_year, ''efgh''), (new_year, ''ijkl'')]"
  obtain q t where q: "run_state (Roll_Flushes None 7 ?xs r) s = (q, t)" by fastforce
  have ft: "\<forall>x \<in> set ?xs. fits r (length (snd x))" using r(2,6) by (simp add: fits_def)
  have fl: "faultless (tape s)" using r(5) by simp
  obtain g where g: "roll_file q = Some g" "stream t g 0 = stream s f 0 @ concat (map snd ?xs)"
    using roll_error_sticks [OF r(2-4) fl ft q] by blast
  have "max_size q = 4" using stuck_run [OF r(2-4) fl ft q] r(7) by auto
  with r(1,8) q g show ?thesis by force
qed

end
