(* ===== verification/Sockets.thy ===== *)
theory Sockets
  imports Effects
begin

text \<open>
  The socket calls of the backup client. The environment decides each call in advance, as in the model of the file system: it
  works, fails with an error number, transfers so many bytes, or, for the pending error of a socket, reports one.
  Once the list of replies is used up every call works. A socket records what the client has done to
  it, so that the bytes the kernel accepted for sending stay visible after \<open>close\<close>.
\<close>

datatype net_errno = E_INTR | E_INPROGRESS | E_TIMEDOUT | E_REFUSED | E_PIPE | E_AGAIN | E_MFILE | E_INVAL

datatype reply = Works | Fails net_errno | Transfers nat | Pending net_errno

record sock =
  is_open :: bool
  nonblocking :: bool
  connected :: bool
  send_timeout :: "(int \<times> int) option"
  outbox :: string
  write_shut :: bool

record net =
  replies :: "reply list"
  net_errno :: net_errno
  socks :: "nat \<Rightarrow> sock option"
  next_sock :: nat

type_synonym 'a net_io = "(net, 'a) state"

definition fresh_sock :: sock where
  "fresh_sock = \<lparr>is_open = True, nonblocking = False, connected = False, send_timeout = None, outbox = [], write_shut = False\<rparr>"

definition next_reply :: "reply net_io" where
  "next_reply = State (\<lambda>n. case replies n of [] \<Rightarrow> (Works, n) | r # rs \<Rightarrow> (r, n\<lparr>replies := rs\<rparr>))"

definition net_fail :: "net_errno \<Rightarrow> 'a \<Rightarrow> 'a net_io" where
  "net_fail e a = State (\<lambda>n. (a, n\<lparr>net_errno := e\<rparr>))"

definition get_net_errno :: "net_errno net_io" where
  "get_net_errno = gets net_errno"

definition set_net_errno :: "net_errno \<Rightarrow> unit net_io" where
  "set_net_errno e = modify (\<lambda>n. n\<lparr>net_errno := e\<rparr>)"

text \<open>A call on socket \<open>fd\<close> that has no result but success.\<close>

definition on_sock :: "nat \<Rightarrow> (sock \<Rightarrow> sock) \<Rightarrow> net \<Rightarrow> net" where
  "on_sock fd f n = n\<lparr>socks := (socks n)(fd := map_option f (socks n fd))\<rparr>"

definition sock_call :: "nat \<Rightarrow> (sock \<Rightarrow> sock) \<Rightarrow> bool net_io" where
  "sock_call fd f = do {
     r \<leftarrow> next_reply;
     case r of Fails e \<Rightarrow> net_fail e False | _ \<Rightarrow> do { modify (on_sock fd f); give True } }"

definition socket :: "nat option net_io" where
  "socket = do {
     r \<leftarrow> next_reply;
     case r of
       Fails e \<Rightarrow> net_fail e None
     | _ \<Rightarrow> State (\<lambda>n. (Some (next_sock n), n\<lparr>socks := (socks n)(next_sock n \<mapsto> fresh_sock), next_sock := next_sock n + 1\<rparr>)) }"

definition setsockopt_sndtimeo :: "nat \<Rightarrow> int \<times> int \<Rightarrow> bool net_io" where
  "setsockopt_sndtimeo fd tv = sock_call fd (\<lambda>k. k\<lparr>send_timeout := Some tv\<rparr>)"

text \<open>Of the file status flags only \<^verbatim>\<open>O_NONBLOCK\<close> plays a part.\<close>

definition fcntl_getfl :: "nat \<Rightarrow> bool option net_io" where
  "fcntl_getfl fd = do {
     r \<leftarrow> next_reply;
     case r of
       Fails e \<Rightarrow> net_fail e None
     | _ \<Rightarrow> gets (\<lambda>n. Some (case socks n fd of None \<Rightarrow> False | Some k \<Rightarrow> nonblocking k)) }"

definition fcntl_setfl :: "nat \<Rightarrow> bool \<Rightarrow> bool net_io" where
  "fcntl_setfl fd nb = sock_call fd (\<lambda>k. k\<lparr>nonblocking := nb\<rparr>)"

definition connect :: "nat \<Rightarrow> bool net_io" where
  "connect fd = sock_call fd (\<lambda>k. k\<lparr>connected := True\<rparr>)"

text \<open>\<open>poll\<close> for writing: the number of ready descriptors, or a negative number.\<close>

definition poll :: "nat \<Rightarrow> int \<Rightarrow> int net_io" where
  "poll fd timeout_ms = do {
     r \<leftarrow> next_reply;
     case r of Fails e \<Rightarrow> net_fail e (-1) | Transfers 0 \<Rightarrow> give 0 | _ \<Rightarrow> give 1 }"

text \<open>\<^verbatim>\<open>SO_ERROR\<close> of a socket whose connection was under way: no error means it is established.\<close>

definition getsockopt_error :: "nat \<Rightarrow> net_errno option option net_io" where
  "getsockopt_error fd = do {
     r \<leftarrow> next_reply;
     case r of
       Fails e \<Rightarrow> net_fail e None
     | Pending e \<Rightarrow> give (Some (Some e))
     | _ \<Rightarrow> do { modify (on_sock fd (\<lambda>k. k\<lparr>connected := True\<rparr>)); give (Some None) } }"

definition send :: "nat \<Rightarrow> string \<Rightarrow> int net_io" where
  "send fd data = do {
     r \<leftarrow> next_reply;
     case r of
       Fails e \<Rightarrow> net_fail e (-1)
     | _ \<Rightarrow> (let len = (case r of Transfers m \<Rightarrow> min m (length data) | _ \<Rightarrow> length data) in do {
         modify (on_sock fd (\<lambda>k. k\<lparr>outbox := outbox k @ take len data\<rparr>));
         give (int len) }) }"

definition shutdown_write :: "nat \<Rightarrow> bool net_io" where
  "shutdown_write fd = sock_call fd (\<lambda>k. k\<lparr>write_shut := True\<rparr>)"

text \<open>\<open>close\<close> releases the descriptor whatever it reports.\<close>

definition close_sock :: "nat \<Rightarrow> bool net_io" where
  "close_sock fd = do {
     modify (on_sock fd (\<lambda>k. k\<lparr>is_open := False\<rparr>));
     r \<leftarrow> next_reply;
     case r of Fails e \<Rightarrow> net_fail e False | _ \<Rightarrow> give True }"

subsection \<open>What the calls leave alone\<close>

text \<open>Only socket \<open>fd\<close> may change, it stays open, and it gets no new data.\<close>

definition sock_step :: "nat \<Rightarrow> net \<Rightarrow> net \<Rightarrow> bool" where
  "sock_step fd n m \<longleftrightarrow> next_sock m = next_sock n \<and> length (replies m) \<le> length (replies n) \<and> (\<forall>j. j \<noteq> fd \<longrightarrow> socks m j = socks n j) \<and>
     (\<forall>k. socks n fd = Some k \<longrightarrow> (\<exists>k'. socks m fd = Some k' \<and> is_open k' = is_open k \<and> outbox k' = outbox k))"

interpretation sk: effect_relation "sock_step fd" for fd
proof unfold_locales
  show "sock_step fd s s" for s by (simp add: sock_step_def)
  show "sock_step fd s u" if "sock_step fd s t" "sock_step fd t u" for s t u
    using that unfolding sock_step_def by (intro conjI; fastforce)
qed

lemma sk_reply: "state_io_rel (sock_step fd) next_reply"
  by (auto simp: state_io_rel_def next_reply_def sock_step_def split: list.split)

lemma sk_fail: "state_io_rel (sock_step fd) (net_fail e a)"
  by (simp add: state_io_rel_def net_fail_def sock_step_def)

lemma sk_set_errno: "state_io_rel (sock_step fd) (set_net_errno e)"
  by (simp add: state_io_rel_def set_net_errno_def sock_step_def)

lemma sk_on_sock:
  "(\<And>k. is_open (f k) = is_open k) \<Longrightarrow> (\<And>k. outbox (f k) = outbox k) \<Longrightarrow> state_io_rel (sock_step fd) (modify (on_sock fd f))"
  by (auto simp: state_io_rel_def sock_step_def on_sock_def)

lemma sk_case_reply:
  "(\<And>e. state_io_rel R (f e)) \<Longrightarrow> (\<And>m. state_io_rel R (h m)) \<Longrightarrow> (\<And>e. state_io_rel R (p e)) \<Longrightarrow> state_io_rel R g \<Longrightarrow>
     state_io_rel R (case r of Works \<Rightarrow> g | Fails e \<Rightarrow> f e | Transfers m \<Rightarrow> h m | Pending e \<Rightarrow> p e)"
  by (cases r) simp_all

lemma sk_case_nat: "state_io_rel R f \<Longrightarrow> (\<And>m. state_io_rel R (g m)) \<Longrightarrow> state_io_rel R (case m of 0 \<Rightarrow> f | Suc m \<Rightarrow> g m)"
  by (cases m) simp_all

lemmas sk_rules = sk.rel_rules sk_reply sk_fail sk_set_errno sk_case_reply sk_case_nat

lemma sk_sock_call:
  "(\<And>k. is_open (f k) = is_open k) \<Longrightarrow> (\<And>k. outbox (f k) = outbox k) \<Longrightarrow> state_io_rel (sock_step fd) (sock_call fd f)"
  unfolding sock_call_def by (intro sk_rules sk_on_sock)

lemma sk_calls:
  "state_io_rel (sock_step fd) (setsockopt_sndtimeo fd tv)" "state_io_rel (sock_step fd) (fcntl_getfl fd)"
  "state_io_rel (sock_step fd) (fcntl_setfl fd nb)" "state_io_rel (sock_step fd) (connect fd)"
  "state_io_rel (sock_step fd) (poll fd ms)" "state_io_rel (sock_step fd) (getsockopt_error fd)"
  "state_io_rel (sock_step fd) (shutdown_write fd)" "state_io_rel (sock_step fd) get_net_errno"
  unfolding setsockopt_sndtimeo_def fcntl_getfl_def fcntl_setfl_def connect_def poll_def getsockopt_error_def shutdown_write_def get_net_errno_def
  by (intro sk_rules sk_sock_call sk_on_sock; simp)+

end
