(* ===== verification/Backup_Client.thy ===== *)
theory Backup_Client
  imports Sockets Log_Config
begin

text \<open>
  \<^verbatim>\<open>src/log_system/logs_code/backlog/CliBackupLog.hpp\<close>: sending one message to the backup server. Whether a text is an IPv4 address
  (\<^verbatim>\<open>inet_pton\<close>) is a parameter. The lemmas hold for every sequence of failures, interruptions and short transfers.
\<close>

subsection \<open>Connecting\<close>

lemma poll_tape:
  assumes "run_state (poll fd ms) n = (r, m)" "r < 0"
  shows "length (replies m) < length (replies n)"
  using assms by (auto simp: poll_def next_reply_def net_fail_def split: list.splits reply.splits nat.splits)

function poll_loop :: "nat \<Rightarrow> int \<Rightarrow> net \<Rightarrow> int \<times> net" where
  "poll_loop fd ms n = (case run_state (poll fd ms) n of
     (r, m) \<Rightarrow> if r < 0 \<and> net_errno m = E_INTR then poll_loop fd ms m else (r, m))"
  by auto

termination
  by (relation "measure (\<lambda>(fd, ms, n). length (replies n))") (auto dest: poll_tape [OF sym])

declare poll_loop.simps [simp del]

text \<open>The flags are put back after a failure that has an error number to keep.\<close>

definition restore_and_fail :: "nat \<Rightarrow> bool \<Rightarrow> net_errno \<Rightarrow> bool net_io" where
  "restore_and_fail fd old saved = do { fcntl_setfl fd old; set_net_errno saved; give False }"

text \<open>What follows when the connection is being established in the background.\<close>

definition finish_connect :: "nat \<Rightarrow> bool \<Rightarrow> int \<Rightarrow> bool net_io" where
  "finish_connect fd old ms = do {
     result \<leftarrow> State (poll_loop fd ms);
     if result \<le> 0 then do {
       e \<leftarrow> get_net_errno;
       restore_and_fail fd old (if result = 0 then E_TIMEDOUT else e) }
     else do {
       q \<leftarrow> getsockopt_error fd;
       case q of
         None \<Rightarrow> do { e \<leftarrow> get_net_errno; restore_and_fail fd old e }
       | Some socket_error \<Rightarrow> do {
           ok \<leftarrow> fcntl_setfl fd old;
           if \<not> ok then give False
           else (case socket_error of
             Some e \<Rightarrow> do { set_net_errno e; give False }
           | None \<Rightarrow> give True) } } }"

definition ConnectWithTimeout :: "nat \<Rightarrow> int \<Rightarrow> bool net_io" where
  "ConnectWithTimeout fd ms = do {
     old \<leftarrow> fcntl_getfl fd;
     case old of
       None \<Rightarrow> give False
     | Some old \<Rightarrow> do {
         ok \<leftarrow> fcntl_setfl fd True;
         if \<not> ok then give False
         else do {
           result \<leftarrow> connect fd;
           if result then fcntl_setfl fd old
           else do {
             e \<leftarrow> get_net_errno;
             if e \<noteq> E_INPROGRESS then restore_and_fail fd old e
             else finish_connect fd old ms } } } }"

subsection \<open>Sending\<close>

lemma send_tape:
  assumes "run_state (send fd data) n = (r, m)"
  shows "r < 0 \<Longrightarrow> length (replies m) < length (replies n)" "length (replies m) \<le> length (replies n)" "r \<le> int (length data)"
  using assms by (auto simp: send_def next_reply_def net_fail_def on_sock_def Let_def split: list.splits reply.splits)

function send_loop :: "nat \<Rightarrow> string \<Rightarrow> nat \<Rightarrow> net \<Rightarrow> bool \<times> net" where
  "send_loop fd payload sofar n =
     (if sofar < length payload then
        (case run_state (send fd (drop sofar payload)) n of
           (sent, m) \<Rightarrow>
             if sent < 0 \<and> net_errno m = E_INTR then send_loop fd payload sofar m
             else if sent \<le> 0 then (False, m)
             else send_loop fd payload (sofar + nat sent) m)
      else (True, n))"
  by auto

termination
proof (relation "measure (\<lambda>(fd, payload, sofar, n). length (replies n) + (length payload - sofar))", goal_cases)
  case (2 fd payload sofar n sent m)
  with send_tape(1) [of fd "drop sofar payload" n sent m] show ?case by simp
next
  case (3 fd payload sofar n sent m)
  with send_tape(2) [of fd "drop sofar payload" n sent m] show ?case by simp
qed simp

declare send_loop.simps [simp del]

text \<open>The timeout option takes seconds and microseconds.\<close>

definition timeval :: "int \<Rightarrow> int \<times> int" where
  "timeval ms = (ms div 1000, (ms mod 1000) * 1000)"

definition backup_payload :: "log_config \<Rightarrow> string \<Rightarrow> string" where
  "backup_payload c message = (if backup_token c \<noteq> [] then backup_token c @ [LF] @ message else message)"

fun attempts :: "log_config \<Rightarrow> string \<Rightarrow> nat \<Rightarrow> bool net_io" where
  "attempts c payload 0 = give False"
| "attempts c payload (Suc left) = do {
     fd \<leftarrow> socket;
     case fd of
       None \<Rightarrow> give False
     | Some fd \<Rightarrow> do {
         ok \<leftarrow> setsockopt_sndtimeo fd (timeval (backup_send_timeout_ms c));
         if \<not> ok then do { close_sock fd; give False }
         else do {
           ok \<leftarrow> ConnectWithTimeout fd (backup_connect_timeout_ms c);
           if \<not> ok then do { close_sock fd; attempts c payload left }
           else do {
             success \<leftarrow> State (send_loop fd payload 0);
             shutdown_write fd;
             close_sock fd;
             if success then give True else attempts c payload left } } } }"

definition backup_Start :: "(string \<Rightarrow> bool) \<Rightarrow> log_config option \<Rightarrow> string \<Rightarrow> bool net_io" where
  "backup_Start is_ipv4 conf message = (case conf of
     None \<Rightarrow> give True
   | Some c \<Rightarrow>
       if \<not> backup_enabled c then give True
       else if \<not> is_ipv4 (c_str (backup_addr c)) then give False
       else attempts c (backup_payload c message) (nat (backup_retries c)))"

subsection \<open>Connecting, for every behaviour of the network\<close>

lemma poll_loop_run: "poll_loop fd ms n = (r, m) \<Longrightarrow> sock_step fd n m"
proof (induction fd ms n arbitrary: r m rule: poll_loop.induct)
  case (1 fd ms n)
  obtain x k where p: "run_state (poll fd ms) n = (x, k)" by fastforce
  have s: "sock_step fd n k" using sk.rel_final [OF sk_calls(5), of fd n ms] p by (simp add: final_def)
  from 1(2) p have "(if x < 0 \<and> net_errno k = E_INTR then poll_loop fd ms k else (x, k)) = (r, m)"
    by (simp add: poll_loop.simps [of fd ms n])
  then show ?case using 1(1) [OF p [symmetric]] s sk.trans by (auto split: if_splits)
qed

lemma sk_poll_loop: "state_io_rel (sock_step fd) (State (poll_loop fd ms))"
  unfolding state_io_rel_def by (simp add: poll_loop_run [OF surjective_pairing])

lemma sk_ConnectWithTimeout: "state_io_rel (sock_step fd) (ConnectWithTimeout fd ms)"
  unfolding ConnectWithTimeout_def finish_connect_def restore_and_fail_def
  by (intro sk_rules sk_calls sk_poll_loop)

text \<open>The effect of each call on the sockets.\<close>

lemma sock_call_run:
  "run_state (sock_call fd f) n = (ok, m) \<Longrightarrow> socks m = (if ok then (socks n)(fd := map_option f (socks n fd)) else socks n)"
  by (auto simp: sock_call_def next_reply_def net_fail_def on_sock_def split: list.splits reply.splits)

lemma getfl_run:
  "run_state (fcntl_getfl fd) n = (r, m) \<Longrightarrow>
     socks m = socks n \<and> (r = None \<or> r = Some (case socks n fd of None \<Rightarrow> False | Some k \<Rightarrow> nonblocking k))"
  by (auto simp: fcntl_getfl_def next_reply_def net_fail_def split: list.splits reply.splits)

lemma poll_run: "run_state (poll fd ms) n = (r, m) \<Longrightarrow> socks m = socks n"
  by (auto simp: poll_def next_reply_def net_fail_def split: list.splits reply.splits nat.splits)

lemma poll_loop_socks: "socks (snd (poll_loop fd ms n)) = socks n"
proof (induction fd ms n rule: poll_loop.induct)
  case (1 fd ms n)
  obtain x k where p: "run_state (poll fd ms) n = (x, k)" by fastforce
  then show ?case using 1 [OF p [symmetric]] poll_run [OF p] by (simp add: poll_loop.simps [of fd ms n])
qed

lemma getsockopt_run:
  "run_state (getsockopt_error fd) n = (r, m) \<Longrightarrow>
     socks m = (if r = Some None then (socks n)(fd := map_option (\<lambda>k. k\<lparr>connected := True\<rparr>) (socks n fd)) else socks n)"
  by (auto simp: getsockopt_error_def next_reply_def net_fail_def on_sock_def split: list.splits reply.splits)

lemmas call_runs = sock_call_run [where f = "\<lambda>k. k\<lparr>nonblocking := b\<rparr>" for b] sock_call_run [where f = "\<lambda>k. k\<lparr>connected := True\<rparr>"]
  getfl_run getsockopt_run

lemma finish_connect_ok:
  assumes "run_state (finish_connect fd old ms) n = (True, m)" "socks n fd = Some k"
  shows "\<exists>k'. socks m fd = Some k' \<and> connected k' \<and> nonblocking k' = old"
proof -
  obtain r u where p: "poll_loop fd ms n = (r, u)" by fastforce
  with poll_loop_socks [of fd ms n] assms(2) have u: "socks u fd = Some k" by simp
  obtain q v where q: "run_state (getsockopt_error fd) u = (q, v)" by fastforce
  obtain ok w where w: "run_state (fcntl_setfl fd old) v = (ok, w)" by fastforce
  have "ok \<and> q = Some None \<and> socks m = socks w"
    using assms(1) p q w
    by (auto simp: finish_connect_def restore_and_fail_def get_net_errno_def split: if_splits option.splits prod.splits)
  with u getsockopt_run [OF q] sock_call_run [OF w [unfolded fcntl_setfl_def]] show ?thesis by auto
qed

text \<open>When it reports success the socket is connected and blocking as before.\<close>

lemma ConnectWithTimeout_ok:
  assumes "run_state (ConnectWithTimeout fd ms) n = (True, m)" "socks n fd = Some k"
  shows "\<exists>k'. socks m fd = Some k' \<and> connected k' \<and> nonblocking k' = nonblocking k"
proof -
  obtain o1 a where a: "run_state (fcntl_getfl fd) n = (o1, a)" by fastforce
  obtain ok b where b: "run_state (fcntl_setfl fd True) a = (ok, b)" by fastforce
  obtain c d where c: "run_state (connect fd) b = (c, d)" by fastforce
  from assms(1) a have o1: "o1 = Some (nonblocking k)"
    using getfl_run [OF a] assms(2) by (auto simp: ConnectWithTimeout_def split: option.splits)
  have sa: "socks a fd = Some k" using getfl_run [OF a] assms(2) by simp
  have ok: "ok" using assms(1) a b o1 by (auto simp: ConnectWithTimeout_def split: if_splits)
  have sb: "socks b fd = Some (k\<lparr>nonblocking := True\<rparr>)" using sock_call_run [OF b [unfolded fcntl_setfl_def]] ok sa by simp
  note sd = sock_call_run [OF c [unfolded connect_def]]
  show ?thesis
  proof (cases c)
    case True
    with assms(1) a b c o1 ok have f: "run_state (fcntl_setfl fd (nonblocking k)) d = (True, m)"
      by (simp add: ConnectWithTimeout_def)
    from sock_call_run [OF f [unfolded fcntl_setfl_def]] sd sb True show ?thesis by simp
  next
    case False
    with assms(1) a b c o1 ok have "run_state (finish_connect fd (nonblocking k) ms) d = (True, m)"
      by (auto simp: ConnectWithTimeout_def restore_and_fail_def get_net_errno_def split: if_splits prod.splits)
    from finish_connect_ok [OF this, of "k\<lparr>nonblocking := True\<rparr>"] sd sb False show ?thesis by simp
  qed
qed

subsection \<open>Sending, for every behaviour of the network\<close>

lemma send_run:
  assumes "run_state (send fd data) n = (r, m)" "socks n fd = Some k"
  shows "socks m = (socks n)(fd \<mapsto> k\<lparr>outbox := outbox k @ take (nat r) data\<rparr>)" "next_sock m = next_sock n" "r \<le> int (length data)"
  using assms by (auto simp: send_def next_reply_def net_fail_def on_sock_def Let_def fun_eq_iff split: list.splits reply.splits)

lemma send_loop_run:
  assumes "send_loop fd payload sofar n = (ok, m)" "socks n fd = Some k" "outbox k = take sofar payload" "sofar \<le> length payload"
  shows "\<exists>x. socks m = (socks n)(fd \<mapsto> k\<lparr>outbox := take x payload\<rparr>) \<and> next_sock m = next_sock n \<and> x \<le> length payload \<and>
    (ok \<longleftrightarrow> x = length payload)"
  using assms
proof (induction fd payload sofar n arbitrary: ok m k rule: send_loop.induct)
  case (1 fd payload sofar n)
  show ?case
  proof (cases "sofar < length payload")
    case False
    with 1(3) have m: "ok" "m = n" by (auto simp: send_loop.simps)
    from False 1(5,6) have "k\<lparr>outbox := take sofar payload\<rparr> = k" by simp
    with m False 1(4,6) show ?thesis by (intro exI [of _ sofar]) (auto simp: fun_eq_iff)
  next
    case True
    obtain r u where s: "run_state (send fd (drop sofar payload)) n = (r, u)" by fastforce
    note sr = send_run [OF s 1(4)]
    let ?k = "k\<lparr>outbox := outbox k @ take (nat r) (drop sofar payload)\<rparr>"
    have out: "outbox ?k = take (sofar + nat r) payload" using 1(5) by (simp add: take_add)
    consider "r < 0" "net_errno u = E_INTR" | "r \<le> 0" "\<not> (r < 0 \<and> net_errno u = E_INTR)" | "0 < r" by linarith
    then show ?thesis
    proof cases
      case 1
      with \<open>sofar < length payload\<close> s "1.prems"(1) have l: "send_loop fd payload sofar u = (ok, m)"
        by (subst (asm) send_loop.simps) simp
      have su: "socks u = socks n" using sr(1) 1 "1.prems"(2) by (simp add: fun_upd_idem)
      with "1.prems"(2) have "socks u fd = Some k" by simp
      from "1.IH"(1) [OF True s [symmetric] _ l this "1.prems"(3,4)] 1 sr(2) show ?thesis by (simp add: su)
    next
      case 2
      with \<open>sofar < length payload\<close> s "1.prems"(1) have "\<not> ok" "m = u" by (subst (asm) send_loop.simps; auto)+
      with sr 2 "1.prems"(3,4) True show ?thesis by (intro exI [of _ sofar]) (auto simp: fun_eq_iff)
    next
      case 3
      with \<open>sofar < length payload\<close> s "1.prems"(1) have l: "send_loop fd payload (sofar + nat r) u = (ok, m)"
        by (subst (asm) send_loop.simps) simp
      have "socks u fd = Some ?k" "sofar + nat r \<le> length payload" using sr True 3 by auto
      have c: "\<not> (r < 0 \<and> net_errno u = E_INTR)" "\<not> r \<le> 0" using 3 by auto
      from "1.IH"(2) [OF True s [symmetric] c l \<open>socks u fd = Some ?k\<close> out \<open>sofar + nat r \<le> length payload\<close>] obtain x where
        x: "socks m = (socks u)(fd \<mapsto> ?k\<lparr>outbox := take x payload\<rparr>)" "next_sock m = next_sock u" "x \<le> length payload"
          "ok \<longleftrightarrow> x = length payload" by blast
      then show ?thesis using sr(1,2) by (intro exI [of _ x]) (simp add: fun_eq_iff)
    qed
  qed
qed

subsection \<open>The attempts\<close>

lemma close_sock_run:
  assumes "run_state (close_sock fd) n = (ok, m)"
  shows "socks m = (socks n)(fd := map_option (\<lambda>k. k\<lparr>is_open := False\<rparr>) (socks n fd))" "next_sock m = next_sock n"
  using assms by (auto simp: close_sock_def next_reply_def net_fail_def on_sock_def split: list.splits reply.splits)

lemma socket_run:
  assumes "run_state socket n = (r, m)"
  obtains (none) "r = None" "socks m = socks n" "next_sock m = next_sock n"
  | (made) "r = Some (next_sock n)" "socks m = (socks n)(next_sock n \<mapsto> fresh_sock)" "next_sock m = Suc (next_sock n)"
  using assms by (auto simp: socket_def next_reply_def net_fail_def split: list.splits reply.splits)

text \<open>What an attempt leaves behind: a closed socket, over which everything was sent or only a part.\<close>

definition given_up :: "string \<Rightarrow> sock option \<Rightarrow> bool" where
  "given_up payload k = (case k of None \<Rightarrow> False | Some k \<Rightarrow> \<not> is_open k \<and>
     (outbox k = [] \<or> (\<exists>x < length payload. outbox k = take x payload)))"

definition delivered :: "string \<Rightarrow> sock option \<Rightarrow> bool" where
  "delivered payload k = (case k of None \<Rightarrow> False | Some k \<Rightarrow> \<not> is_open k \<and> connected k \<and> \<not> nonblocking k \<and> outbox k = payload)"

text \<open>Nothing but socket \<open>fd\<close> is different, and it is the one just made.\<close>

definition one_more :: "net \<Rightarrow> net \<Rightarrow> bool" where
  "one_more n m \<longleftrightarrow> next_sock m = Suc (next_sock n) \<and> (\<forall>j. j \<noteq> next_sock n \<longrightarrow> socks m j = socks n j)"

lemma attempt_run:
  assumes "run_state (attempts c payload (Suc left)) n = (ok, m)"
  obtains (none) "\<not> ok" "socks m = socks n" "next_sock m = next_sock n"
  | (last) "\<not> ok" "one_more n m" "given_up payload (socks m (next_sock n))"
  | (again) u where "one_more n u" "given_up payload (socks u (next_sock n))" "run_state (attempts c payload left) u = (ok, m)"
  | (success) "ok" "one_more n m" "delivered payload (socks m (next_sock n))"
proof -
  let ?fd = "next_sock n"
  obtain r a where a: "run_state socket n = (r, a)" by fastforce
  then show thesis
  proof (cases rule: socket_run)
    case none
    with assms a that(1) show thesis by simp
  next
    case made
    obtain o1 b where b: "run_state (setsockopt_sndtimeo ?fd (timeval (backup_send_timeout_ms c))) a = (o1, b)" by fastforce
    have sb: "one_more n b" "\<exists>k. socks b ?fd = Some k \<and> is_open k \<and> outbox k = [] \<and> \<not> nonblocking k"
      using sock_call_run [OF b [unfolded setsockopt_sndtimeo_def]] sk.rel_final [OF sk_calls(1), of ?fd a "timeval (backup_send_timeout_ms c)"]
        b made by (auto simp: one_more_def fresh_sock_def final_def sock_step_def)
    show thesis
    proof (cases o1)
      case False
      obtain x d where d: "run_state (close_sock ?fd) b = (x, d)" by fastforce
      from assms a made b d False have "\<not> ok" "m = d" by auto
      with that(2) sb close_sock_run [OF d] show thesis by (auto simp: one_more_def given_up_def)
    next
      case True
      obtain o2 d where d: "run_state (ConnectWithTimeout ?fd (backup_connect_timeout_ms c)) b = (o2, d)" by fastforce
      have st: "sock_step ?fd b d" using sk.rel_final [OF sk_ConnectWithTimeout] d by (metis final_def snd_conv)
      then have sd: "one_more n d" "\<exists>k. socks d ?fd = Some k \<and> is_open k \<and> outbox k = []"
        using sb by (auto simp: one_more_def sock_step_def)
      show thesis
      proof (cases o2)
        case False
        obtain x e where e: "run_state (close_sock ?fd) d = (x, e)" by fastforce
        from assms a made b d e True False have "run_state (attempts c payload left) e = (ok, m)" by simp
        with that(3) [of e] sd close_sock_run [OF e] show thesis by (auto simp: one_more_def given_up_def)
      next
        case o2: True
        from sb(2) obtain k0 where k0: "socks b ?fd = Some k0" "\<not> nonblocking k0" by blast
        from ConnectWithTimeout_ok [OF d [unfolded eqTrueI [OF o2]] k0(1)] k0(2) obtain k where
          k: "socks d ?fd = Some k" "connected k" "\<not> nonblocking k" by auto
        with sd(2) have out: "outbox k = []" by simp
        obtain o3 e where e: "send_loop ?fd payload 0 d = (o3, e)" by fastforce
        from send_loop_run [OF e k(1)] out obtain x where
          x: "socks e = (socks d)(?fd \<mapsto> k\<lparr>outbox := take x payload\<rparr>)" "next_sock e = next_sock d" "x \<le> length payload"
            "o3 \<longleftrightarrow> x = length payload" by auto
        obtain o4 f where f: "run_state (shutdown_write ?fd) e = (o4, f)" by fastforce
        obtain o5 g where g: "run_state (close_sock ?fd) f = (o5, g)" by fastforce
        have nf: "next_sock f = next_sock e"
          using sk.rel_final [OF sk_calls(7), of ?fd e] f by (simp add: final_def sock_step_def)
        have more: "one_more n g"
          using sd(1) x(1,2) nf sock_call_run [OF f [unfolded shutdown_write_def]] close_sock_run [OF g] by (auto simp: one_more_def)
        have k': "\<exists>k'. socks g ?fd = Some k' \<and> \<not> is_open k' \<and> connected k' \<and> \<not> nonblocking k' \<and> outbox k' = take x payload"
          using x(1) k sock_call_run [OF f [unfolded shutdown_write_def]] close_sock_run [OF g] by auto
        show thesis
        proof (cases o3)
          case o3: True
          from assms a made b d e f g True o2 o3 have "ok" "m = g" by auto
          with that(4) more k' x(4) o3 show thesis by (auto simp: delivered_def)
        next
          case False
          from assms a made b d e f g True o2 False have "run_state (attempts c payload left) g = (ok, m)" by simp
          moreover have "given_up payload (socks g ?fd)"
          proof -
            have "x < length payload" using x(3,4) False by simp
            with k' show ?thesis unfolding given_up_def by fastforce
          qed
          ultimately show thesis using that(3) more by blast
        qed
      qed
    qed
  qed
qed

text \<open>The sockets made between two states: all but the last were given up, and so was the last unless everything was sent.\<close>

definition made_between :: "string \<Rightarrow> bool \<Rightarrow> net \<Rightarrow> net \<Rightarrow> bool" where
  "made_between payload ok n m \<longleftrightarrow> next_sock n \<le> next_sock m \<and> (\<forall>j < next_sock n. socks m j = socks n j) \<and>
     (\<forall>j. next_sock n \<le> j \<longrightarrow> j < next_sock m \<longrightarrow>
        (if ok \<and> Suc j = next_sock m then delivered payload (socks m j) else given_up payload (socks m j))) \<and>
     (ok \<longrightarrow> next_sock n < next_sock m)"

lemma made_one:
  assumes "one_more n m" "(if ok then delivered payload else given_up payload) (socks m (next_sock n))"
  shows "made_between payload ok n m"
  using assms by (auto simp: one_more_def made_between_def less_Suc_eq)

lemma made_more:
  assumes "one_more n u" "given_up payload (socks u (next_sock n))" "made_between payload ok u m"
  shows "made_between payload ok n m"
proof -
  have u: "next_sock u = Suc (next_sock n)" using assms(1) by (simp add: one_more_def)
  then have first: "socks m (next_sock n) = socks u (next_sock n)" using assms(3) by (simp add: made_between_def)
  show ?thesis unfolding made_between_def
  proof (intro conjI allI impI)
    fix j
    assume j: "next_sock n \<le> j" "j < next_sock m"
    show "if ok \<and> Suc j = next_sock m then delivered payload (socks m j) else given_up payload (socks m j)"
    proof (cases "j = next_sock n")
      case True
      then show ?thesis using first assms(2,3) u by (auto simp: made_between_def)
    next
      case False
      with j u assms(3) show ?thesis by (simp add: made_between_def)
    qed
  next
    fix j assume "j < next_sock n"
    then show "socks m j = socks n j" using assms(1,3) u by (simp add: made_between_def one_more_def)
  qed (use assms(3) u in \<open>auto simp: made_between_def\<close>)
qed

lemma attempts_run:
  "run_state (attempts c payload left) n = (ok, m) \<Longrightarrow> made_between payload ok n m \<and> next_sock m \<le> next_sock n + left"
proof (induction left arbitrary: n)
  case 0
  then show ?case by (auto simp: made_between_def)
next
  case (Suc left)
  from Suc.prems show ?case
  proof (cases rule: attempt_run)
    case none
    then show ?thesis by (auto simp: made_between_def)
  next
    case last
    then show ?thesis using made_one [of n m ok payload] by (auto simp: one_more_def)
  next
    case (again u)
    with Suc.IH [OF again(3)] made_more [of n u payload ok m] show ?thesis by (auto simp: one_more_def)
  next
    case success
    then show ?thesis using made_one [of n m ok payload] by (auto simp: one_more_def)
  qed
qed

text \<open>When the network works, the first attempt succeeds.\<close>

lemma attempts_work:
  assumes "replies n = []"
  shows "result (attempts c payload (Suc left)) n"
proof -
  have "fst (send_loop fd payload 0 n)" if "replies n = []" for fd n
  proof (cases "payload = []")
    case False
    with that show ?thesis
      by (subst send_loop.simps) (simp add: send_def next_reply_def Let_def on_sock_def send_loop.simps)
  qed (simp add: send_loop.simps)
  with assms show ?thesis
    by (simp add: result_def socket_def next_reply_def setsockopt_sndtimeo_def sock_call_def on_sock_def ConnectWithTimeout_def fcntl_getfl_def
      fcntl_setfl_def connect_def split_beta del: attempts.simps(1)) (simp add: shutdown_write_def close_sock_def sock_call_def split_beta)?
qed

subsection \<open>Properties\<close>

text \<open>C17. Sending a backup is exact about what it claims, whatever the network does. \<open>Start\<close> always returns, after at most
  \<open>backup_retries\<close> connections, all of which it has closed. When it reports success (with the backup enabled), the last
  connection was established and blocking again, and the kernel took the token line and the message in full, exactly once; every other
  connection got nothing or a proper prefix. When it reports failure, that holds of all of them. With a valid address
  and a network that works it succeeds.\<close>

theorem backup_start_exact:
  assumes "backup_enabled c" and "0 < backup_retries c" and "run_state (backup_Start is_ipv4 (Some c) message) n = (ok, m)"
  shows "made_between (backup_payload c message) ok n m \<and> next_sock m \<le> next_sock n + nat (backup_retries c) \<and>
    (replies n = [] \<longrightarrow> ok = is_ipv4 (c_str (backup_addr c)))"
proof (cases "is_ipv4 (c_str (backup_addr c))")
  case True
  with assms have run: "run_state (attempts c (backup_payload c message) (nat (backup_retries c))) n = (ok, m)"
    by (simp add: backup_Start_def)
  obtain left where "nat (backup_retries c) = Suc left" using assms(2) by (metis gr0_implies_Suc zero_less_nat_eq)
  with run attempts_work [of n c "backup_payload c message" left] True attempts_run [OF run] show ?thesis
    by (simp add: result_def)
next
  case False
  with assms show ?thesis by (auto simp: backup_Start_def made_between_def)
qed

subsection \<open>An example\<close>

definition client_conf :: log_config where
  "client_conf = shipped_log\<lparr>backup_enabled := True, backup_token := ''key'', backup_retries := 2\<rparr>"

text \<open>The first connection is refused; over the second, a signal interrupts the sending after two bytes.\<close>

definition rough_net :: net where
  "rough_net = \<lparr>replies = [Works, Works, Works, Works, Fails E_REFUSED, Works, Works,
       Works, Works, Works, Works, Fails E_INPROGRESS, Fails E_INTR, Works, Works, Works, Transfers 2, Fails E_INTR],
     net_errno = E_INVAL, socks = Map.empty, next_sock = 3\<rparr>"

lemma rough_net_run: "(case run_state (backup_Start (\<lambda>a. True) (Some client_conf) ''hello'') rough_net of (ok, m) \<Rightarrow>
    ok \<and> next_sock m = 5 \<and> map_option outbox (socks m 3) = Some [] \<and> replies m = [])"
  by code_simp

lemma backup_start_exact_witness:
  "\<exists>m k. run_state (backup_Start (\<lambda>a. True) (Some client_conf) ''hello'') rough_net = (True, m) \<and> socks m 4 = Some k \<and>
     outbox k = ''key'' @ [LF] @ ''hello''"
proof -
  obtain m where m: "run_state (backup_Start (\<lambda>a. True) (Some client_conf) ''hello'') rough_net = (True, m)" "next_sock m = 5"
    using rough_net_run by (auto split: prod.splits)
  have c: "backup_enabled client_conf" "0 < backup_retries client_conf" by (simp_all add: client_conf_def)
  from backup_start_exact [OF c m(1)] m(2) have "delivered (backup_payload client_conf ''hello'') (socks m 4)"
    by (simp add: made_between_def rough_net_def)
  with m(1) show ?thesis by (auto simp: delivered_def backup_payload_def client_conf_def split: option.splits)
qed

end
