(* ===== verification/Backup_Writer.thy ===== *)
theory Backup_Writer
  imports Stdio
begin

text \<open>
  \<^verbatim>\<open>src/log_system/logs_code/backlog/ServerBackupLog.cpp\<close>, class \<^verbatim>\<open>BackupFileWriter\<close>: the file the backup server appends to and
  the numbered files it rotates into. The mutex makes a call of \<open>Write\<close> one step. The lemmas describe the names
  by the file each denotes: \<open>slot s 0\<close> is the live file, \<open>slot s k\<close> the one with number \<open>k\<close>.
\<close>

record backup_writer =
  bw_name :: string
  bw_max :: nat
  bw_retained :: nat

definition BackupFileWriter :: "string \<Rightarrow> backup_writer" where
  "BackupFileWriter filename = \<lparr>bw_name = filename, bw_max = 100 * 1024 * 1024, bw_retained = 5\<rparr>"

definition numbered :: "string \<Rightarrow> nat \<Rightarrow> string" where
  "numbered f index = f @ ''.'' @ to_dec index"

text \<open>The loop that renames each numbered file to the next number, from the highest down.\<close>

fun shift_files :: "string \<Rightarrow> nat \<Rightarrow> ('z, bool) io" where
  "shift_files f 0 = give True"
| "shift_files f (Suc 0) = give True"
| "shift_files f (Suc (Suc k)) = do {
     there \<leftarrow> fs_exists (numbered f (Suc k));
     ok \<leftarrow> (if fst there then rename_file (numbered f (Suc k)) (numbered f (Suc (Suc k))) else give (\<not> snd there));
     if \<not> ok then give False else shift_files f (Suc k) }"

definition rotate_files :: "backup_writer \<Rightarrow> ('z, bool) io" where
  "rotate_files w =
     (if bw_retained w = 0 then fs_remove (bw_name w)
      else do {
        fs_remove (numbered (bw_name w) (bw_retained w));
        ok \<leftarrow> shift_files (bw_name w) (bw_retained w);
        if \<not> ok then give False
        else do {
          there \<leftarrow> fs_exists (bw_name w);
          if fst there then rename_file (bw_name w) (numbered (bw_name w) 1) else give (\<not> snd there) } })"

definition RotateIfNeeded :: "backup_writer \<Rightarrow> nat \<Rightarrow> ('z, bool) io" where
  "RotateIfNeeded w incoming = do {
     there \<leftarrow> fs_exists (bw_name w);
     current \<leftarrow> (if fst there then fs_file_size (bw_name w) else give (0, snd there));
     if snd current then give False
     else if fst current + incoming \<le> bw_max w then give True
     else rotate_files w }"

definition needs_newline :: "string \<Rightarrow> bool" where
  "needs_newline message \<longleftrightarrow> message = [] \<or> last message \<noteq> LF"

text \<open>Writing to the open stream, and closing it.\<close>

definition append_line :: "string \<Rightarrow> cfile \<Rightarrow> ('z, bool) io" where
  "append_line message f = do {
     r \<leftarrow> State (fwrite_loop f message 0);
     if \<not> fst r then do { fclose (snd r); give False }
     else do {
       n \<leftarrow> (if needs_newline message then fwrite (snd r) [LF] else give (1, snd r));
       fl \<leftarrow> fflush (snd n);
       synced \<leftarrow> (if fst fl then fsync (cf_fd (snd fl)) else give False);
       closed \<leftarrow> fclose (snd fl);
       give (fst n \<noteq> 0 \<and> synced \<and> closed) } }"

definition Write :: "backup_writer \<Rightarrow> string \<Rightarrow> ('z, bool) io" where
  "Write w message = do {
     ready \<leftarrow> RotateIfNeeded w (length message);
     if \<not> ready then give False
     else do {
       file \<leftarrow> fopen_append (bw_name w);
       case file of None \<Rightarrow> give False | Some f \<Rightarrow> append_line message f } }"

subsection \<open>The names\<close>

definition proper_file_name :: "string \<Rightarrow> bool" where
  "proper_file_name f \<longleftrightarrow> NUL \<notin> set f \<and> last (split_slash f) \<noteq> [] \<and> last (split_slash f) \<noteq> ''.'' \<and> last (split_slash f) \<noteq> ''..''"

definition slot_name :: "string \<Rightarrow> nat \<Rightarrow> string" where
  "slot_name f k = (if k = 0 then f else numbered f k)"

definition slot_key :: "'z os_scheme \<Rightarrow> string \<Rightarrow> nat \<Rightarrow> string list" where
  "slot_key s f k = dir_key s f @ [last (split_slash f) @ (if k = 0 then [] else ''.'' @ to_dec k)]"

lemma dot_number_plain: "plain_suffix (''.'' @ to_dec k)"
proof -
  have "to_dec k \<noteq> []" by (metis to_dec.simps append_is_Nil_conv list.distinct(1))
  then obtain c where "c \<in> set (to_dec k)" by (cases "to_dec k") auto
  moreover have "is_digit c \<Longrightarrow> c \<noteq> CHR ''.'' \<and> c \<noteq> SLASH \<and> c \<noteq> NUL" for c by (auto simp: is_digit_def less_eq_char_def)
  moreover have "is_digit c" if "c \<in> set (to_dec k)" for c using that to_dec_digits [of k] by (simp add: list_all_iff)
  ultimately show ?thesis by (auto simp: plain_suffix_def)
qed

lemma key_slot: "proper_file_name f \<Longrightarrow> key s (slot_name f k) = slot_key s f k"
proof (cases k)
  case 0
  assume f: "proper_file_name f"
  have "filter (\<lambda>n. n \<noteq> []) xs = filter (\<lambda>n. n \<noteq> []) (butlast xs) @ [last xs]" if "xs \<noteq> []" "last xs \<noteq> []" for xs :: "string list"
    using that by (cases xs rule: rev_cases) auto
  then have "path_names f = filter (\<lambda>n. n \<noteq> []) (butlast (split_slash f)) @ [last (split_slash f)]"
    using f by (simp add: path_names_def proper_file_name_def)
  with f 0 show ?thesis
    by (simp add: slot_name_def slot_key_def key_def dir_key_def walk_append c_str_id proper_file_name_def)
next
  case (Suc m)
  assume "proper_file_name f"
  with Suc key_suffix [OF _ dot_number_plain, of f s k] show ?thesis
    by (simp add: slot_name_def numbered_def slot_key_def proper_file_name_def)
qed

lemma c_str_slot: "proper_file_name f \<Longrightarrow> c_str (slot_name f k) = slot_name f k \<and> slot_name f k \<noteq> []"
  using dot_number_plain [of k] by (auto simp: slot_name_def numbered_def proper_file_name_def c_str_id plain_suffix_def)

lemma slot_key_eq_iff [simp]: "slot_key s f j = slot_key s f k \<longleftrightarrow> j = k"
  by (simp add: slot_key_def to_dec_eq_iff)

lemma slot_key_ne [simp]: "slot_key s f k \<noteq> []" "[] \<noteq> slot_key s f k" "butlast (slot_key s f k) = dir_key s f"
  by (simp_all add: slot_key_def)

lemma slot_key_tape [simp]: "slot_key (s\<lparr>tape := ts\<rparr>) f k = slot_key s f k" "dir_key (s\<lparr>tape := ts\<rparr>) f = dir_key s f"
  by (simp_all add: slot_key_def dir_key_def)

lemma lookup_slot: "proper_file_name f \<Longrightarrow> lookup s (slot_name f k) = node s (slot_key s f k)"
  using c_str_slot [of f k] by (simp add: lookup_def key_slot)

lemma parent_slot: "proper_file_name f \<Longrightarrow> parent_exists s (slot_name f k) \<longleftrightarrow> node s (dir_key s f) = Some Dir"
  using c_str_slot [of f k] by (simp add: parent_exists_def key_slot slot_key_ne)

definition slot :: "'z os_scheme \<Rightarrow> string \<Rightarrow> nat \<Rightarrow> nat option" where
  "slot s f k = (case lookup s (slot_name f k) of Some (File i) \<Rightarrow> Some i | _ \<Rightarrow> None)"

text \<open>The directory is there, none of the names denotes a directory, and no two denote the same file.\<close>

definition rot_ok :: "string \<Rightarrow> 'z os_scheme \<Rightarrow> bool" where
  "rot_ok f s \<longleftrightarrow> proper_file_name f \<and> faultless (tape s) \<and> fs_wf s \<and> node s (dir_key s f) = Some Dir \<and>
     (\<forall>k. lookup s (slot_name f k) \<noteq> Some Dir) \<and> (\<forall>j k i. slot s f j = Some i \<longrightarrow> slot s f k = Some i \<longrightarrow> j = k)"

lemma slot_Some: "rot_ok f s \<Longrightarrow> slot s f k = Some i \<longleftrightarrow> lookup s (slot_name f k) = Some (File i)"
  by (auto simp: slot_def split: option.splits node.splits)

lemma slot_None: "rot_ok f s \<Longrightarrow> slot s f k = None \<longleftrightarrow> lookup s (slot_name f k) = None"
  by (auto simp: slot_def rot_ok_def split: option.splits node.splits)

lemma rot_ok_tape: "rot_ok f s \<Longrightarrow> faultless ts \<Longrightarrow> rot_ok f (s\<lparr>tape := ts\<rparr>) \<and> slot (s\<lparr>tape := ts\<rparr>) f = slot s f"
  by (auto simp: rot_ok_def slot_def fs_wf_def dir_key_def fun_eq_iff)

subsection \<open>The steps of a rotation, when no call fails\<close>

lemma syscall_run:
  assumes "faultless (tape s)"
  obtains ts where "faultless ts" "run_state (syscall bad body) s = run_state body (s\<lparr>tape := ts\<rparr>)"
proof (cases "tape s")
  case Nil
  then have "s\<lparr>tape := []\<rparr> = s" by (cases s) simp
  moreover from Nil have "run_state (syscall bad body) s = run_state body s" by (simp add: syscall_def next_outcome_def)
  ultimately show thesis by (intro that [of "[]"]) simp_all
next
  case (Cons x xs)
  with assms show thesis by (intro that [of xs]; cases x) (simp_all add: syscall_def next_outcome_def)
qed

lemma exists_step:
  assumes "rot_ok f s"
  obtains t where "run_state (fs_exists (slot_name f k)) s = ((slot s f k \<noteq> None, False), t)" "rot_ok f t" "slot t f = slot s f"
    "inodes t = inodes s"
proof -
  obtain r u where r: "run_state next_outcome s = (r, u)" by fastforce
  from next_outcome_run [OF r] obtain ts where u: "u = s\<lparr>tape := ts\<rparr>" "faultless ts" "\<forall>e. r \<noteq> Fault e"
    using assms by (auto simp: rot_ok_def)
  have ru: "rot_ok f u" "slot u f = slot s f" using rot_ok_tape [OF assms u(2)] u(1) by simp_all
  have "run_state (fs_exists (slot_name f k)) s = ((slot s f k \<noteq> None, False), u)"
    using r u slot_None [OF ru(1), of k] ru(2) by (cases r) (auto simp: fs_exists_def fs_status_def)
  with ru u(1) show thesis by (intro that [of u]) simp_all
qed

lemma size_step:
  assumes "rot_ok f s" "slot s f k = Some i"
  obtains t where "run_state (fs_file_size (slot_name f k)) s = ((length (bytes (inodes s i)), False), t)" "rot_ok f t"
    "slot t f = slot s f" "inodes t = inodes s"
proof -
  obtain r u where r: "run_state next_outcome s = (r, u)" by fastforce
  from next_outcome_run [OF r] obtain ts where u: "u = s\<lparr>tape := ts\<rparr>" "faultless ts" "\<forall>e. r \<noteq> Fault e"
    using assms by (auto simp: rot_ok_def)
  have ru: "rot_ok f u" "slot u f = slot s f" using rot_ok_tape [OF assms(1) u(2)] u(1) by simp_all
  have "lookup u (slot_name f k) = Some (File i)" using ru assms(2) slot_Some [OF ru(1)] by simp
  from fs_file_size_run [OF r u(3) this] ru u(1) show thesis by (intro that [of u]) simp_all
qed

text \<open>Changing the names: the same files under other numbers.\<close>

lemma rename_slots:
  assumes "rot_ok f s" "slot s f j = Some i" "slot s f k = None" "j \<noteq> k" "faultless ts"
    "t = s\<lparr>tape := ts, node := (node s)(slot_key s f k \<mapsto> File i, slot_key s f j := None)\<rparr>"
  shows "rot_ok f t" "slot t f = (slot s f)(k \<mapsto> i, j := None)" "inodes t = inodes s"
proof -
  from assms(1) have f: "proper_file_name f" by (simp add: rot_ok_def)
  have key: "slot_key t f x = slot_key s f x" "dir_key t f = dir_key s f" for x using assms(6) by (simp_all add: slot_key_def dir_key_def)
  have dk: "dir_key s f \<noteq> slot_key s f x" for x by (simp add: slot_key_def)
  have lk: "lookup t (slot_name f x) = (if x = j then None else if x = k then Some (File i) else lookup s (slot_name f x))" for x
  proof -
    have nt: "node t = (node s)(slot_key s f k \<mapsto> File i, slot_key s f j := None)" using assms(6) by simp
    show ?thesis using assms(4) by (simp add: lookup_slot [OF f] key nt)
  qed
  show sl: "slot t f = (slot s f)(k \<mapsto> i, j := None)" using assms(4) by (auto simp: slot_def lk fun_eq_iff)
  have lt: "i < next_ino s" using assms(1,2) slot_Some [OF assms(1)] lookup_slot [OF f, of s j] by (auto simp: rot_ok_def fs_wf_def)
  have "slot t f x = Some y \<Longrightarrow> slot t f z = Some y \<Longrightarrow> x = z" for x y z
    using assms(1,2,4) by (auto simp: sl rot_ok_def split: if_splits)
  moreover have "fs_wf t" using assms(1,6) lt by (auto simp: rot_ok_def fs_wf_def split: if_splits)
  moreover have "node t (dir_key t f) = Some Dir" using assms(1,6) dk key(2) by (auto simp: rot_ok_def)
  moreover have "faultless (tape t)" using assms(5,6) by simp
  ultimately show "rot_ok f t"
    using assms(1) lk unfolding rot_ok_def by (auto split: if_splits)
  show "inodes t = inodes s" using assms(6) by simp
qed

lemma rename_step:
  assumes "rot_ok f s" "slot s f j = Some i" "slot s f k = None" "j \<noteq> k"
  obtains t where "run_state (rename_file (slot_name f j) (slot_name f k)) s = (True, t)" "rot_ok f t"
    "slot t f = (slot s f)(k \<mapsto> i, j := None)" "inodes t = inodes s"
proof -
  from assms(1) have f: "proper_file_name f" "faultless (tape s)" "node s (dir_key s f) = Some Dir" by (simp_all add: rot_ok_def)
  let ?body = "do {
     s \<leftarrow> State_Monad.get;
     case lookup s (slot_name f j) of
       None \<Rightarrow> fail ENOENT False
     | Some Dir \<Rightarrow> fail EISDIR False
     | Some (File i) \<Rightarrow>
         if lookup s (slot_name f k) = Some Dir then fail EISDIR False
         else if \<not> parent_exists s (slot_name f k) then fail ENOENT False
         else if lookup s (slot_name f k) = Some (File i) then give True
         else do {
           modify (\<lambda>s. s\<lparr>node := (node s)(key s (slot_name f k) \<mapsto> File i, key s (slot_name f j) := None)\<rparr>);
           give True }
   }"
  obtain ts where ts: "faultless ts" "run_state (rename_file (slot_name f j) (slot_name f k)) s = run_state ?body (s\<lparr>tape := ts\<rparr>)"
    unfolding rename_file_def by (rule syscall_run [OF f(2)])
  let ?t = "s\<lparr>tape := ts, node := (node s)(slot_key s f k \<mapsto> File i, slot_key s f j := None)\<rparr>"
  have "run_state ?body (s\<lparr>tape := ts\<rparr>) = (True, ?t)"
    using slot_Some [OF assms(1), of j i] slot_None [OF assms(1), of k] assms(2,3) f parent_slot [OF f(1), of s k]
    by (simp add: key_slot)
  with ts(2) have run: "run_state (rename_file (slot_name f j) (slot_name f k)) s = (True, ?t)" by simp
  show thesis by (rule that [OF run rename_slots [OF assms ts(1) refl]])
qed

lemma remove_step:
  assumes "rot_ok f s"
  obtains t where "run_state (fs_remove (slot_name f k)) s = (True, t)" "rot_ok f t" "slot t f = (slot s f)(k := None)" "inodes t = inodes s"
proof -
  from assms have f: "proper_file_name f" "faultless (tape s)" by (simp_all add: rot_ok_def)
  show thesis
  proof (cases "slot s f k")
    case None
    obtain ts where ts: "faultless ts" "run_state (syscall False (give True)) s = run_state (give True) (s\<lparr>tape := ts\<rparr>)"
      by (rule syscall_run [OF f(2)])
    with None slot_None [OF assms, of k] have "run_state (fs_remove (slot_name f k)) s = (True, s\<lparr>tape := ts\<rparr>)"
      by (simp add: fs_remove_def)
    with rot_ok_tape [OF assms ts(1)] None show thesis by (intro that [of "s\<lparr>tape := ts\<rparr>"]) (simp_all add: fun_upd_idem)
  next
    case (Some i)
    then have lk: "lookup s (slot_name f k) = Some (File i)" by (simp add: slot_Some [OF assms])
    obtain ts where ts: "faultless ts" "run_state (unlink (slot_name f k)) s = run_state (do {
       s \<leftarrow> State_Monad.get;
       case lookup s (slot_name f k) of
         None \<Rightarrow> fail ENOENT False
       | Some Dir \<Rightarrow> fail EISDIR False
       | Some (File i) \<Rightarrow> do { modify (\<lambda>s. s\<lparr>node := (node s)(key s (slot_name f k) := None)\<rparr>); give True } }) (s\<lparr>tape := ts\<rparr>)"
      unfolding unlink_def by (rule syscall_run [OF f(2)])
    let ?t = "s\<lparr>tape := ts, node := (node s)(slot_key s f k := None)\<rparr>"
    have run: "run_state (fs_remove (slot_name f k)) s = (True, ?t)" using ts(2) lk by (simp add: fs_remove_def key_slot [OF f(1)])
    have key: "slot_key ?t f x = slot_key s f x" "dir_key ?t f = dir_key s f" for x by (simp_all add: slot_key_def dir_key_def)
    have lkt: "lookup ?t (slot_name f x) = (if x = k then None else lookup s (slot_name f x))" for x
      by (simp add: lookup_slot [OF f(1)] key)
    have sl: "slot ?t f = (slot s f)(k := None)" by (auto simp: slot_def lkt fun_eq_iff)
    have "dir_key s f \<noteq> slot_key s f k" by (simp add: slot_key_def)
    moreover have "slot ?t f x = Some y \<Longrightarrow> slot ?t f z = Some y \<Longrightarrow> x = z" for x y z
      using assms by (auto simp: sl rot_ok_def split: if_splits)
    ultimately have "rot_ok f ?t"
      using assms ts(1) by (simp add: rot_ok_def lkt key) (auto simp: fs_wf_def)
    from run this sl show thesis by (rule that) simp
  qed
qed

lemma numbered_slot: "0 < k \<Longrightarrow> numbered f k = slot_name f k"
  by (simp add: slot_name_def)

lemma shift_run:
  assumes "rot_ok f s" "slot s f (Suc n) = None"
  shows "\<exists>t. run_state (shift_files f (Suc n)) s = (True, t) \<and> rot_ok f t \<and> inodes t = inodes s \<and>
    slot t f = (\<lambda>k. if k = 1 then None else if 2 \<le> k \<and> k \<le> Suc n then slot s f (k - 1) else slot s f k)"
  using assms
proof (induction n arbitrary: s)
  case 0
  then show ?case by (auto simp: fun_eq_iff)
next
  case (Suc n)
  note nb = numbered_slot [of "Suc n" f] numbered_slot [of "Suc (Suc n)" f]
  from exists_step [OF Suc.prems(1), of "Suc n"] obtain u where
    u: "run_state (fs_exists (slot_name f (Suc n))) s = ((slot s f (Suc n) \<noteq> None, False), u)" "rot_ok f u" "slot u f = slot s f"
      "inodes u = inodes s" by blast
  show ?case
  proof (cases "slot s f (Suc n)")
    case None
    have "slot u f (Suc n) = None" using None u(3) by simp
    from Suc.IH [OF u(2) this] obtain t where
      t: "run_state (shift_files f (Suc n)) u = (True, t)" "rot_ok f t" "inodes t = inodes u"
        "slot t f = (\<lambda>k. if k = 1 then None else if 2 \<le> k \<and> k \<le> Suc n then slot u f (k - 1) else slot u f k)" by blast
    have "run_state (shift_files f (Suc (Suc n))) s = (True, t)" using u(1) t(1) None by (simp add: nb)
    with t u Suc.prems(2) None show ?thesis by (auto simp: fun_eq_iff le_Suc_eq)
  next
    case (Some i)
    from rename_step [OF u(2), of "Suc n" i "Suc (Suc n)"] Some u(3) Suc.prems(2) obtain v where
      v: "run_state (rename_file (slot_name f (Suc n)) (slot_name f (Suc (Suc n)))) u = (True, v)" "rot_ok f v"
        "slot v f = (slot s f)(Suc (Suc n) \<mapsto> i, Suc n := None)" "inodes v = inodes u" by auto
    have "slot v f (Suc n) = None" using v(3) by simp
    from Suc.IH [OF v(2) this] obtain t where
      t: "run_state (shift_files f (Suc n)) v = (True, t)" "rot_ok f t" "inodes t = inodes v"
        "slot t f = (\<lambda>k. if k = 1 then None else if 2 \<le> k \<and> k \<le> Suc n then slot v f (k - 1) else slot v f k)" by blast
    have "run_state (shift_files f (Suc (Suc n))) s = (True, t)" using u(1) v(1) t(1) Some by (simp add: nb)
    with t u v Some show ?thesis by (auto simp: fun_eq_iff le_Suc_eq)
  qed
qed

subsection \<open>What a rotation and a write mean\<close>

text \<open>The contents by number, and what the code should do with them.\<close>

definition contents :: "'z os_scheme \<Rightarrow> string \<Rightarrow> nat \<Rightarrow> string option" where
  "contents s f k = map_option (\<lambda>i. bytes (inodes s i)) (slot s f k)"

definition the_text :: "string option \<Rightarrow> string" where
  "the_text x = (case x of None \<Rightarrow> [] | Some y \<Rightarrow> y)"

definition rotate_slots :: "nat \<Rightarrow> (nat \<Rightarrow> 'a option) \<Rightarrow> nat \<Rightarrow> 'a option" where
  "rotate_slots retained v k = (if k = 0 then None else if k \<le> retained then v (k - 1) else v k)"

definition line_of :: "string \<Rightarrow> string" where
  "line_of message = message @ (if needs_newline message then [LF] else [])"

definition write_spec :: "backup_writer \<Rightarrow> string \<Rightarrow> (nat \<Rightarrow> string option) \<Rightarrow> nat \<Rightarrow> string option" where
  "write_spec w message v =
     (let v = (if length (the_text (v 0)) + length message \<le> bw_max w then v else rotate_slots (bw_retained w) v)
      in v(0 \<mapsto> the_text (v 0) @ line_of message))"

lemma rotate_run:
  assumes "rot_ok (bw_name w) s"
  shows "\<exists>t. run_state (rotate_files w) s = (True, t) \<and> rot_ok (bw_name w) t \<and> inodes t = inodes s \<and>
    slot t (bw_name w) = rotate_slots (bw_retained w) (slot s (bw_name w))"
proof (cases "bw_retained w")
  case 0
  from remove_step [OF assms, of 0] obtain t where "run_state (fs_remove (bw_name w)) s = (True, t)" "rot_ok (bw_name w) t"
    "slot t (bw_name w) = (slot s (bw_name w))(0 := None)" "inodes t = inodes s" by (auto simp: slot_name_def)
  with 0 show ?thesis by (auto simp: rotate_files_def rotate_slots_def fun_eq_iff)
next
  case (Suc m)
  let ?f = "bw_name w"
  have n0: "slot_name ?f 0 = ?f" by (simp add: slot_name_def)
  from remove_step [OF assms, of "Suc m"] obtain c where
    c: "run_state (fs_remove (slot_name ?f (Suc m))) s = (True, c)" "rot_ok ?f c" "slot c ?f = (slot s ?f)(Suc m := None)"
      "inodes c = inodes s" by blast
  then have "slot c ?f (Suc m) = None" by simp
  from shift_run [OF c(2) this] obtain d where
    d: "run_state (shift_files ?f (Suc m)) c = (True, d)" "rot_ok ?f d" "inodes d = inodes c"
      "slot d ?f = (\<lambda>k. if k = 1 then None else if 2 \<le> k \<and> k \<le> Suc m then slot c ?f (k - 1) else slot c ?f k)" by blast
  from exists_step [OF d(2), of 0] obtain e where
    e: "run_state (fs_exists ?f) d = ((slot d ?f 0 \<noteq> None, False), e)" "rot_ok ?f e" "slot e ?f = slot d ?f" "inodes e = inodes d"
    unfolding n0 by blast
  have d0: "slot d ?f 0 = slot s ?f 0" "slot d ?f 1 = None" using d(4) c(3) by simp_all
  note nb = numbered_slot [of "Suc m" ?f] numbered_slot [of "Suc 0" ?f]
  show ?thesis
  proof (cases "slot s ?f 0")
    case None
    then have "run_state (rotate_files w) s = (True, e)" using Suc c(1) d(1) e(1) d0 by (simp add: rotate_files_def nb)
    moreover have "slot e ?f = rotate_slots (Suc m) (slot s ?f)"
      using None by (auto simp: e(3) d(4) c(3) rotate_slots_def fun_eq_iff)
    ultimately show ?thesis using e c(4) d(3) Suc by simp
  next
    case (Some i)
    then have "slot e ?f 0 = Some i" "slot e ?f 1 = None" by (simp_all add: e(3) d(4) c(3))
    from rename_step [OF e(2) this] obtain t where t: "run_state (rename_file ?f (slot_name ?f 1)) e = (True, t)" "rot_ok ?f t"
      "slot t ?f = (slot e ?f)(1 \<mapsto> i, 0 := None)" "inodes t = inodes e" unfolding n0 by auto
    have "run_state (rotate_files w) s = (True, t)" using Suc Some c(1) d(1) e(1) t(1) d0 by (simp add: rotate_files_def nb)
    moreover have "slot t ?f = rotate_slots (Suc m) (slot s ?f)"
      using Some by (auto simp: t(3) e(3) d(4) c(3) rotate_slots_def fun_eq_iff)
    ultimately show ?thesis using t e(4) c(4) d(3) Suc by simp
  qed
qed

lemma RotateIfNeeded_run:
  assumes "rot_ok (bw_name w) s"
  shows "\<exists>t. run_state (RotateIfNeeded w incoming) s = (True, t) \<and> rot_ok (bw_name w) t \<and> inodes t = inodes s \<and>
    slot t (bw_name w) = (if length (the_text (contents s (bw_name w) 0)) + incoming \<le> bw_max w then slot s (bw_name w)
      else rotate_slots (bw_retained w) (slot s (bw_name w)))"
proof -
  let ?f = "bw_name w"
  let ?len = "length (the_text (contents s ?f 0))"
  have n0: "slot_name ?f 0 = ?f" by (simp add: slot_name_def)
  from exists_step [OF assms, of 0] obtain a where
    a: "run_state (fs_exists ?f) s = ((slot s ?f 0 \<noteq> None, False), a)" "rot_ok ?f a" "slot a ?f = slot s ?f" "inodes a = inodes s"
    unfolding n0 by blast
  obtain b where run: "run_state (RotateIfNeeded w incoming) s =
      run_state (if ?len + incoming \<le> bw_max w then give True else rotate_files w) b"
    and b: "rot_ok ?f b" "slot b ?f = slot s ?f" "inodes b = inodes s"
  proof (cases "slot s ?f 0")
    case None
    with a that [of a] show thesis by (simp add: contents_def the_text_def RotateIfNeeded_def)
  next
    case (Some i)
    then have "slot a ?f 0 = Some i" by (simp add: a(3))
    from size_step [OF a(2) this] obtain t where "run_state (fs_file_size ?f) a = ((length (bytes (inodes a i)), False), t)"
      "rot_ok ?f t" "slot t ?f = slot a ?f" "inodes t = inodes a" unfolding n0 by blast
    with a Some that [of t] show thesis by (simp add: contents_def the_text_def RotateIfNeeded_def)
  qed
  from rotate_run [OF b(1)] b run show ?thesis by auto
qed

lemma streams_nil: "streams i [] f s f s"
  by (simp add: streams_def stream_def ap.refl)

text \<open>Writing the line and closing the stream.\<close>

lemma append_line_run:
  assumes "opened s f i" "faultless (tape s)"
  shows "\<exists>t. run_state (append_line message f) s = (True, t) \<and>
    (\<exists>u. only_appends i s u \<and> quiet (u\<lparr>fds := (fds u)(cf_fd f := None)\<rparr>) t) \<and>
    bytes (inodes t i) = stream s f i @ line_of message \<and> faultless (tape t)"
proof -
  obtain b g s1 where 1: "fwrite_loop f message 0 s = ((b, g), s1)" by (metis prod.exhaust)
  from fwrite_loop_run [OF 1 assms(1)] assms(2) have s1: "b" "streams i message f s g s1" by auto
  have op1: "opened s1 g i" using streams_opened [OF s1(2)] assms(1) by simp
  obtain n h s2 where 2: "run_state (if needs_newline message then fwrite g [LF] else give (1, g)) s1 = ((n, h), s2)"
    by (metis prod.exhaust)
  have fl1: "faultless (tape s1)" using s1(2) assms(2) by (simp add: streams_def)
  have s2: "n \<noteq> 0 \<and> streams i (if needs_newline message then [LF] else []) g s1 h s2"
  proof (cases "needs_newline message")
    case True
    with 2 have w: "run_state (fwrite g [LF]) s1 = ((n, h), s2)" by simp
    from fwrite_run [OF w op1] fl1 True show ?thesis by simp
  next
    case False
    with 2 show ?thesis by (simp add: streams_nil)
  qed
  have op2: "opened s2 h i" using streams_opened s2 op1 by blast
  have fl2: "faultless (tape s2)" using s2 fl1 by (auto simp: streams_def)
  obtain ok k s3 where 3: "run_state (fflush h) s2 = ((ok, k), s3)" by (metis prod.exhaust)
  note s3 = fflush_run [OF 3 op2]
  have op3: "opened s3 k i" using streams_opened [OF s3(1)] op2 by simp
  have fl3: "faultless (tape s3)" using s3(1) fl2 by (simp add: streams_def)
  obtain sy s4 where 4: "run_state (fsync (cf_fd k)) s3 = (sy, s4)" by fastforce
  note s4 = fsync_run [OF 4]
  have st4: "streams i [] k s3 k s4" using quiet_streams [OF s4(1)] s4(2) by blast
  have op4: "opened s4 k i" using streams_opened [OF st4] op3 by simp
  obtain cl s5 where 5: "run_state (fclose k) s4 = (cl, s5)" by fastforce
  from fclose_run [OF 5 op4] s4(2) fl3 obtain u x where u: "streams i [] k s4 x u"
    "quiet (u\<lparr>fds := (fds u)(cf_fd k := None)\<rparr>) s5" "unwritten x = []" "cl" "faultless (tape s5)" by metis
  have all: "streams i (line_of message) f s x u"
    using streams_trans [OF streams_trans [OF streams_trans [OF streams_trans [OF s1(2) conjunct2 [OF s2]] s3(1)] st4] u(1)]
    by (simp add: line_of_def)
  have "cf_fd k = cf_fd f" using s1(2) s2 s3(1) by (auto simp: streams_def)
  with all u have "\<exists>u. only_appends i s u \<and> quiet (u\<lparr>fds := (fds u)(cf_fd f := None)\<rparr>) s5"
    by (auto simp: streams_def)
  moreover have "bytes (inodes s5 i) = stream s f i @ line_of message"
    using all u(2,3) by (simp add: streams_def stream_def quiet_def silent_def)
  moreover have "ok" "sy" using s3(3) fl2 s4(2) fl3 by blast+
  ultimately show ?thesis using 1 2 3 4 5 s1(1) s2 u(4,5) by (auto simp: append_line_def cong: if_cong)
qed

text \<open>The state after opening and closing the live file for writing: all other files are as they were.\<close>

lemma rot_ok_after:
  assumes "rot_ok f s" "only_appends i s u" "quiet (u\<lparr>fds := (fds u)(fd := None)\<rparr>) t" "faultless (tape t)"
  shows "rot_ok f t" "slot t f = slot s f" "j \<noteq> i \<Longrightarrow> inodes t j = inodes s j"
proof -
  note e = only_appends_eqs [OF assms(2)]
  have t: "node t = node s" "cwd t = cwd s" "next_ino t = next_ino s" "next_fd t = next_fd s" "fds t = (fds s)(fd := None)" "inodes t = inodes u"
    using assms(3) e by (auto simp: quiet_def silent_def)
  then have lk: "lookup t p = lookup s p" for p by (simp add: lookup_def key_def)
  show sl: "slot t f = slot s f" by (auto simp: slot_def lk)
  have "fs_wf t" using assms(1) t by (auto simp: rot_ok_def fs_wf_def)
  moreover have "dir_key t f = dir_key s f" using t(2) by (simp add: dir_key_def)
  ultimately show "rot_ok f t" using assms(1,4) t(1) lk sl by (simp add: rot_ok_def)
  show "j \<noteq> i \<Longrightarrow> inodes t j = inodes s j" using e(9) t(6) by simp
qed

lemma open_live_run:
  assumes "rot_ok f s"
  shows "\<exists>g i t. run_state (fopen_append f) s = (Some g, t) \<and> opened t g i \<and> rot_ok f t \<and> slot t f = (slot s f)(0 \<mapsto> i) \<and>
    stream t g i = the_text (contents s f 0) \<and> (\<forall>k j. k \<noteq> 0 \<longrightarrow> slot s f k = Some j \<longrightarrow> j \<noteq> i \<and> inodes t j = inodes s j)"
proof -
  have f: "proper_file_name f" "faultless (tape s)" "node s (dir_key s f) = Some Dir" "fs_wf s"
    using assms by (simp_all add: rot_ok_def)
  have n0: "slot_name f 0 = f" by (simp add: slot_name_def)
  have lk: "lookup s f \<noteq> Some Dir" "parent_exists s f" using assms f parent_slot [OF f(1), of s 0] by (auto simp: rot_ok_def n0 dest: spec [of _ 0])
  obtain r t where r: "run_state (fopen_append f) s = (r, t)" by fastforce
  let ?g = "\<lparr>cf_fd = next_fd s, unwritten = [], cf_error = False\<rparr>"
  obtain ts where t: "r = Some ?g" "faultless ts"
      "t = (if lookup s f = None then create_at (key s f) (s\<lparr>tape := ts\<rparr>) else s\<lparr>tape := ts\<rparr>)
        \<lparr>fds := (fds s)(next_fd s \<mapsto> \<lparr>fd_ino = Some (target s f), fd_pos = 0\<rparr>), next_fd := next_fd s + 1\<rparr>"
    by (rule fopen_append_run [OF r]) (use lk f(2) in auto)
  have lt: "j < next_ino s" if "slot s f k = Some j" for k j
    using that slot_Some [OF assms, of k j] lookup_slot [OF f(1), of s k] f(4) by (auto simp: fs_wf_def)
  show ?thesis
  proof (cases "slot s f 0")
    case None
    then have nl: "lookup s f = None" using slot_None [OF assms, of 0] by (simp add: n0)
    let ?i = "next_ino s"
    have tt: "node t = (node s)(slot_key s f 0 \<mapsto> File ?i)" "cwd t = cwd s" "tape t = ts" "next_ino t = Suc ?i"
      "fds t = (fds s)(next_fd s \<mapsto> \<lparr>fd_ino = Some ?i, fd_pos = 0\<rparr>)" "next_fd t = Suc (next_fd s)" "bytes (inodes t ?i) = []"
      "\<And>j. j \<noteq> ?i \<Longrightarrow> inodes t j = inodes s j"
      using t(3) nl key_slot [OF f(1), of s 0] by (simp_all add: create_at_def target_def n0 fresh_inode_def)
    have key: "slot_key t f x = slot_key s f x" "dir_key t f = dir_key s f" for x by (simp_all add: slot_key_def dir_key_def tt(2))
    have lkt: "lookup t (slot_name f k) = (if k = 0 then Some (File ?i) else lookup s (slot_name f k))" for k
      by (simp add: lookup_slot [OF f(1)] key tt(1))
    have sl: "slot t f = (slot s f)(0 \<mapsto> ?i)" by (auto simp: slot_def lkt fun_eq_iff)
    have "slot t f x = Some y \<Longrightarrow> slot t f z = Some y \<Longrightarrow> x = z" for x y z
      using assms lt by (fastforce simp: sl rot_ok_def split: if_splits)
    moreover have "dir_key s f \<noteq> slot_key s f 0" by (simp add: slot_key_def)
    ultimately have "rot_ok f t"
      using assms t(2) f tt by (simp add: rot_ok_def lkt key) (auto simp: fs_wf_def less_Suc_eq split: if_splits)
    moreover have "opened t ?g ?i" "stream t ?g ?i = the_text (contents s f 0)"
      using tt None by (simp_all add: opened_def stream_def contents_def the_text_def)
    ultimately show ?thesis using r t(1) sl lt tt(8) by (intro exI [of _ ?g] exI [of _ ?i] exI [of _ t]) fastforce
  next
    case (Some i)
    then have sf: "lookup s f = Some (File i)" using slot_Some [OF assms, of 0 i] by (simp add: n0)
    have tt: "node t = node s" "cwd t = cwd s" "tape t = ts" "next_ino t = next_ino s" "inodes t = inodes s"
      "fds t = (fds s)(next_fd s \<mapsto> \<lparr>fd_ino = Some i, fd_pos = 0\<rparr>)" "next_fd t = Suc (next_fd s)"
      using t(3) sf by (simp_all add: target_def)
    then have lkt: "lookup t p = lookup s p" for p by (simp add: lookup_def key_def)
    have sl: "slot t f = slot s f" by (auto simp: slot_def lkt)
    have "rot_ok f t" using assms t(2) f(4) tt lt [OF Some] lkt sl
      by (simp add: rot_ok_def dir_key_def) (auto simp: fs_wf_def less_Suc_eq split: if_splits)
    moreover have "j \<noteq> i" if "k \<noteq> 0" "slot s f k = Some j" for k j
      using that assms Some unfolding rot_ok_def by metis
    ultimately show ?thesis using r t(1) sl tt Some
      by (intro exI [of _ ?g] exI [of _ i] exI [of _ t]) (auto simp: opened_def stream_def contents_def the_text_def fun_upd_idem)
  qed
qed

lemma Write_run:
  assumes "rot_ok (bw_name w) s"
  shows "\<exists>t. run_state (Write w message) s = (True, t) \<and> rot_ok (bw_name w) t \<and>
    contents t (bw_name w) = write_spec w message (contents s (bw_name w))"
proof -
  let ?f = "bw_name w"
  let ?fits = "length (the_text (contents s ?f 0)) + length message \<le> bw_max w"
  from RotateIfNeeded_run [OF assms, of "length message"] obtain a where
    a: "run_state (RotateIfNeeded w (length message)) s = (True, a)" "rot_ok ?f a" "inodes a = inodes s"
      "slot a ?f = (if ?fits then slot s ?f else rotate_slots (bw_retained w) (slot s ?f))" by blast
  have ca: "contents a ?f = (if ?fits then contents s ?f else rotate_slots (bw_retained w) (contents s ?f))"
    by (auto simp: contents_def a(3,4) rotate_slots_def fun_eq_iff)
  from open_live_run [OF a(2)] obtain g i b where
    b: "run_state (fopen_append ?f) a = (Some g, b)" "opened b g i" "rot_ok ?f b" "slot b ?f = (slot a ?f)(0 \<mapsto> i)"
      "stream b g i = the_text (contents a ?f 0)"
    and others: "\<And>k j. k \<noteq> 0 \<Longrightarrow> slot a ?f k = Some j \<Longrightarrow> j \<noteq> i \<and> inodes b j = inodes a j" by blast
  have fl: "faultless (tape b)" using b(3) by (simp add: rot_ok_def)
  from append_line_run [OF b(2) fl, of message] obtain t u where
    t: "run_state (append_line message g) b = (True, t)" "only_appends i b u" "quiet (u\<lparr>fds := (fds u)(cf_fd g := None)\<rparr>) t"
      "bytes (inodes t i) = stream b g i @ line_of message" "faultless (tape t)" by blast
  note after = rot_ok_after [OF b(3) t(2,3,5)]
  have "contents t ?f k = write_spec w message (contents s ?f) k" for k
  proof (cases "k = 0")
    case True
    then show ?thesis using after(2) b(4,5) t(4) by (simp add: contents_def [of t] write_spec_def Let_def ca)
  next
    case False
    then have "contents t ?f k = contents a ?f k"
      using after(2,3) b(4) others by (cases "slot a ?f k") (auto simp: contents_def)
    with False show ?thesis by (simp add: write_spec_def Let_def ca)
  qed
  with a(1) b(1) t(1) after(1) show ?thesis by (auto simp: Write_def)
qed

subsection \<open>A sequence of messages\<close>

fun Writes :: "backup_writer \<Rightarrow> string list \<Rightarrow> ('z, bool) io" where
  "Writes w [] = give True"
| "Writes w (x # xs) = do { ok \<leftarrow> Write w x; rest \<leftarrow> Writes w xs; give (ok \<and> rest) }"

lemma Writes_run:
  "rot_ok (bw_name w) s \<Longrightarrow> \<exists>t. run_state (Writes w xs) s = (True, t) \<and> rot_ok (bw_name w) t \<and>
     contents t (bw_name w) = foldl (\<lambda>v x. write_spec w x v) (contents s (bw_name w)) xs"
proof (induction xs arbitrary: s)
  case (Cons x xs)
  from Write_run [OF Cons.prems, of x] obtain u where u: "run_state (Write w x) s = (True, u)" "rot_ok (bw_name w) u"
    "contents u (bw_name w) = write_spec w x (contents s (bw_name w))" by blast
  from Cons.IH [OF u(2)] u show ?case by auto
qed simp

text \<open>What the retained files say, oldest first.\<close>

definition history :: "nat \<Rightarrow> (nat \<Rightarrow> string option) \<Rightarrow> string" where
  "history retained v = concat (map (\<lambda>k. the_text (v k)) (rev [0..<Suc retained]))"

lemma history_0: "history retained v = concat (map (\<lambda>k. the_text (v k)) (rev [1..<Suc retained])) @ the_text (v 0)"
  by (simp add: history_def upt_conv_Cons del: upt_Suc)

lemma history_rotate: "history retained v = the_text (v retained) @ history retained (rotate_slots retained v)"
proof (cases retained)
  case 0
  then show ?thesis by (simp add: history_def rotate_slots_def the_text_def)
next
  case (Suc m)
  have "map (\<lambda>k. the_text (rotate_slots retained v k)) [1..<Suc retained] = map (\<lambda>k. the_text (v k)) [0..<retained]"
    by (rule nth_equalityI) (auto simp: rotate_slots_def simp del: upt_Suc)
  then have "map (\<lambda>k. the_text (rotate_slots retained v k)) (rev [1..<Suc retained]) = map (\<lambda>k. the_text (v k)) (rev [0..<retained])"
    by (metis rev_map)
  then have "history retained (rotate_slots retained v) = concat (map (\<lambda>k. the_text (v k)) (rev [0..<retained]))"
    by (simp add: history_0) (simp add: rotate_slots_def the_text_def)
  then show ?thesis by (simp add: history_def)
qed

lemma history_write: "\<exists>old. history (bw_retained w) v @ line_of x = old @ history (bw_retained w) (write_spec w x v)"
proof -
  have add: "history r (v(0 \<mapsto> the_text (v 0) @ y)) = history r v @ y" for r y and v :: "nat \<Rightarrow> string option"
  proof -
    have "map (\<lambda>k. the_text ((v(0 \<mapsto> the_text (v 0) @ y)) k)) (rev [1..<Suc r]) = map (\<lambda>k. the_text (v k)) (rev [1..<Suc r])" by auto
    then show ?thesis unfolding history_0 by (simp only:) (simp add: the_text_def)
  qed
  show ?thesis
    using add [of "bw_retained w" v "line_of x"] add [of "bw_retained w" "rotate_slots (bw_retained w) v" "line_of x"]
      history_rotate [of "bw_retained w" v]
    by (auto simp: write_spec_def Let_def)
qed

lemma history_writes: "\<exists>old. history (bw_retained w) v @ concat (map line_of xs) =
    old @ history (bw_retained w) (foldl (\<lambda>v x. write_spec w x v) v xs)"
proof (induction xs arbitrary: v)
  case (Cons x xs)
  from history_write [of w v x] obtain a where a: "history (bw_retained w) v @ line_of x = a @ history (bw_retained w) (write_spec w x v)" by blast
  from Cons [of "write_spec w x v"] obtain b where
    "history (bw_retained w) (write_spec w x v) @ concat (map line_of xs) =
      b @ history (bw_retained w) (foldl (\<lambda>v x. write_spec w x v) (write_spec w x v) xs)" by blast
  with a show ?case by (intro exI [of _ "a @ b"]) (metis append.assoc concat.simps(2) foldl_Cons list.map(2))
qed simp

lemma spec_bounded:
  assumes "\<forall>k. length (the_text (v k)) \<le> M" "bw_max w < M" "length x < M"
  shows "\<forall>k. length (the_text (write_spec w x v k)) \<le> M"
  using assms by (auto simp: write_spec_def Let_def rotate_slots_def line_of_def the_text_def split: if_splits)

lemma spec_all_bounded:
  "\<forall>k. length (the_text (v k)) \<le> M \<Longrightarrow> bw_max w < M \<Longrightarrow> \<forall>x \<in> set xs. length x < M \<Longrightarrow>
     \<forall>k. length (the_text (foldl (\<lambda>v x. write_spec w x v) v xs k)) \<le> M"
proof (induction xs arbitrary: v)
  case (Cons x xs)
  from Cons.IH [OF spec_bounded [OF Cons.prems(1,2), of x] Cons.prems(2)] Cons.prems(3) show ?case by simp
qed simp

subsection \<open>Properties\<close>

text \<open>C12. The backup files are a bounded, gapless window on the log. While no system call fails, writing any messages succeeds
  and does to the numbered files what \<open>write_spec\<close> says: append, or first move every file to the next number and drop the
  last. Hence the retained files, read from the highest number to the live file, are the end of everything
  written, with a newline after each message that has none, and no file is longer than the limit plus the
  added newline, or than one message with it.\<close>

theorem backup_files_window:
  assumes "rot_ok (bw_name w) s" and "contents s (bw_name w) = (\<lambda>k. None)"
    and "run_state (Writes w xs) s = (ok, t)"
  shows "ok \<and> contents t (bw_name w) = foldl (\<lambda>v x. write_spec w x v) (\<lambda>k. None) xs \<and>
    (\<exists>dropped. concat (map line_of xs) = dropped @ history (bw_retained w) (contents t (bw_name w))) \<and>
    (\<forall>k. length (the_text (contents t (bw_name w) k)) \<le> Max (insert (bw_max w) (length ` set xs)) + 1)"
proof -
  from Writes_run [OF assms(1), of xs] assms(2,3) have run: "ok" "contents t (bw_name w) = foldl (\<lambda>v x. write_spec w x v) (\<lambda>k. None) xs"
    by auto
  have empty: "history (bw_retained w) (\<lambda>k. None) = []" by (simp add: history_def the_text_def)
  let ?M = "Max (insert (bw_max w) (length ` set xs))"
  have M: "bw_max w < ?M + 1" "\<forall>x \<in> set xs. length x < ?M + 1" by (auto simp: less_Suc_eq_le intro: Max_ge)
  have "\<forall>k. length (the_text (None :: string option)) \<le> ?M + 1" by (simp add: the_text_def)
  from spec_all_bounded [of "\<lambda>k. None", OF this M] history_writes [of w "\<lambda>k. None" xs] run empty show ?thesis by simp
qed

definition small_writer :: backup_writer where
  "small_writer = \<lparr>bw_name = ''/b'', bw_max = 4, bw_retained = 1\<rparr>"

lemma small_writer_ready: "rot_ok ''/b'' (boot [] [] [])" "contents (boot [] [] []) ''/b'' = (\<lambda>k. None)"
proof -
  have f: "proper_file_name ''/b''" by (simp add: proper_file_name_def)
  have "lookup (boot [] [] []) (slot_name ''/b'' k) = None" for k
    by (simp add: lookup_slot [OF f]) (simp add: boot_def slot_key_def dir_key_def)
  then show "rot_ok ''/b'' (boot [] [] [])" "contents (boot [] [] []) ''/b'' = (\<lambda>k. None)"
    by (simp_all add: rot_ok_def f contents_def slot_def fun_eq_iff) (simp add: boot_def fs_wf_def dir_key_def is_absolute_def)
qed

lemma backup_files_window_witness:
  "\<exists>t. run_state (Writes small_writer [''abcd'', ''ef'', ''g'']) (boot [] [] []) = (True, t) \<and>
     contents t ''/b'' 1 = Some (''abcd'' @ [LF]) \<and> contents t ''/b'' 0 = Some (''ef'' @ [LF] @ ''g'' @ [LF])"
proof -
  obtain ok t where r: "run_state (Writes small_writer [''abcd'', ''ef'', ''g'']) (boot [] [] []) = (ok, t)" by fastforce
  have n: "bw_name small_writer = ''/b''" by (simp add: small_writer_def)
  from backup_files_window [OF small_writer_ready [folded n] r] have
    "ok" "contents t ''/b'' = foldl (\<lambda>v x. write_spec small_writer x v) (\<lambda>k. None) [''abcd'', ''ef'', ''g'']" by (simp_all add: n)
  moreover have "foldl (\<lambda>v x. write_spec small_writer x v) (\<lambda>k. None) [''abcd'', ''ef'', ''g''] 1 = Some (''abcd'' @ [LF])"
    "foldl (\<lambda>v x. write_spec small_writer x v) (\<lambda>k. None) [''abcd'', ''ef'', ''g''] 0 = Some (''ef'' @ [LF] @ ''g'' @ [LF])"
    by (simp_all add: write_spec_def Let_def small_writer_def rotate_slots_def the_text_def line_of_def needs_newline_def)
  ultimately show ?thesis using r by metis
qed

end
