(* ===== verification/Backup_Server.thy ===== *)
theory Backup_Server
  imports Backup_Client Backup_Writer Steps
begin

text \<open>
  \<^verbatim>\<open>src/log_system/logs_code/backlog/ServerBackupLog.cpp\<close> and \<^verbatim>\<open>ServerBackupLog.hpp\<close>: the server that receives backups. One connection
  is a list of what \<^verbatim>\<open>recv\<close> returns, until the end of the stream; \<open>HandleConnection\<close> returns what it gives to the
  callback, if anything. The counting of connections is a transition system, since the accepting thread and
  the threads of the connections run at the same time.
\<close>

subsection \<open>One connection\<close>

datatype received = Received string | Recv_error net_errno

definition kMaxMessageSize :: nat where
  "kMaxMessageSize = 1024 * 1024"

fun recv_loop :: "received list \<Rightarrow> string \<Rightarrow> string option" where
  "recv_loop [] message = Some message"
| "recv_loop (Recv_error e # rs) message = (if e = E_INTR then recv_loop rs message else None)"
| "recv_loop (Received d # rs) message =
     (if d = [] then Some message
      else if kMaxMessageSize < length message + length d then None
      else recv_loop rs (message @ d))"

definition strip_token :: "string \<Rightarrow> string \<Rightarrow> string option" where
  "strip_token expected_token message =
     (if expected_token = [] then Some message
      else case find_char LF message 0 of
        None \<Rightarrow> None
      | Some delimiter \<Rightarrow>
          if substr message 0 delimiter \<noteq> expected_token then None else Some (drop (delimiter + 1) message))"

definition HandleConnection :: "string \<Rightarrow> bool \<Rightarrow> received list \<Rightarrow> string \<Rightarrow> string option" where
  "HandleConnection expected_token timeout_set reads client_info =
     (if \<not> timeout_set then None
      else case recv_loop reads [] of
        None \<Rightarrow> None
      | Some message \<Rightarrow> (case strip_token expected_token message of
          None \<Rightarrow> None
        | Some message \<Rightarrow> if message \<noteq> [] then Some (client_info @ '' '' @ message) else None))"

definition client_info :: "string \<Rightarrow> nat \<Rightarrow> string" where
  "client_info address port = address @ '':'' @ to_dec port"

subsection \<open>The server object and the program\<close>

record tcp_server =
  sv_port :: nat
  sv_address :: string
  sv_token :: string
  sv_max_connections :: u64
  sv_receive_timeout :: int

text \<open>\<open>has_callback\<close>: the callback is not empty.\<close>

definition TcpServer :: "nat \<Rightarrow> string \<Rightarrow> bool \<Rightarrow> string \<Rightarrow> u64 \<Rightarrow> int \<Rightarrow> string + tcp_server" where
  "TcpServer port address has_callback token max_connections timeout =
     (if \<not> has_callback \<or> max_connections = 0 \<or> timeout \<le> 0 then Inl ''invalid backup server configuration''
      else Inr \<lparr>sv_port = port, sv_address = address, sv_token = token, sv_max_connections = max_connections,
        sv_receive_timeout = timeout\<rparr>)"

text \<open>The options, the address and the queue of the listening socket are calls that succeed or fail.\<close>

definition Init :: "(string \<Rightarrow> bool) \<Rightarrow> tcp_server \<Rightarrow> (bool \<times> nat option) net_io" where
  "Init is_ipv4 sv = do {
     fd \<leftarrow> socket;
     case fd of
       None \<Rightarrow> give (False, None)
     | Some fd \<Rightarrow> do {
         reuse \<leftarrow> sock_call fd id;
         if \<not> reuse then give (False, Some fd)
         else if \<not> is_ipv4 (c_str (sv_address sv)) then give (False, Some fd)
         else do {
           bound \<leftarrow> sock_call fd id;
           if \<not> bound then give (False, Some fd)
           else do { listening \<leftarrow> sock_call fd id; give (listening, Some fd) } } } }"

definition TcpServer_destructor :: "nat option \<Rightarrow> unit net_io" where
  "TcpServer_destructor listen_socket = (case listen_socket of None \<Rightarrow> skip | Some fd \<Rightarrow> do { close_sock fd; skip })"

datatype main_result = Exit int | Runs backup_writer tcp_server

definition server_main :: "string list \<Rightarrow> (string \<Rightarrow> string option) \<Rightarrow> (string \<Rightarrow> bool) \<Rightarrow> main_result net_io" where
  "server_main argv getenv is_ipv4 =
     (if length argv < 2 \<or> 3 < length argv then give (Exit 2)
      else case from_chars (2 ^ 32) (argv ! 1) of
        Inl e \<Rightarrow> give (Exit 2)
      | Inr (port_value, rest) \<Rightarrow>
          if rest \<noteq> [] \<or> port_value = 0 \<or> 65535 < port_value then give (Exit 2)
          else
            let listen_address = (if length argv = 3 then argv ! 2 else ''127.0.0.1'');
                expected_token = (case getenv ''ASYNLOG_BACKUP_TOKEN'' of None \<Rightarrow> [] | Some t \<Rightarrow> t);
                filename = (case getenv ''ASYNLOG_BACKUP_FILE'' of None \<Rightarrow> ''./logfile.log'' | Some f \<Rightarrow> f);
                writer = BackupFileWriter filename
            in case TcpServer port_value listen_address True expected_token 64 5 of
                 Inl e \<Rightarrow> give (Exit 1)
               | Inr server \<Rightarrow> do {
                   ok \<leftarrow> Init is_ipv4 server;
                   if fst ok then give (Runs writer server)
                   else do { TcpServer_destructor (snd ok); give (Exit 1) } })"

subsection \<open>Accepting\<close>

text \<open>
  Where the accepting thread stands: in \<^verbatim>\<open>accept\<close>, with a new connection, with one it has counted (and the number
  before), or about to close one it does not serve. The handlers run; those that have closed their socket leave by
  lowering the counter, as the destructor of \<^verbatim>\<open>ConnectionGuard\<close> does.
\<close>

datatype accept_phase = Accepting | Accepted | Counted u64 | Refusing

record acceptor =
  acc_phase :: accept_phase
  active :: u64
  handlers :: nat
  leaving :: nat

datatype accept_event = Accept_fails | Accepts | Counts | Too_many | No_address | Spawns | Spawn_fails | Closes
  | Handler_closes | Handler_leaves

definition fetch_sub :: "acceptor \<Rightarrow> acceptor" where
  "fetch_sub a = a\<lparr>active := active a - 1, acc_phase := Refusing\<rparr>"

fun accept_next :: "u64 \<Rightarrow> acceptor \<Rightarrow> accept_event \<Rightarrow> acceptor option" where
  "accept_next limit a Accept_fails = (if acc_phase a = Accepting then Some a else None)"
| "accept_next limit a Accepts = (if acc_phase a = Accepting then Some (a\<lparr>acc_phase := Accepted\<rparr>) else None)"
| "accept_next limit a Counts =
     (if acc_phase a = Accepted then Some (a\<lparr>active := active a + 1, acc_phase := Counted (active a)\<rparr>) else None)"
| "accept_next limit a Too_many = (case acc_phase a of
     Counted previous \<Rightarrow> if limit \<le> previous then Some (fetch_sub a) else None | _ \<Rightarrow> None)"
| "accept_next limit a No_address = (case acc_phase a of
     Counted previous \<Rightarrow> if limit \<le> previous then None else Some (fetch_sub a) | _ \<Rightarrow> None)"
| "accept_next limit a Spawns = (case acc_phase a of
     Counted previous \<Rightarrow> if limit \<le> previous then None else Some (a\<lparr>acc_phase := Accepting, handlers := handlers a + 1\<rparr>)
   | _ \<Rightarrow> None)"
| "accept_next limit a Spawn_fails = (case acc_phase a of
     Counted previous \<Rightarrow> if limit \<le> previous then None else Some (fetch_sub a) | _ \<Rightarrow> None)"
| "accept_next limit a Closes = (if acc_phase a = Refusing then Some (a\<lparr>acc_phase := Accepting\<rparr>) else None)"
| "accept_next limit a Handler_closes =
     (if 0 < handlers a then Some (a\<lparr>handlers := handlers a - 1, leaving := leaving a + 1\<rparr>) else None)"
| "accept_next limit a Handler_leaves =
     (if 0 < leaving a then Some (a\<lparr>leaving := leaving a - 1, active := active a - 1\<rparr>) else None)"

fun_cases accept_nextE: "accept_next limit a e = Some b"

definition accept_step :: "u64 \<Rightarrow> acceptor \<Rightarrow> accept_event \<Rightarrow> acceptor \<Rightarrow> bool" where
  "accept_step limit a e b \<longleftrightarrow> accept_next limit a e = Some b"

definition listening_server :: acceptor where
  "listening_server = \<lparr>acc_phase = Accepting, active = 0, handlers = 0, leaving = 0\<rparr>"

text \<open>The connections that are open: those of the handlers and the one the accepting thread holds.\<close>

definition open_connections :: "acceptor \<Rightarrow> nat" where
  "open_connections a = handlers a + (if acc_phase a = Accepting then 0 else 1)"

definition accept_inv :: "u64 \<Rightarrow> acceptor \<Rightarrow> bool" where
  "accept_inv limit a \<longleftrightarrow> limit < - 1 \<and> handlers a + leaving a \<le> unat limit \<and>
     unat (active a) = handlers a + leaving a + (case acc_phase a of Counted previous \<Rightarrow> 1 | _ \<Rightarrow> 0) \<and>
     (case acc_phase a of Counted previous \<Rightarrow> handlers a + leaving a \<le> unat previous | _ \<Rightarrow> True)"

lemma below_max: "(limit :: u64) < - 1 \<Longrightarrow> unat limit + 1 < 2 ^ 64"
  by (simp add: word_less_nat_alt unsigned_minus_1_eq_mask mask_eq_exp_minus_1)

lemma unat_step_up: "unat (n :: u64) + 1 < 2 ^ 64 \<Longrightarrow> unat (n + 1) = unat n + 1"
  using unat_add_u64 [of n 1] by simp

lemma unat_step_down: "0 < unat (n :: u64) \<Longrightarrow> unat (n - 1) = unat n - 1"
  using unat_pred_u64 [of n] by (auto simp: unat_gt_0)

lemma accept_keeps:
  assumes "accept_inv limit a" "accept_step limit a e b"
  shows "accept_inv limit b"
proof -
  have l: "unat limit + 1 < 2 ^ 64" using assms(1) below_max by (simp add: accept_inv_def)
  have up: "unat (active a + 1) = unat (active a) + 1" if "acc_phase a = Accepted"
    using that assms(1) l by (intro unat_step_up) (simp add: accept_inv_def)
  have down: "unat (active a - 1) = unat (active a) - 1" if "0 < unat (active a)"
    using that by (rule unat_step_down)
  from assms show ?thesis
    by (cases e)
      (auto simp: accept_step_def accept_inv_def fetch_sub_def up down word_le_nat_alt
        split: if_splits accept_phase.splits)
qed

lemma accept_starts: "limit < - 1 \<Longrightarrow> accept_inv limit listening_server"
  by (simp add: accept_inv_def listening_server_def)

interpretation ac: invariant_steps "accept_step limit" "\<lambda>a. limit < - 1 \<and> a = listening_server" "accept_inv limit" for limit
  by unfold_locales (auto intro: accept_keeps accept_starts)

subsection \<open>Messages\<close>

text \<open>A stream that ends without an error: pieces that are not empty, and interrupted calls.\<close>

definition clean :: "received list \<Rightarrow> bool" where
  "clean reads = list_all (\<lambda>r. case r of Received d \<Rightarrow> d \<noteq> [] | Recv_error e \<Rightarrow> e = E_INTR) reads"

definition data_of :: "received list \<Rightarrow> string" where
  "data_of reads = concat (map (\<lambda>r. case r of Received d \<Rightarrow> d | Recv_error e \<Rightarrow> []) reads)"

lemma data_of_simps [simp]: "data_of [] = []" "data_of (Received d # rs) = d @ data_of rs" "data_of (Recv_error e # rs) = data_of rs"
  by (simp_all add: data_of_def)

lemma recv_loop_clean:
  "clean reads \<Longrightarrow> length message \<le> kMaxMessageSize \<Longrightarrow>
     recv_loop reads message = (if length message + length (data_of reads) \<le> kMaxMessageSize then Some (message @ data_of reads) else None)"
  by (induction reads message rule: recv_loop.induct) (auto simp: clean_def)

lemma strip_token_Some:
  "strip_token token message = Some m \<longleftrightarrow> LF \<notin> set token \<and> message = (if token = [] then m else token @ LF # m)"
proof (cases "token = []")
  case False
  show ?thesis
  proof
    assume "strip_token token message = Some m"
    with False obtain d where d: "find_char LF message 0 = Some d" "substr message 0 d = token" "m = drop (d + 1) message"
      by (auto simp: strip_token_def split: option.splits if_splits)
    from d(1) obtain a b where "message = a @ LF # b" "LF \<notin> set a" "d = length a" unfolding find_char_0_Some by blast
    with d(2,3) False show "LF \<notin> set token \<and> message = (if token = [] then m else token @ LF # m)" by (simp add: substr_def)
  next
    assume "LF \<notin> set token \<and> message = (if token = [] then m else token @ LF # m)"
    with False show "strip_token token message = Some m"
      by (simp add: strip_token_def find_char_0_append substr_def)
  qed
qed (simp add: strip_token_def)

lemma HandleConnection_clean:
  assumes "clean reads"
  shows "HandleConnection token True reads info = Some x \<longleftrightarrow>
    (\<exists>m. m \<noteq> [] \<and> x = info @ '' '' @ m \<and> LF \<notin> set token \<and> data_of reads = (if token = [] then m else token @ LF # m) \<and>
       length (data_of reads) \<le> kMaxMessageSize)"
proof (cases "length (data_of reads) \<le> kMaxMessageSize")
  case True
  then have "recv_loop reads [] = Some (data_of reads)" using recv_loop_clean [OF assms, of "[]"] by simp
  then have "HandleConnection token True reads info = Some x \<longleftrightarrow>
      (\<exists>m. strip_token token (data_of reads) = Some m \<and> m \<noteq> [] \<and> x = info @ '' '' @ m)"
    by (auto simp: HandleConnection_def split: option.splits)
  with True show ?thesis unfolding strip_token_Some by blast
next
  case False
  then have "recv_loop reads [] = None" using recv_loop_clean [OF assms, of "[]"] by simp
  with False show ?thesis by (simp add: HandleConnection_def)
qed

lemma handler_sound:
  assumes "HandleConnection token ok reads info = Some x"
  shows "\<exists>n m. m \<noteq> [] \<and> x = info @ '' '' @ m \<and> data_of (take n reads) = (if token = [] then m else token @ LF # m) \<and>
    length (data_of (take n reads)) \<le> kMaxMessageSize"
proof -
  from assms obtain y m where y: "recv_loop reads [] = Some y" "strip_token token y = Some m" "m \<noteq> []" "x = info @ '' '' @ m"
    by (auto simp: HandleConnection_def split: if_splits option.splits)
  have "recv_loop rs z = Some y \<Longrightarrow> length z \<le> kMaxMessageSize \<Longrightarrow>
      \<exists>n. y = z @ data_of (take n rs) \<and> length y \<le> kMaxMessageSize" for rs z
  proof (induction rs z rule: recv_loop.induct)
    case (2 e rs z)
    then obtain n where "y = z @ data_of (take n rs)" "length y \<le> kMaxMessageSize" by (auto split: if_splits)
    then show ?case by (intro exI [of _ "Suc n"]) simp
  next
    case (3 d rs z)
    show ?case
    proof (cases "d = []")
      case True
      with 3 show ?thesis by (intro exI [of _ 0]) simp
    next
      case False
      with 3 obtain n where "y = (z @ d) @ data_of (take n rs)" "length y \<le> kMaxMessageSize" by (auto split: if_splits)
      then show ?thesis by (intro exI [of _ "Suc n"]) simp
    qed
  qed simp
  from this [OF y(1)] obtain n where "y = data_of (take n reads)" "length y \<le> kMaxMessageSize" by auto
  with y(2-4) show ?thesis by (intro exI [of _ n] exI [of _ m]) (simp add: strip_token_Some)
qed

subsection \<open>Properties\<close>

text \<open>C27. Who does not know the token logs nothing, and nothing is invented. Whatever arrives on a connection, if the server
  hands on a message then what it received up to that point, at most one mebibyte, is the expected token, a newline and that
  message, or just the message if no token is configured; and a stream that ends without an error is handed on exactly when
  it has this form.\<close>

theorem token_required:
  shows "(HandleConnection token ok reads info = Some x \<longrightarrow>
      (\<exists>n m. m \<noteq> [] \<and> x = info @ '' '' @ m \<and> data_of (take n reads) = (if token = [] then m else token @ LF # m) \<and>
         length (data_of (take n reads)) \<le> kMaxMessageSize)) \<and>
    (clean reads \<longrightarrow> (HandleConnection token True reads info = Some x \<longleftrightarrow>
      (\<exists>m. m \<noteq> [] \<and> x = info @ '' '' @ m \<and> LF \<notin> set token \<and> data_of reads = (if token = [] then m else token @ LF # m) \<and>
         length (data_of reads) \<le> kMaxMessageSize)))"
  using handler_sound [of token ok reads info x] HandleConnection_clean [of reads token info x] by blast

text \<open>C13. From the client into the backup file. Suppose \<open>Start\<close> returned true, after whatever retries,
  interruptions and partial transfers, and the bytes it sent over its last connection reach, in pieces of any size, a server
  with the same token, which contains no newline. If the message is not empty and fits the size limit with its token, the
  server hands it on, once and unchanged, after the address of the client, exactly if it could set the receive
  timeout of the connection; otherwise nothing is handed on, and the client, which gets no answer, has reported success all the
  same. What is handed on \<open>Write\<close> puts at the end of the live file, rotating first if it must, provided the directory is there,
  no backup name is a directory and no call on the files fails.\<close>

theorem backup_end_to_end:
  assumes "backup_enabled c" and "0 < backup_retries c"
    and "run_state (backup_Start is_ipv4 (Some c) message) n = (True, m)"
    and "socks m (next_sock m - 1) = Some k" and "clean reads" and "data_of reads = outbox k"
    and "LF \<notin> set (backup_token c)" and "message \<noteq> []" and "length (backup_payload c message) \<le> kMaxMessageSize"
  shows "HandleConnection (backup_token c) timeout_set reads info = (if timeout_set then Some (info @ '' '' @ message) else None) \<and>
    (rot_ok (bw_name w) s \<longrightarrow>
      (\<exists>t. run_state (Write w (info @ '' '' @ message)) s = (True, t) \<and> rot_ok (bw_name w) t \<and>
         contents t (bw_name w) = write_spec w (info @ '' '' @ message) (contents s (bw_name w))))"
proof -
  obtain left where left: "nat (backup_retries c) = Suc left" using assms(2) by (metis gr0_implies_Suc zero_less_nat_eq)
  have "is_ipv4 (c_str (backup_addr c))" using assms(1,3) by (auto simp: backup_Start_def split: if_splits)
  with assms(1,3) have "run_state (attempts c (backup_payload c message) (nat (backup_retries c))) n = (True, m)"
    by (simp add: backup_Start_def)
  from attempts_run [OF this] have "delivered (backup_payload c message) (socks m (next_sock m - 1))"
    by (auto simp: made_between_def split: if_splits dest: spec [of _ "next_sock m - 1"])
  with assms(4) have "outbox k = backup_payload c message" by (simp add: delivered_def)
  with assms(6) have "data_of reads = (if backup_token c = [] then message else backup_token c @ LF # message)"
    by (simp add: backup_payload_def)
  then have "HandleConnection (backup_token c) True reads info = Some (info @ '' '' @ message)"
    using assms(6-9) \<open>outbox k = backup_payload c message\<close> by (subst HandleConnection_clean [OF assms(5)]) auto
  moreover have "HandleConnection (backup_token c) False reads info = None" by (simp add: HandleConnection_def)
  moreover have "\<exists>t. run_state (Write w (info @ '' '' @ message)) s = (True, t) \<and> rot_ok (bw_name w) t \<and>
      contents t (bw_name w) = write_spec w (info @ '' '' @ message) (contents s (bw_name w))" if "rot_ok (bw_name w) s"
    using Write_run [OF that] by blast
  ultimately show ?thesis by (cases timeout_set) simp_all
qed

text \<open>C14. At most \<open>max_connections\<close> connections are served at a time. Whatever the interleaving of the accepting thread and the
  handlers, the counter is the number of handlers that have not left it, plus one while a new connection is being
  judged, so that it never wraps around; at most one connection beyond the limit is open; and when no handler is
  left and none is being judged the counter is back at zero.\<close>

theorem connections_bounded:
  assumes "limit < - 1" and "exec (accept_step limit) listening_server es a"
  shows "handlers a \<le> unat limit \<and> open_connections a \<le> unat limit + 1 \<and>
    unat (active a) = handlers a + leaving a + (case acc_phase a of Counted previous \<Rightarrow> 1 | _ \<Rightarrow> 0) \<and>
    (handlers a = 0 \<and> leaving a = 0 \<and> acc_phase a = Accepting \<longrightarrow> active a = 0)"
proof -
  have "accept_inv limit a" using ac.inv_reached [OF _ assms(2)] assms(1) by blast
  moreover then have "active a = 0" if "handlers a = 0" "leaving a = 0" "acc_phase a = Accepting"
    using that by (simp add: accept_inv_def unat_eq_zero)
  ultimately show ?thesis by (auto simp: accept_inv_def open_connections_def)
qed

text \<open>A message that was cut off while it was sent looks complete to the server, and the client sends it again.\<close>

definition broken_net :: net where
  "broken_net = \<lparr>replies = [Works, Works, Works, Works, Works, Works, Transfers 7, Fails E_PIPE],
     net_errno = E_INVAL, socks = Map.empty, next_sock = 3\<rparr>"

lemma truncated_message_accepted:
  "\<exists>m cut full. run_state (backup_Start (\<lambda>a. True) (Some client_conf) ''hello'') broken_net = (True, m) \<and>
     map_option outbox (socks m 3) = Some cut \<and> map_option outbox (socks m 4) = Some full \<and>
     HandleConnection (backup_token client_conf) True [Received cut] ''c'' = Some ''c hel'' \<and>
     HandleConnection (backup_token client_conf) True [Received full] ''c'' = Some ''c hello''"
proof -
  obtain ok m where r: "run_state (backup_Start (\<lambda>a. True) (Some client_conf) ''hello'') broken_net = (ok, m)" by fastforce
  have "(case run_state (backup_Start (\<lambda>a. True) (Some client_conf) ''hello'') broken_net of (ok, m) \<Rightarrow> ok \<and>
      map_option outbox (socks m 3) = Some (''key'' @ [LF] @ ''hel'') \<and> map_option outbox (socks m 4) = Some (''key'' @ [LF] @ ''hello''))"
    by code_simp
  then have m: "ok" "map_option outbox (socks m 3) = Some (''key'' @ [LF] @ ''hel'')"
      "map_option outbox (socks m 4) = Some (''key'' @ [LF] @ ''hello'')"
    unfolding r by simp_all
  have k: "backup_token client_conf = ''key''" by (simp add: client_conf_def)
  have "HandleConnection (backup_token client_conf) True [Received (''key'' @ [LF] @ y)] ''c'' = Some (''c '' @ y)"
    if "y \<noteq> []" "length y < 10" for y
    using that HandleConnection_clean [of "[Received (''key'' @ [LF] @ y)]" "''key''" "''c''" "''c '' @ y"]
    unfolding k by (simp add: clean_def kMaxMessageSize_def)
  from this [of "''hel''"] this [of "''hello''"] m r show ?thesis by auto
qed

subsection \<open>Examples\<close>

lemma token_required_witness:
  "HandleConnection ''key'' True [Received ''ke'', Recv_error E_INTR, Received (''y'' @ [LF] @ ''hi'')] ''c'' = Some ''c hi''"
proof -
  let ?reads = "[Received ''ke'', Recv_error E_INTR, Received (''y'' @ [LF] @ ''hi'')]"
  have "clean ?reads" by (simp add: clean_def)
  with token_required [of "''key''" True ?reads "''c''" "''c hi''"] show ?thesis
    by (simp add: kMaxMessageSize_def)
qed

lemma backup_end_to_end_witness:
  "\<exists>m k t. run_state (backup_Start (\<lambda>a. True) (Some client_conf) ''hello'') rough_net = (True, m) \<and> socks m 4 = Some k \<and>
     HandleConnection ''key'' True [Received (take 2 (outbox k)), Received (drop 2 (outbox k))] ''c'' = Some ''c hello'' \<and>
     run_state (Write small_writer ''c hello'') (boot [] [] []) = (True, t) \<and> contents t ''/b'' 0 = Some (''c hello'' @ [LF])"
proof -
  obtain ok m where ok: "run_state (backup_Start (\<lambda>a. True) (Some client_conf) ''hello'') rough_net = (ok, m)" by fastforce
  have "(case run_state (backup_Start (\<lambda>a. True) (Some client_conf) ''hello'') rough_net of (ok, m) \<Rightarrow> ok \<and> next_sock m = 5 \<and>
      map_option outbox (socks m 4) = Some (''key'' @ [LF] @ ''hello''))" by code_simp
  then have m: "run_state (backup_Start (\<lambda>a. True) (Some client_conf) ''hello'') rough_net = (True, m)" "next_sock m = 5"
    "map_option outbox (socks m 4) = Some (''key'' @ [LF] @ ''hello'')"
    using ok unfolding ok by simp_all
  then obtain k where k: "socks m 4 = Some k" "outbox k = ''key'' @ [LF] @ ''hello''" by auto
  let ?reads = "[Received (take 2 (outbox k)), Received (drop 2 (outbox k))]"
  have c: "backup_enabled client_conf" "0 < backup_retries client_conf" "backup_token client_conf = ''key''"
    by (simp_all add: client_conf_def)
  have r: "clean ?reads" "data_of ?reads = outbox k" "socks m (next_sock m - 1) = Some k"
    "LF \<notin> set (backup_token client_conf)" "length (backup_payload client_conf ''hello'') \<le> kMaxMessageSize"
    using k m(2) by (simp_all add: clean_def c(3) backup_payload_def kMaxMessageSize_def)
  have n: "bw_name small_writer = ''/b''" by (simp add: small_writer_def)
  have ne: "''hello'' \<noteq> []" by simp
  from backup_end_to_end [OF c(1,2) m(1) r(3,1,2,4) ne r(5), of True "''c''" small_writer "boot [] [] []"]
    small_writer_ready(1) obtain t where
    h: "HandleConnection ''key'' True ?reads ''c'' = Some (''c'' @ '' '' @ ''hello'')"
    and t: "run_state (Write small_writer (''c'' @ '' '' @ ''hello'')) (boot [] [] []) = (True, t)"
      "contents t ''/b'' = write_spec small_writer (''c'' @ '' '' @ ''hello'') (contents (boot [] [] []) ''/b'')"
    unfolding c(3) n if_True by blast
  have "contents t ''/b'' 0 = Some (''c hello'' @ [LF])"
    unfolding t(2) small_writer_ready(2)
    by (simp add: write_spec_def Let_def small_writer_def rotate_slots_def the_text_def line_of_def needs_newline_def)
  with h t(1) m(1) k(1) show ?thesis by auto
qed

lemma connections_bounded_witness:
  "\<exists>a. exec (accept_step 1) listening_server [Accepts, Counts, Spawns, Accepts, Counts, Too_many] a \<and> handlers a \<le> 1 \<and>
     open_connections a = 2"
proof -
  obtain a where a: "exec (accept_step 1) listening_server [Accepts, Counts, Spawns, Accepts, Counts, Too_many] a" "open_connections a = 2"
    by (auto simp: accept_step_def listening_server_def open_connections_def fetch_sub_def)
  have "(1 :: u64) < - 1" by (simp add: word_less_nat_alt unsigned_minus_1_eq_mask mask_eq_exp_minus_1)
  from connections_bounded [OF this a(1)] have "handlers a \<le> 1" by simp
  with a show ?thesis by blast
qed

end
