(* ===== verification/Logger.thy ===== *)
theory Logger
  imports Async_Worker Log_Flush Thread_Pool Backup_Client
begin

text \<open>
  \<^verbatim>\<open>src/log_system/logs_code/AsyncLogger.hpp\<close>, \<^verbatim>\<open>Manager.hpp\<close> and \<^verbatim>\<open>MyLog.hpp\<close>: what joins the parts of the logging library.
  A logger formats a message, pushes it to its worker, and routes errors to the backup server; its worker hands
  what it has buffered to the flushers; the manager keeps the loggers by name. \<^verbatim>\<open>vasprintf\<close> is a parameter, which
  may fail.
\<close>

subsection \<open>AsyncLogger\<close>

definition Log :: "(string \<Rightarrow> 'a \<Rightarrow> string option) \<Rightarrow> string option \<Rightarrow> string option \<Rightarrow> 'a \<Rightarrow> (string \<times> string) option" where
  "Log vasprintf file format arguments = (case format of
     None \<Rightarrow> None
   | Some format \<Rightarrow> (case vasprintf format arguments of
       None \<Rightarrow> None
     | Some formatted \<Rightarrow> Some (case file of None \<Rightarrow> ''unknown'' | Some f \<Rightarrow> f, c_str formatted)))"

text \<open>The counters, the pool behind \<^verbatim>\<open>tp\<close>, whose tasks here are the messages to send, and the network.\<close>

record log_world =
  remote_failures :: u64
  remote_drops :: u64
  send_pool :: "string pool option"
  network :: net

definition RemoteBackupFailures :: "log_world \<Rightarrow> u64" where
  "RemoteBackupFailures lw = remote_failures lw"

definition RemoteBackupDrops :: "log_world \<Rightarrow> u64" where
  "RemoteBackupDrops lw = remote_drops lw"

text \<open>Sending and counting a failure: what the logging thread does for a fatal message, and a task of the pool for an error.\<close>

definition send_backup :: "(string \<Rightarrow> bool) \<Rightarrow> log_config option \<Rightarrow> string \<Rightarrow> log_world \<Rightarrow> log_world" where
  "send_backup is_ipv4 conf data lw = (case run_state (backup_Start is_ipv4 conf data) (network lw) of
     (ok, n) \<Rightarrow> lw\<lparr>network := n, remote_failures := remote_failures lw + (if ok then 0 else 1)\<rparr>)"

definition backup_wanted :: "log_config option \<Rightarrow> bool" where
  "backup_wanted conf = (case conf of None \<Rightarrow> False | Some c \<Rightarrow> backup_enabled c)"

text \<open>\<open>log_Serialize\<close>: the text of the message, then, with the result of \<open>Push\<close>, the route of the backup.\<close>

definition serialized :: "(int \<Rightarrow> tm) \<Rightarrow> int \<Rightarrow> nat \<Rightarrow> string \<Rightarrow> log_level \<Rightarrow> string \<Rightarrow> u64 \<Rightarrow> string \<Rightarrow> string" where
  "serialized localtime now thread name level file line text = Format localtime (LogMessage now thread level file line name text)"

definition log_Serialize :: "(string \<Rightarrow> bool) \<Rightarrow> log_config option \<Rightarrow> log_level \<Rightarrow> string \<Rightarrow> bool \<Rightarrow> log_world \<Rightarrow> log_world" where
  "log_Serialize is_ipv4 conf level data pushed lw =
     (if \<not> pushed then lw
      else if level = FATAL then send_backup is_ipv4 conf data lw
      else if level = ERROR \<and> backup_wanted conf then
        (case send_pool lw of
           None \<Rightarrow> lw\<lparr>remote_drops := remote_drops lw + 1\<rparr>
         | Some p \<Rightarrow> (case TryEnqueue p data of
             (True, q) \<Rightarrow> lw\<lparr>send_pool := Some q\<rparr>
           | (False, q) \<Rightarrow> lw\<lparr>send_pool := Some q, remote_drops := remote_drops lw + 1\<rparr>))
      else lw)"

text \<open>The callback of the worker: every flusher in turn.\<close>

fun RealFlush :: "log_config option \<Rightarrow> stamp \<Rightarrow> nat \<Rightarrow> string \<Rightarrow> flusher list \<Rightarrow> ('z, flusher list) io" where
  "RealFlush conf now pid data [] = give []"
| "RealFlush conf now pid data (fl # fls) = do {
     fl \<leftarrow> Flush conf now pid data fl;
     fls \<leftarrow> RealFlush conf now pid data fls;
     give (fl # fls) }"

subsection \<open>LoggerBuilder\<close>

record logger_builder =
  lb_name :: string
  lb_flushers :: "flusher list"
  lb_type :: AsyncType

definition new_builder :: logger_builder where
  "new_builder = \<lparr>lb_name = ''async_logger'', lb_flushers = [], lb_type = ASYNC_SAFE\<rparr>"

definition BuildLoggerName :: "string \<Rightarrow> logger_builder \<Rightarrow> logger_builder" where
  "BuildLoggerName name b = b\<lparr>lb_name := name\<rparr>"

definition BuildLoggerType :: "AsyncType \<Rightarrow> logger_builder \<Rightarrow> logger_builder" where
  "BuildLoggerType ty b = b\<lparr>lb_type := ty\<rparr>"

definition BuildLoggerFlush :: "flusher \<Rightarrow> logger_builder \<Rightarrow> logger_builder" where
  "BuildLoggerFlush fl b = b\<lparr>lb_flushers := lb_flushers b @ [fl]\<rparr>"

record async_logger =
  Name :: string
  flushers :: "flusher list"
  the_worker :: worker

datatype build_error = No_name | No_buffer buffer_error

definition Build :: "log_config option \<Rightarrow> logger_builder \<Rightarrow> build_error + async_logger" where
  "Build conf b =
     (if lb_name b = [] then Inl No_name
      else case AsyncWorker conf (lb_type b) of
        Inl e \<Rightarrow> Inl (No_buffer e)
      | Inr w \<Rightarrow> Inr \<lparr>Name = lb_name b,
          flushers = (if lb_flushers b = [] then [StdoutFlush []] else lb_flushers b), the_worker = w\<rparr>)"

subsection \<open>LoggerManager\<close>

text \<open>Loggers are shared pointers, so the manager holds references \<open>'l\<close> with a name.\<close>

record 'l logger_manager =
  default_logger :: "'l option"
  loggers :: "(string, 'l) hash_map"

definition LoggerManager :: "'l \<Rightarrow> 'l logger_manager" where
  "LoggerManager d = \<lparr>default_logger = Some d, loggers = [(''default'', d)]\<rparr>"

definition AddLogger :: "(string \<times> 'l) option \<Rightarrow> 'l logger_manager \<Rightarrow> bool \<times> 'l logger_manager" where
  "AddLogger logger m = (case logger of
     None \<Rightarrow> (False, m)
   | Some (name, l) \<Rightarrow> (case hm_find (loggers m) name of
       None \<Rightarrow> (True, m\<lparr>loggers := hm_assign name l (loggers m)\<rparr>)
     | Some _ \<Rightarrow> (False, m)))"

definition GetLogger :: "string \<Rightarrow> 'l logger_manager \<Rightarrow> 'l option" where
  "GetLogger name m = (case hm_find (loggers m) name of None \<Rightarrow> default_logger m | Some l \<Rightarrow> Some l)"

definition DefaultLogger :: "'l logger_manager \<Rightarrow> 'l option" where
  "DefaultLogger m = default_logger m"

text \<open>The loggers to stop, in the order of the map, and the manager afterwards.\<close>

definition Shutdown :: "'l logger_manager \<Rightarrow> 'l list \<times> 'l logger_manager" where
  "Shutdown m = (map snd (loggers m), m\<lparr>loggers := [], default_logger := None\<rparr>)"

subsection \<open>Flushing what the worker buffered\<close>

fun RealFlushes :: "log_config option \<Rightarrow> nat \<Rightarrow> (stamp \<times> string) list \<Rightarrow> flusher list \<Rightarrow> ('z, flusher list) io" where
  "RealFlushes conf pid [] fls = give fls"
| "RealFlushes conf pid ((now, data) # xs) fls = do { fls \<leftarrow> RealFlush conf now pid data fls; RealFlushes conf pid xs fls }"

lemma console_and_file_run:
  assumes "opened s f i" "faultless (tape s)"
    "run_state (RealFlushes (Some c) pid xs [StdoutFlush shown, File_flusher (Some f)]) s = (fls, t)"
  shows "\<exists>g. fls = [StdoutFlush (shown @ concat (map snd xs)), File_flusher (Some g)] \<and>
    streams i (concat (map snd xs)) f s g t \<and> (1 \<le> flush_log c \<and> (xs \<noteq> [] \<or> unwritten f = []) \<longrightarrow> unwritten g = [])"
  using assms
proof (induction xs arbitrary: shown f s)
  case Nil
  then show ?case by (auto simp: streams_def stream_def ap.refl)
next
  case (Cons x xs)
  obtain now data where x: "x = (now, data)" by (cases x)
  obtain h u where h: "run_state (FileFlush_Flush (Some c) data (Some f)) s = (h, u)" by fastforce
  obtain g n where g: "h = Some g" "streams i (take n data) f s g u" "n = length data" "1 \<le> flush_log c \<Longrightarrow> unwritten g = []"
    by (rule FileFlush_run [OF h Cons.prems(1), of c]) (use Cons.prems(2) in auto)
  have "run_state (RealFlushes (Some c) pid xs [StdoutFlush (shown @ data), File_flusher (Some g)]) u = (fls, t)"
    using Cons.prems(3) h g(1) by (simp add: x Flush_def)
  moreover have "opened u g i" "faultless (tape u)"
    using Cons.prems(1,2) g(2) streams_opened [OF g(2)] by (simp_all add: streams_def)
  ultimately obtain k where
    k: "fls = [StdoutFlush ((shown @ data) @ concat (map snd xs)), File_flusher (Some k)]"
      "streams i (concat (map snd xs)) g u k t" "1 \<le> flush_log c \<and> (xs \<noteq> [] \<or> unwritten g = []) \<longrightarrow> unwritten k = []"
    using Cons.IH by blast
  with streams_trans [OF g(2) k(2)] g(3,4) show ?case by (simp add: x)
qed

subsection \<open>The registry\<close>

fun AddLoggers :: "(string \<times> 'l) list \<Rightarrow> 'l logger_manager \<Rightarrow> 'l logger_manager" where
  "AddLoggers [] m = m"
| "AddLoggers (x # xs) m = AddLoggers xs (snd (AddLogger (Some x) m))"

lemma AddLogger_keeps:
  assumes "hm_ok (loggers m)"
  shows "hm_ok (loggers (snd (AddLogger (Some (k, l)) m)))" "default_logger (snd (AddLogger (Some (k, l)) m)) = default_logger m"
    "hm_find (loggers (snd (AddLogger (Some (k, l)) m))) = (\<lambda>j. case hm_find (loggers m) j of None \<Rightarrow> if j = k then Some l else None | Some x \<Rightarrow> Some x)"
  using assms hm.inv_put [OF assms, of k l] hm.find_put [OF assms, of k l]
  by (auto simp: AddLogger_def fun_eq_iff split: option.splits)

lemma AddLoggers_find:
  assumes "hm_ok (loggers m)"
  shows "hm_ok (loggers (AddLoggers xs m)) \<and> default_logger (AddLoggers xs m) = default_logger m \<and>
    hm_find (loggers (AddLoggers xs m)) j = (case hm_find (loggers m) j of None \<Rightarrow> map_of xs j | Some x \<Rightarrow> Some x)"
  using assms
proof (induction xs arbitrary: m)
  case (Cons x xs)
  obtain k l where x: "x = (k, l)" by (cases x)
  note keep = AddLogger_keeps [OF Cons.prems, of k l]
  from Cons.IH [OF keep(1)] keep(2,3) show ?case by (auto simp: x split: option.splits)
qed (simp split: option.split)

lemma hm_ok_set: "hm_ok m \<Longrightarrow> (k, v) \<in> set m \<longleftrightarrow> hm_find m k = Some v"
  by (simp add: hm_ok_def hm_find_def)

subsection \<open>Properties\<close>

text \<open>C8. What was logged is on disk. Whatever the interleaving of any number of logging threads with the writer, once the writer
  has ended, and if no system call failed while its callback wrote to the console and to a file, the file has
  grown by exactly the messages whose \<open>Push\<close> returned true, in the order they were accepted, and the console has shown
  them too; with \<open>flush_log\<close> set, as in the configuration that is shipped, nothing is left in the C library.\<close>

theorem logged_is_on_disk:
  assumes "0 < linear_growth c" and "reached c ty es w" and "phase w = Exited" and "length stamps = length (flushed w)"
    and "opened s f i" and "faultless (tape s)" and "unwritten f = []"
    and "run_state (RealFlushes (Some c) pid (zip stamps (flushed w)) [StdoutFlush [], File_flusher (Some f)]) s = (fls, t)"
  shows "\<exists>g. fls = [StdoutFlush (concat (accepted w)), File_flusher (Some g)] \<and>
    stream t g i = bytes (inodes s i) @ concat (accepted w) \<and>
    (1 \<le> flush_log c \<longrightarrow> bytes (inodes t i) = bytes (inodes s i) @ concat (accepted w))"
proof -
  have "worker_inv c w" by (rule reached_inv [OF assms(1,2)])
  then have "concat (flushed w) = concat (accepted w)"
    using assms(3) by (auto simp: worker_inv_def buffers_inv_def wait_inv_def writer_inv_def in_flight_def)
  then have data: "concat (map snd (zip stamps (flushed w))) = concat (accepted w)" using assms(4) by simp
  from console_and_file_run [OF assms(5,6,8)] assms(7) data show ?thesis
    by (auto simp: streams_def stream_def)
qed

lemma submitted_grows: "pool_step p e q \<Longrightarrow> \<exists>x. submitted q = submitted p @ x"
  by (cases e; auto simp: pool_step_def Enqueue_def TryEnqueue_def has_space_def emplace_def worker_turn_def task_done_def
      notify_worker_def notify_caller_def notify_everyone_def set_stopping_def Let_def split: if_splits list.splits option.splits)

text \<open>C18. The backup of an error is sent or counted. When the backup is enabled and an error message has been accepted by the
  worker, either \<open>remote_backup_drops_\<close> has gone up by one, or the message has been given to the pool: then, whatever else the
  pool does, its task has run to its end when the workers have been joined.\<close>

theorem error_backup_runs_or_counts:
  assumes "backup_wanted conf" and "send_pool lw = Some p" and "pool_reached n m es p"
    and "log_Serialize is_ipv4 conf ERROR data True lw = lw'"
  shows "remote_drops lw' = remote_drops lw + 1 \<or>
    (\<exists>p'. send_pool lw' = Some p' \<and> remote_drops lw' = remote_drops lw \<and>
       (\<forall>fs q. exec pool_step p' fs q \<longrightarrow> gone q = n \<longrightarrow> data \<in> set (finished q)))"
proof (cases "fst (TryEnqueue p data)")
  case False
  with assms(1,2,4) show ?thesis by (auto simp: log_Serialize_def split: prod.splits bool.splits)
next
  case True
  let ?p = "snd (TryEnqueue p data)"
  have lw': "send_pool lw' = Some ?p" "remote_drops lw' = remote_drops lw"
    using True assms(1,2,4) by (auto simp: log_Serialize_def split: prod.splits bool.splits)
  have step: "pool_step p (Tries data True) ?p" using True by (simp add: pool_step_def)
  have sub: "data \<in> set (submitted ?p)" using True by (auto simp: TryEnqueue_def emplace_def split: if_splits)
  obtain p0 where p0: "ThreadPool n m = Inr p0" "exec pool_step p0 es p" using assms(3) by (auto simp: pool_reached_def)
  then have n: "0 < n" by (auto simp: ThreadPool_def split: if_splits)
  have inv: "pool_inv n ?p" using tp.inv_step [OF pool_reached_inv [OF assms(3)] step] .
  have "data \<in> set (finished q)" if q: "exec pool_step ?p fs q" "gone q = n" for fs q
  proof -
    have "pool_inv n q" by (rule tp.inv_exec [OF q(1) inv])
    with q(2) n have "mset (finished q) = mset (submitted q)"
      by (auto simp: pool_inv_def queue_inv_def notes_inv_def)
    moreover have "data \<in> set (submitted ?p) \<longrightarrow> data \<in> set (submitted q)"
      by (rule tp.exec_relation [OF q(1) inv, of "\<lambda>p q. data \<in> set (submitted p) \<longrightarrow> data \<in> set (submitted q)"])
        (use submitted_grows in fastforce)+
    ultimately show ?thesis using sub by (metis set_mset_mset)
  qed
  with lw' show ?thesis by blast
qed

text \<open>The first logger registered under a name keeps it, and shutting down stops every registered logger once. After any
  calls of \<open>AddLogger\<close>, \<open>GetLogger\<close> finds the first logger that was added under the name, and the default logger if
  there is none; \<open>Shutdown\<close> stops the loggers that were registered, the default one among them, one for each name, and
  afterwards no logger is found under any name.\<close>

theorem registry_first_wins:
  "(\<forall>name. GetLogger name (AddLoggers xs (LoggerManager d)) =
      Some (case map_of ((''default'', d) # xs) name of None \<Rightarrow> d | Some l \<Rightarrow> l)) \<and>
    set (fst (Shutdown (AddLoggers xs (LoggerManager d)))) = ran (map_of ((''default'', d) # xs)) \<and>
    length (fst (Shutdown (AddLoggers xs (LoggerManager d)))) = card (set (map fst ((''default'', d) # xs))) \<and>
    (\<forall>name. GetLogger name (snd (Shutdown (AddLoggers xs (LoggerManager d)))) = None)"
proof -
  let ?m = "AddLoggers xs (LoggerManager d)"
  have ok: "hm_ok (loggers (LoggerManager d))" by (simp add: LoggerManager_def hm_ok_def)
  note found = AddLoggers_find [OF ok, of xs]
  have find: "hm_find (loggers ?m) = map_of (loggers ?m)" by (simp add: fun_eq_iff hm_find_def)
  have f: "map_of (loggers ?m) = map_of ((''default'', d) # xs)"
    using found by (auto simp: fun_eq_iff LoggerManager_def hm_find_def)
  have okm: "distinct (map fst (loggers ?m))" and dm: "default_logger ?m = Some d"
    using found by (auto simp: LoggerManager_def hm_ok_def)
  have "set (map snd (loggers ?m)) = ran (map_of (loggers ?m))" using ran_distinct [OF okm] by simp
  moreover have "length (loggers ?m) = card (set (map fst (loggers ?m)))" using distinct_card [OF okm] by simp
  moreover have "set (map fst (loggers ?m)) = set (map fst ((''default'', d) # xs))"
    using arg_cong [OF f, of dom] by (simp add: dom_map_of_conv_image_fst)
  moreover have "GetLogger name (snd (Shutdown ?m)) = None" for name by (simp add: GetLogger_def Shutdown_def hm_find_def)
  moreover have "GetLogger name ?m = Some (case map_of ((''default'', d) # xs) name of None \<Rightarrow> d | Some l \<Rightarrow> l)" for name
    unfolding GetLogger_def find f dm by (simp split: option.split)
  ultimately show ?thesis unfolding Shutdown_def f by simp
qed

subsection \<open>Examples\<close>

text \<open>A disk with one empty log file, open as descriptor 3.\<close>

definition log_disk :: os where
  "log_disk = (boot [] [] [])\<lparr>node := [[] \<mapsto> Dir, [''log''] \<mapsto> File 0], next_ino := 1, fds := [3 \<mapsto> \<lparr>fd_ino = Some 0, fd_pos = 0\<rparr>],
     next_fd := 4\<rparr>"

definition log_stream :: cfile where
  "log_stream = \<lparr>cf_fd = 3, unwritten = [], cf_error = False\<rparr>"

lemma logged_is_on_disk_witness:
  "\<exists>w fls t. reached small_config ASYNC_SAFE (two_threads @ then_stop) w \<and>
     run_state (RealFlushes (Some small_config) 7 (zip [new_year, new_year] (flushed w)) [StdoutFlush [], File_flusher (Some log_stream)])
       log_disk = (fls, t) \<and> bytes (inodes t 0) = ''abcde''"
proof -
  obtain w where w: "run_events small_config small_worker (two_threads @ then_stop) = Some w" "phase w = Exited" "flushed w = [''abc'', ''de'']"
    using small_worker_runs(2) by blast
  obtain fls t where r: "run_state (RealFlushes (Some small_config) 7 (zip [new_year, new_year] (flushed w))
      [StdoutFlush [], File_flusher (Some log_stream)]) log_disk = (fls, t)" by fastforce
  have len: "length [new_year, new_year] = length (flushed w)" using w(3) by simp
  have disk: "opened log_disk log_stream 0" "faultless (tape log_disk)" "unwritten log_stream = []" "bytes (inodes log_disk 0) = []"
    by (simp_all add: opened_def log_disk_def log_stream_def boot_def)
  have fl: "1 \<le> flush_log small_config" by (simp add: small_config_def shipped_log_def)
  from logged_is_on_disk [OF small_facts(4) small_worker_reached [OF w(1)] w(2) len disk(1-3) r]
  have "bytes (inodes t 0) = concat (accepted w)" using fl disk(4) by auto
  moreover have "concat (accepted w) = concat (flushed w)"
    using reached_inv [OF small_facts(4) small_worker_reached [OF w(1)]] w(2)
    by (auto simp: worker_inv_def buffers_inv_def wait_inv_def writer_inv_def in_flight_def)
  ultimately show ?thesis using r w small_worker_reached [OF w(1)] by (intro exI [of _ w] exI [of _ fls] exI [of _ t]) simp
qed

definition error_world :: log_world where
  "error_world = \<lparr>remote_failures = 0, remote_drops = 0,
     send_pool = (case ThreadPool 1 1 of Inr p \<Rightarrow> Some p | Inl e \<Rightarrow> None), network = rough_net\<rparr>"

lemma error_backup_runs_or_counts_witness:
  "\<exists>p'. send_pool (log_Serialize (\<lambda>a. True) (Some client_conf) ERROR ''oops'' True error_world) = Some p' \<and>
     (\<exists>q. exec pool_step p' [Worker_turn, Task_done ''oops'', Destroy, Destroy_notifies, Worker_turn] q \<and> gone q = 1 \<and> ''oops'' \<in> set (finished q))"
proof -
  let ?lw = "log_Serialize (\<lambda>a. True) (Some client_conf) ERROR ''oops'' True error_world"
  obtain p where p: "ThreadPool 1 1 = Inr p" "send_pool error_world = Some p" by (simp add: error_world_def ThreadPool_def)
  have want: "backup_wanted (Some client_conf)" by (simp add: backup_wanted_def client_conf_def)
  have reach: "pool_reached 1 1 [] p" using p(1) by (simp add: pool_reached_def)
  have room: "\<not> pool_stopping p \<and> length (tasks p) < max_pending p" using p(1) by (auto simp: ThreadPool_def)
  have nodrop: "remote_drops ?lw \<noteq> remote_drops error_world + 1"
    using p(2) want room by (simp add: log_Serialize_def TryEnqueue_def split: prod.splits)
  obtain p' where p': "send_pool ?lw = Some p'" "\<forall>fs q. exec pool_step p' fs q \<longrightarrow> gone q = 1 \<longrightarrow> ''oops'' \<in> set (finished q)"
    using error_backup_runs_or_counts [OF want p(2) reach refl, of "\<lambda>a. True" "''oops''"] nodrop by blast
  have "p' = emplace ''oops'' p"
    using p(2) p'(1) want room by (simp add: log_Serialize_def TryEnqueue_def split: prod.splits)
  moreover have "p = (case ThreadPool 1 1 of Inr p \<Rightarrow> p)" using p(1) by simp
  ultimately have "\<exists>q. run_pool p' [Worker_turn, Task_done ''oops'', Destroy, Destroy_notifies, Worker_turn] = Some q \<and> gone q = 1"
    by (simp add: pool_defs)
  then have "\<exists>q. exec pool_step p' [Worker_turn, Task_done ''oops'', Destroy, Destroy_notifies, Worker_turn] q \<and> gone q = 1"
    by (simp only: run_pool_exec)
  with p' show ?thesis by blast
qed

end
