(* ===== verification/Server_Main.thy ===== *)
theory Server_Main
  imports Data_Manager Logger
begin

text \<open>
  \<^verbatim>\<open>src/src/server/Test.cpp\<close> and \<^verbatim>\<open>Service::RunModule\<close>: how the server is put together and taken down. libevent is not part of
  the repository: the result of each of its calls is a parameter, and the model records the calls in the order
  the code makes them. The two callbacks hand a request to \<open>HandleRequest\<close> and end the loop; what happens inside the
  loop is the model of the handlers.
\<close>

subsection \<open>RunModule\<close>

datatype ev_signal = SIGINT | SIGTERM

datatype ev_call = Event_base_new | Evhttp_new | Set_max_headers_size nat | Set_max_body_size nat | Set_timeout nat
  | Set_allowed_methods "string list" | Set_gencb | Bind_socket string nat | Evsignal_new ev_signal | Event_add ev_signal
  | Dispatch | Event_free ev_signal | Evhttp_free | Event_base_free

text \<open>Registering the two signals: whether it succeeds, and the calls. A failed \<open>evsignal_new\<close> leaves nothing to add or free.\<close>

definition add_signals :: "(ev_call \<Rightarrow> bool) \<Rightarrow> bool \<times> ev_call list" where
  "add_signals works =
     (let news = [Evsignal_new SIGINT, Evsignal_new SIGTERM] in
      if \<not> works (Evsignal_new SIGINT) \<or> \<not> works (Evsignal_new SIGTERM) then (False, news)
      else if \<not> works (Event_add SIGINT) then (False, news @ [Event_add SIGINT])
      else (works (Event_add SIGTERM), news @ [Event_add SIGINT, Event_add SIGTERM]))"

definition free_events :: "(ev_call \<Rightarrow> bool) \<Rightarrow> ev_call list" where
  "free_events works = map Event_free (filter (\<lambda>s. works (Evsignal_new s)) [SIGINT, SIGTERM])"

definition RunModule :: "(ev_call \<Rightarrow> bool) \<Rightarrow> config \<Rightarrow> bool \<times> ev_call list" where
  "RunModule works c =
     (if \<not> works Event_base_new then (False, [Event_base_new])
      else if \<not> works Evhttp_new then (False, [Event_base_new, Evhttp_new, Event_base_free])
      else
        let bind = Bind_socket (server_ip c) (server_port c);
            up = [Event_base_new, Evhttp_new, Set_max_headers_size (64 * 1024), Set_max_body_size (max_upload_size c),
              Set_timeout 30, Set_allowed_methods [''GET'', ''POST'', ''HEAD''], Set_gencb, bind];
            down = [Evhttp_free, Event_base_free]
        in if \<not> works bind then (False, up @ down)
           else case add_signals works of
             (False, calls) \<Rightarrow> (False, up @ calls @ free_events works @ down)
           | (True, calls) \<Rightarrow> (works Dispatch, up @ calls @ [Dispatch] @ map Event_free [SIGINT, SIGTERM] @ down))"

subsection \<open>main\<close>

definition log_file_base :: string where
  "log_file_base = ''./logfile/cloud-storage''"

definition log_file_limit :: nat where
  "log_file_limit = 1024 * 1024"

text \<open>
  From the logging configuration to the registered logger: the pool \<^verbatim>\<open>thread_pool\<close> owns by then, if any, and the exception or
  the configuration with the logger manager. \<^verbatim>\<open>logger_initialized\<close> is set exactly if there is no exception.
\<close>

definition start_logging :: "'j json_lib \<Rightarrow> (string \<Rightarrow> string option) \<Rightarrow>
    ('z, string pool option \<times> (string + log_config \<times> async_logger logger_manager)) io" where
  "start_logging L getenv = do {
     conf \<leftarrow> JsonData L getenv;
     case conf of
       Inl e \<Rightarrow> give (None, Inl e)
     | Inr c \<Rightarrow> (case ThreadPool (unat (thread_count c)) (unat (backup_queue_size c)) of
         Inl e \<Rightarrow> give (None, Inl ''thread pool'')
       | Inr p \<Rightarrow> do {
           fl \<leftarrow> RollFileFlush log_file_base log_file_limit;
           give (Some p, case fl of
             Inl e \<Rightarrow> Inl ''cannot create rolling log directory''
           | Inr r \<Rightarrow> (case Build (Some c) (BuildLoggerName ''default'' new_builder) of
               Inl e \<Rightarrow> Inl ''default logger''
             | Inr d \<Rightarrow> (case Build (Some c) (BuildLoggerFlush (Roll_flusher r) (BuildLoggerName ''asynclogger'' new_builder)) of
                 Inl e \<Rightarrow> Inl ''logger''
               | Inr lg \<Rightarrow> (case AddLogger (Some (Name lg, lg)) (LoggerManager d) of
                   (False, m) \<Rightarrow> Inl ''cannot register application logger''
                 | (True, m) \<Rightarrow> Inr (c, m))))) }) }"

text \<open>What happens in a run, in order, and the exit code.\<close>

datatype life_event = Pool_made "string pool" | Loop_run "ev_call list" | Logger_stopped async_logger | Pool_destroyed

record server_run =
  exit_code :: int
  happened :: "life_event list"

definition reset_pool :: "string pool option \<Rightarrow> life_event list" where
  "reset_pool pool = (case pool of None \<Rightarrow> [] | Some p \<Rightarrow> [Pool_destroyed])"

definition shut_down :: "async_logger logger_manager \<Rightarrow> life_event list" where
  "shut_down m = map Logger_stopped (fst (Shutdown m))"

text \<open>The handler of exceptions: the loggers are there if \<^verbatim>\<open>logger_initialized\<close>.\<close>

definition startup_failed :: "string pool option \<Rightarrow> async_logger logger_manager option \<Rightarrow> life_event list" where
  "startup_failed pool registered = (case registered of None \<Rightarrow> [] | Some m \<Rightarrow> shut_down m) @ reset_pool pool"

text \<open>The argument, if there is one, replaces what the environment says of the file of the storage configuration, which is read when the
  data manager first asks for it.\<close>

definition set_config_path :: "string list \<Rightarrow> (string \<Rightarrow> string option) \<Rightarrow> string \<Rightarrow> string option" where
  "set_config_path args getenv = (case args of [] \<Rightarrow> getenv | path # _ \<Rightarrow> getenv(''CLOUD_STORAGE_CONFIG'' \<mapsto> path))"

definition server_app :: "string list \<Rightarrow> (string \<Rightarrow> string option) \<Rightarrow> 'j env \<Rightarrow> (ev_call \<Rightarrow> bool) \<Rightarrow> ('z, server_run) dm" where
  "server_app args getenv E works =
     (if 1 < length args then give \<lparr>exit_code = 2, happened = []\<rparr>
      else do {
        started \<leftarrow> start_logging (json E) (set_config_path args getenv);
        let pool = fst started;
        let made = (case pool of None \<Rightarrow> [] | Some p \<Rightarrow> [Pool_made p]);
        case snd started of
          Inl e \<Rightarrow> give \<lparr>exit_code = 1, happened = made @ startup_failed pool None\<rparr>
        | Inr (c, m) \<Rightarrow> do {
            storage \<leftarrow> ReadConfig (json E) (set_config_path args getenv);
            case storage of
              Inl e \<Rightarrow> give \<lparr>exit_code = 1, happened = made @ startup_failed pool (Some m)\<rparr>
            | Inr storage \<Rightarrow> do {
                data_manager \<leftarrow> DataManager (E\<lparr>conf := storage\<rparr>);
                give (case data_manager of
                  Some e \<Rightarrow> \<lparr>exit_code = 1, happened = made @ startup_failed pool (Some m)\<rparr>
                | None \<Rightarrow> (case RunModule works storage of
                    (success, calls) \<Rightarrow> \<lparr>exit_code = (if success then 0 else 1),
                      happened = made @ [Loop_run calls] @ shut_down m @ reset_pool pool\<rparr>)) } } })"

subsection \<open>What starting gives\<close>

text \<open>What releases an object, and the call that makes it.\<close>

definition made_by :: "ev_call \<Rightarrow> ev_call option" where
  "made_by call = (case call of Event_base_free \<Rightarrow> Some Event_base_new | Evhttp_free \<Rightarrow> Some Evhttp_new
     | Event_free s \<Rightarrow> Some (Evsignal_new s) | _ \<Rightarrow> None)"

lemma RollFileFlush_Inr:
  assumes "run_state (RollFileFlush base limit) s = (Inr r, t)"
  shows "r = \<lparr>max_size = limit, basename = base, current_size = 0, roll_seq = 1, roll_file = None\<rparr>" "limit \<noteq> 0"
  using assms by (auto simp: RollFileFlush_def split: if_splits prod.splits)

lemma Build_Inr:
  assumes "Build (Some c) b = Inr l"
  shows "Name l = lb_name b" "flushers l = (if lb_flushers b = [] then [StdoutFlush []] else lb_flushers b)"
    "AsyncWorker (Some c) (lb_type b) = Inr (the_worker l)"
  using assms by (auto simp: Build_def split: if_splits sum.splits)

text \<open>A configuration that was accepted, the pool it asks for, and the two loggers.\<close>

definition started_with :: "log_config \<Rightarrow> string pool \<Rightarrow> async_logger logger_manager \<Rightarrow> bool" where
  "started_with c p m \<longleftrightarrow> log_config_ok c \<and> ThreadPool (unat (thread_count c)) (unat (backup_queue_size c)) = Inr p \<and>
     (\<exists>d a r. m = AddLoggers [(''asynclogger'', a)] (LoggerManager d) \<and> Name d = ''default'' \<and> Name a = ''asynclogger'' \<and>
        flushers d = [StdoutFlush []] \<and> flushers a = [Roll_flusher r] \<and>
        r = \<lparr>max_size = log_file_limit, basename = log_file_base, current_size = 0, roll_seq = 1, roll_file = None\<rparr> \<and>
        AsyncWorker (Some c) ASYNC_SAFE = Inr (the_worker d) \<and> AsyncWorker (Some c) ASYNC_SAFE = Inr (the_worker a))"

lemma start_logging_started:
  assumes "run_state (start_logging L getenv) s = ((pool, Inr (c, m)), t)"
  shows "\<exists>p. pool = Some p \<and> started_with c p m"
proof -
  obtain j u where j: "run_state (JsonData L getenv) s = (j, u)" by fastforce
  obtain fl v where fl: "run_state (RollFileFlush log_file_base log_file_limit) u = (fl, v)" by fastforce
  from assms j fl obtain r d a p where jc: "j = Inr c" and p: "ThreadPool (unat (thread_count c)) (unat (backup_queue_size c)) = Inr p"
    and pool: "pool = Some p"
    and r: "fl = Inr r" and d: "Build (Some c) (BuildLoggerName ''default'' new_builder) = Inr d"
    and a: "Build (Some c) (BuildLoggerFlush (Roll_flusher r) (BuildLoggerName ''asynclogger'' new_builder)) = Inr a"
    and m: "AddLogger (Some (Name a, a)) (LoggerManager d) = (True, m)"
    by (auto simp: start_logging_def split: sum.splits prod.splits bool.splits)
  have "result (JsonData L getenv) s = Inr c" using j jc by (simp add: result_def)
  then have "log_config_ok c" by (rule JsonData_ok)
  moreover have "m = AddLoggers [(''asynclogger'', a)] (LoggerManager d)"
    using m Build_Inr(1) [OF a] by (simp add: BuildLoggerFlush_def BuildLoggerName_def)
  ultimately show ?thesis
    using p pool RollFileFlush_Inr(1) [OF fl [unfolded r]] Build_Inr [OF d] Build_Inr [OF a]
    unfolding started_with_def
    by (intro exI [of _ p] conjI exI [of _ d] exI [of _ a] exI [of _ r]) (simp_all add: BuildLoggerFlush_def BuildLoggerName_def new_builder_def)
qed

text \<open>An accepted configuration always gives a pool and loggers: only the directory and the size of the buffer can be in the way.\<close>

lemma start_logging_works:
  assumes "run_state (JsonData L getenv) s = (Inr c, u)" "run_state (RollFileFlush log_file_base log_file_limit) u = (Inr r, t)"
    "unat (buffer_size c) \<le> vector_max"
  shows "\<exists>p m. run_state (start_logging L getenv) s = ((Some p, Inr (c, m)), t)"
proof -
  have "result (JsonData L getenv) s = Inr c" using assms(1) by (simp add: result_def)
  then have "log_config_ok c" by (rule JsonData_ok)
  then have c: "unat (thread_count c) \<noteq> 0" "unat (backup_queue_size c) \<noteq> 0" "buffer_size c \<noteq> 0"
    by (auto simp: log_config_ok_def unat_eq_zero)
  then obtain p :: "string pool" where p: "ThreadPool (unat (thread_count c)) (unat (backup_queue_size c)) = Inr p" by (simp add: ThreadPool_def)
  have "\<exists>w. AsyncWorker (Some c) ty = Inr w" for ty using c(3) assms(3) by (auto simp: AsyncWorker_def Buffer_def)
  then obtain w where w: "AsyncWorker (Some c) ASYNC_SAFE = Inr w" by blast
  show ?thesis
    using assms(1,2) p w
    by (simp add: start_logging_def Build_def BuildLoggerName_def BuildLoggerFlush_def new_builder_def AddLogger_def LoggerManager_def
        hm_find_def)
qed

lemma all_releases:
  "(\<forall>call obj. made_by call = Some obj \<longrightarrow> P call obj) \<longleftrightarrow>
     P Event_base_free Event_base_new \<and> P Evhttp_free Evhttp_new \<and>
     P (Event_free SIGINT) (Evsignal_new SIGINT) \<and> P (Event_free SIGTERM) (Evsignal_new SIGTERM)"
  by (auto simp: made_by_def split: ev_call.splits) (metis ev_signal.exhaust)

subsection \<open>Properties\<close>

text \<open>Taking the event loop down releases what was made, whichever calls fail: the event base, the HTTP server and each
  signal event are released exactly once if they were made and not at all otherwise; the base is released last; and
  \<open>RunModule\<close> reports success exactly when the loop was entered and ended well.\<close>

theorem run_module_releases:
  "case RunModule works c of (ok, calls) \<Rightarrow>
     (\<forall>call obj. made_by call = Some obj \<longrightarrow> count_list calls call = (if obj \<in> set calls \<and> works obj then 1 else 0)) \<and>
     (works Event_base_new \<longrightarrow> last calls = Event_base_free) \<and> (ok \<longleftrightarrow> Dispatch \<in> set calls \<and> works Dispatch)"
  unfolding RunModule_def Let_def add_signals_def free_events_def
  by (cases "works Event_base_new"; cases "works Evhttp_new"; cases "works (Bind_socket (server_ip c) (server_port c))";
      cases "works (Evsignal_new SIGINT)"; cases "works (Evsignal_new SIGTERM)"; cases "works (Event_add SIGINT)";
      cases "works (Event_add SIGTERM)") (simp_all add: all_releases)

text \<open>C20. The parts of the server fit together. If it starts, the logging configuration satisfies what the buffers, the pool and
  the backup client rely on, the pool has the configured number of workers, and there are two loggers in safe mode: the default
  one on the console and the one of the server on rolling files of a mebibyte. With an accepted configuration the start of the
  logging fails only if the log directory cannot be made or the buffer is too large for a vector; then the pool is
  destroyed, if there was one. Whatever happens after the start of the logging, both loggers are stopped before the pool they send
  to is destroyed, each exactly once and after the event loop, if it was reached; and the exit code is 0 exactly when the storage
  configuration is accepted, the metadata is loaded and the event loop ended well.\<close>

theorem server_life_cycle:
  assumes "length args \<le> 1" and "run_state (server_app args getenv E works) s = (run, t)"
    and "set_config_path args getenv = vars" and "run_state (start_logging (json E) vars) s = ((pool, begun), u)"
  shows "case begun of
       Inl e \<Rightarrow> exit_code run = 1 \<and> happened run = (case pool of None \<Rightarrow> [] | Some p \<Rightarrow> [Pool_made p, Pool_destroyed]) \<and>
         (\<forall>c v r x. run_state (JsonData (json E) vars) s = (Inr c, v) \<and>
            run_state (RollFileFlush log_file_base log_file_limit) v = (Inr r, x) \<longrightarrow> vector_max < unat (buffer_size c))
     | Inr (c, m) \<Rightarrow> (\<exists>p loop stops. pool = Some p \<and> started_with c p m \<and>
         happened run = [Pool_made p] @ loop @ map Logger_stopped stops @ [Pool_destroyed] \<and>
         mset (map Name stops) = {#''default'', ''asynclogger''#} \<and>
         (loop = [] \<and> exit_code run = 1 \<or> (\<exists>storage v. run_state (ReadConfig (json E) vars) u = (Inr storage, v) \<and>
            result (DataManager (E\<lparr>conf := storage\<rparr>)) v = None \<and> loop = [Loop_run (snd (RunModule works storage))])) \<and>
         (exit_code run = 0 \<longleftrightarrow> (\<exists>storage v. run_state (ReadConfig (json E) vars) u = (Inr storage, v) \<and>
            result (DataManager (E\<lparr>conf := storage\<rparr>)) v = None \<and> fst (RunModule works storage))))"
proof (cases begun)
  case (Inl e)
  then have "run = \<lparr>exit_code = 1, happened = (case pool of None \<Rightarrow> [] | Some p \<Rightarrow> [Pool_made p, Pool_destroyed])\<rparr>"
    using assms by (auto simp: server_app_def startup_failed_def reset_pool_def split: option.split)
  moreover have "vector_max < unat (buffer_size c)" if "run_state (JsonData (json E) vars) s = (Inr c, v)"
    "run_state (RollFileFlush log_file_base log_file_limit) v = (Inr r, x)" for c v r x
    using start_logging_works [OF that] assms(4) Inl by force
  ultimately show ?thesis using Inl by simp
next
  case (Inr x)
  obtain c m where x: "x = (c, m)" by (cases x)
  obtain p where st: "pool = Some p" "started_with c p m" using start_logging_started assms(4) Inr x by blast
  then obtain d a where m: "m = AddLoggers [(''asynclogger'', a)] (LoggerManager d)" and n: "Name d = ''default''" "Name a = ''asynclogger''"
    by (auto simp: started_with_def)
  from m have stop: "fst (Shutdown m) = [d, a]"
    by (simp add: Shutdown_def AddLogger_def LoggerManager_def hm_find_def hm_assign_def hm_erase_def)
  note defs = Let_def server_app_def startup_failed_def reset_pool_def shut_down_def stop
  obtain st' v where rc: "run_state (ReadConfig (json E) vars) u = (st', v)" by fastforce
  show ?thesis
  proof (cases st')
    case (Inl e)
    then have "happened run = [Pool_made p] @ [] @ map Logger_stopped [d, a] @ [Pool_destroyed]" "exit_code run = 1"
      using assms Inr x st rc by (auto simp: defs)
    then show ?thesis using Inr x st rc Inl n
      by simp (intro exI [of _ "[]"] exI [of _ "[d, a]"], simp)
  next
    case storage: (Inr storage)
    obtain dm w where dm: "run_state (DataManager (E\<lparr>conf := storage\<rparr>)) v = (dm, w)" by fastforce
    obtain ok calls where rm: "RunModule works storage = (ok, calls)" by fastforce
    show ?thesis
    proof (cases dm)
      case None
      then have "happened run = [Pool_made p] @ [Loop_run calls] @ map Logger_stopped [d, a] @ [Pool_destroyed]"
        "exit_code run = (if ok then 0 else 1)"
        using assms Inr x st rc storage dm rm by (auto simp: defs)
      then show ?thesis using Inr x st rc storage dm rm None n
        by (cases ok, simp_all, intro exI [of _ "[d, a]"], simp add: result_def,
            intro exI [of _ "[Loop_run calls]"] exI [of _ "[d, a]"], simp add: result_def)
    next
      case (Some e)
      then have "happened run = [Pool_made p] @ [] @ map Logger_stopped [d, a] @ [Pool_destroyed]" "exit_code run = 1"
        using assms Inr x st rc storage dm rm by (auto simp: defs)
      then show ?thesis using Inr x st rc storage dm Some n
        by simp (intro exI [of _ "[]"] exI [of _ "[d, a]"], simp add: result_def)
    qed
  qed
qed

subsection \<open>Examples\<close>

text \<open>A home with the two configuration files of the repository, and a JSON library that reads them.\<close>

definition both_lib :: "json json_lib" where
  "both_lib = ref_json\<lparr>js_parse := (\<lambda>s. if s = ''logs'' then Inr shipped_log_conf else if s = ''shipped'' then Inr shipped_conf
     else Inl ''syntax error'')\<rparr>"

definition server_home :: data_state where
  "server_home = os.extend (log_home\<lparr>
     node := (\<lambda>k. if k = [] \<or> k = [''logfile''] then Some Dir else if k = [''config.conf''] then Some (File 0)
       else if k = [''Storage.conf''] then Some (File 1) else None),
     inodes := (\<lambda>i. \<lparr>bytes = if i = 0 then ''logs'' else ''shipped'', mtime = 0, atime = 0\<rparr>), next_ino := 2\<rparr>)
     \<lparr>storage_file = [], table = []\<rparr>"


lemma home_key: "key server_home p = walk (path_names (c_str p)) []"
  by (simp add: server_home_def key_def os.extend_def log_home_def boot_def)

lemma home_fields:
  "node server_home k = (if k = [] \<or> k = [''logfile''] then Some Dir else if k = [''config.conf''] then Some (File 0)
       else if k = [''Storage.conf''] then Some (File 1) else None)"
  "tape server_home = []" "bytes (inodes server_home 0) = ''logs''" "bytes (inodes server_home 1) = ''shipped''"
  by (simp_all add: server_home_def os.extend_def log_home_def boot_def)

lemma home_names: "path_names ''./logfile'' = [''.'', ''logfile'']" "path_names ''Storage.conf'' = [''Storage.conf'']"
  "path_names ''./storage.data'' = [''.'', ''storage.data'']"
  by code_simp+

lemma home_lookup:
  "lookup server_home ''config.conf'' = Some (File 0)" "lookup server_home ''../../log_system/logs_code/config.conf'' = None"
  "lookup server_home ''../logs_code/config.conf'' = None" "lookup server_home ''log_system/logs_code/config.conf'' = None"
  "lookup server_home ''./logfile'' = Some Dir" "lookup server_home ''Storage.conf'' = Some (File 1)"
  "lookup server_home ''./storage.data'' = None"
  by (simp_all add: lookup_def home_key c_str_def candidate_names home_names home_fields)

lemma both_members: "read_members both_lib = read_members ref_config_lib" "log_members both_lib = log_members ref_log_lib"
  by (simp_all add: both_lib_def ref_config_lib_def ref_log_lib_def read_members_def log_members_def ReadString_def fun_eq_iff
    ReadPort_def ReadPositiveInt_def ReadSize_def ReadBool_def RequireUnsigned_def require_addr_def require_port_def require_positive_def
      require_enabled_def optional_token_def cong: if_cong)

lemma home_parent: "log_Path log_file_base = ''./logfile''"
  using rendered_parent(1) [of "[''.'', ''logfile'']" "''cloud-storage''" False]
  by (simp add: log_Path_def log_file_base_def root_prefix_def plain_name_def)

lemma home_logs: "run_state (JsonData both_lib (\<lambda>_. None)) server_home = (Inr shipped_log, reopened server_home)"
proof -
  have path: "run_state (FindConfigPath (\<lambda>_. None)) server_home = (''config.conf'', server_home)"
    by (simp add: FindConfigPath_def candidates_def log_Exists_def fs_exists_def fs_status_def run_next home_lookup home_fields)
  have get: "run_state (log_GetContent ''config.conf'') server_home = (Some ''logs'', reopened server_home)"
    using log_GetContent_done [OF home_fields(2) home_lookup(1)] by (simp add: home_fields)
  have "and_then (log_members ref_log_lib shipped_log_conf) check_log_config = Inr shipped_log"
    by (simp add: log_members_shipped check_log_config_def) (simp add: shipped_log_def)
  moreover have "UnSerialize both_lib ''logs'' = Inr shipped_log_conf" "js_isObject both_lib shipped_log_conf"
    by (simp_all add: UnSerialize_def both_lib_def shipped_log_conf_def ref_json_def)
  ultimately show ?thesis using path get by (simp add: JsonData_def both_members)
qed

lemma home_flusher: "\<exists>r. run_state (RollFileFlush log_file_base log_file_limit) (reopened server_home) = (Inr r, reopened server_home)"
  by (simp add: RollFileFlush_def log_file_limit_def home_parent log_CreateDirectory_def fs_exists_def fs_is_directory_def fs_status_def
      run_next home_lookup home_fields)

lemma home_storage: "run_state (ReadConfig both_lib (\<lambda>_. None)) (reopened server_home) = (Inr shipped, reopened (reopened server_home))"
proof -
  have "run_state (GetContent ''Storage.conf'') (reopened server_home) = (Some ''shipped'', reopened (reopened server_home))"
    using GetContent_reopens [of "reopened server_home" "''Storage.conf''" 1] by (simp add: home_fields [simplified] home_lookup)
  moreover have "read_root both_lib (\<lambda>_. None) shipped_conf = Inr shipped"
    using shipped_accepted by (simp add: read_root_def both_members)
  moreover have "UnSerialize both_lib ''shipped'' = Inr shipped_conf" "js_isObject both_lib shipped_conf"
    by (simp_all add: UnSerialize_def both_lib_def shipped_conf_def ref_json_def)
  ultimately show ?thesis by (simp add: ReadConfig_def override_def Let_def)
qed

definition server_env :: "json env" where
  "server_env = (ref_env shipped)\<lparr>json := both_lib\<rparr>"

lemma data_state_lookup: "lookup (s\<lparr>storage_file := f, table := tbl\<rparr>) p = lookup s p" "lookup (s\<lparr>storage_file := f\<rparr>) p = lookup s p"
  by (simp_all add: lookup_def key_def)

lemma home_data: "result (DataManager (server_env\<lparr>conf := shipped\<rparr>)) (reopened (reopened server_home)) = None"
proof -
  let ?s = "reopened (reopened server_home)\<lparr>storage_file := ''./storage.data'', table := []\<rparr>"
  have "tape ?s = []" "lookup ?s ''./storage.data'' = None" by (simp_all add: home_fields home_lookup data_state_lookup)
  then show ?thesis
    by (simp add: DataManager_def InitLoad_def result_def Exists_def fs_exists_def fs_status_def run_next shipped_def data_state_lookup)
qed

lemma server_life_cycle_witness:
  "\<exists>run t. run_state (server_app [] (\<lambda>_. None) server_env (\<lambda>_. True)) server_home = (run, t) \<and>
     exit_code run = 0 \<and> last (happened run) = Pool_destroyed"
proof -
  obtain run t where run: "run_state (server_app [] (\<lambda>_. None) server_env (\<lambda>_. True)) server_home = (run, t)" by fastforce
  have lib: "json server_env = both_lib" by (simp add: server_env_def)
  obtain r where r: "run_state (RollFileFlush log_file_base log_file_limit) (reopened server_home) = (Inr r, reopened server_home)"
    using home_flusher by blast
  have "unat (buffer_size shipped_log) \<le> vector_max" by (simp add: shipped_log_def vector_max_def)
  from start_logging_works [OF home_logs r this] obtain p m where
    start: "run_state (start_logging (json server_env) (\<lambda>_. None)) server_home = ((Some p, Inr (shipped_log, m)), reopened server_home)"
    by (auto simp: lib)
  have "fst (RunModule (\<lambda>_. True) shipped)" by (simp add: RunModule_def add_signals_def Let_def)
  with server_life_cycle [OF _ run _ start] home_storage home_data show ?thesis
    using run by (auto simp: set_config_path_def lib)
qed

end
