(* ===== verification/Spec2Isabelle.thy ===== *)
theory Spec2Isabelle
  imports Prelude Effects Cpp_String Url Range Base64 Fs_Path Posix Bundle File_Util Json Config
    Data_Manager Session Http_Text Service Service_Correct Service_Storage Service_Serving Service_Success
    Service_System Log_Config Log_Buffer Steps Async_Worker Thread_Pool Log_Message Stdio Log_Flush Sockets
    Backup_Client Backup_Writer Backup_Server Logger Server_Main
begin

text \<open>
  A cloud storage server with asynchronous logging: the program and what is proved of it.

  \<^bold>\<open>The program.\<close> \<^verbatim>\<open>src/src/server\<close> is an HTTP server that stores uploaded files, plain or compressed, lists them,
  sends them, whole or in parts, and deletes them, for users who log in with a password. libevent calls
  \<^verbatim>\<open>Service::HandleRequest\<close> once for every request, in one thread. The handler authenticates, decodes and checks the request,
  moves files with \<^verbatim>\<open>FileUtil\<close>, and keeps a record of each file in \<^verbatim>\<open>DataManager\<close>, which writes the whole table to a
  metadata file before a change becomes visible. \<^verbatim>\<open>src/log_system/logs_code\<close> is the logging library the server links:
  any thread formats a message and pushes it into a buffer, a writer thread swaps the buffer with a second one and gives it to
  the flushers, errors are also sent to a backup server by a thread pool, fatal messages by the thread that logs.
  \<^verbatim>\<open>backlog/ServerBackupLog.cpp\<close> is that backup server, a program of its own.

  \<^bold>\<open>How the code is modelled.\<close> Definitions carry the names of the functions they translate. Byte strings are
  \<^typ>\<open>string\<close>, machine integers whose wrapping matters are words (\<open>u64\<close>, \<open>u32\<close>), integers the code has checked against a
  range are \<^typ>\<open>nat\<close> or \<^typ>\<open>int\<close>. Code with effects is a computation of \<^verbatim>\<open>State_Monad\<close>, whose do-blocks follow the statements
  of the source; an exception is the left of a sum, or the message of it. Code that runs in several threads is a labelled
  transition system: a step is a critical section or what lies between two of them, any order of steps is an execution, and
  a thread that waits may wake for no reason. System calls take their outcomes from a list in the state, so a theorem
  about any state holds for any failures; no theorem assumes that calls succeed unless it says so. The libraries outside the
  repository are parameters: jsoncpp (\<open>json_lib\<close> with \<open>json_laws\<close>), the compressors (\<open>bundle_lib\<close> with
  \<open>bundle_laws\<close>), OpenSSL and local time (fields of \<open>service_env\<close>, with \<open>memcmp_law\<close>), \<^verbatim>\<open>vasprintf\<close>, \<^verbatim>\<open>inet_pton\<close>, and
  the calls of libevent in \<open>RunModule\<close>. Each law has a reference instance that satisfies it, used by the witnesses.

  \<^bold>\<open>Theories, from the bottom up.\<close>

  \<^item> \<open>Prelude\<close>, \<open>Effects\<close>, \<open>Steps\<close>: words, lists, the hash map (an association list, since the order of an
    \<^verbatim>\<open>unordered_map\<close> matters for the metadata file); the interfaces \<open>codec\<close> (a decoder inverts an encoder), \<open>keyed_store\<close> (the
    laws of a map), \<open>effect_relation\<close> (a reflexive and transitive relation holds of a computation when it holds of its parts),
    \<open>invariant_steps\<close> and \<open>ranked_steps\<close> (invariants and progress of transition systems). Each is interpreted by
    the theories of the components that provide it.
  \<^item> \<open>Cpp_String\<close>, \<open>Fs_Path\<close>, \<open>Posix\<close>, \<open>Stdio\<close>, \<open>Sockets\<close>: what the source uses of the C++ and C libraries and of the system.
    \<open>os_relation\<close> and \<open>os_frame\<close> say which relations every system call respects; \<open>frame\<close>, \<open>silent\<close>, \<open>quiet\<close>, \<open>extends\<close>,
    \<open>only_appends\<close> are the ones the proofs use.
  \<^item> \<open>Url\<close>, \<open>Base64\<close>, \<open>Range\<close>, \<open>Bundle\<close>, \<open>Json\<close>: \<^verbatim>\<open>UrlEncode\<close>/\<^verbatim>\<open>UrlDecode\<close> of \<^verbatim>\<open>Util.hpp\<close>, \<^verbatim>\<open>base64.cpp\<close>, \<^verbatim>\<open>Range.hpp\<close>,
    \<^verbatim>\<open>bundle.h\<close>, \<^verbatim>\<open>JsonUtil\<close>. Round trips, the meaning of a range header, and the input sizes from which on the
    base64 encoder does not return.
  \<^item> \<open>File_Util\<close>, \<open>Config\<close>, \<open>Data_Manager\<close>: \<^verbatim>\<open>FileUtil\<close> over the system calls, \<^verbatim>\<open>Config.hpp\<close>, \<^verbatim>\<open>DataManager.cpp\<close>. A
    committed file never replaces another; the data manager implements a map, keeps the metadata file equal to it under every
    failure, and reads back what it has written, except for the directories the shipped configuration names.
  \<^item> \<open>Session\<close>, \<open>Http_Text\<close>, \<open>Service\<close>: the session store and the login limiter, the text helpers, and every handler of
    \<^verbatim>\<open>Service.cpp\<close>. The state is a record that extends the one of the data manager, which extends the one of the system:
    \<open>os\<close>, \<open>data_state\<close>, \<open>server_state\<close>, \<open>service_state\<close>; the reply is the list of calls made to libevent.
  \<^item> \<open>Service_Correct\<close>: one reply per request; nothing changes without a session, or without the CSRF token.
    \<open>Service_Storage\<close>: an upload or deletion is all or nothing, whichever calls fail. \<open>Service_Serving\<close> and \<open>Service_Success\<close>:
    what a download sends, that a login opens a session exactly for the right password, and that proper requests succeed.
    \<open>Service_System\<close>: any sequence of requests after a start of the server (\<open>sound_start\<close>); the table refines the set of names
    the acknowledged replies describe, the metadata file agrees with it, no file is lost that nobody asked to delete, and a
    restart is a sound start again and rebuilds the table wherever its directories can be restored.
  \<^item> \<open>Log_Config\<close>, \<open>Log_Message\<close>, \<open>Log_Buffer\<close>, \<open>Async_Worker\<close>, \<open>Thread_Pool\<close>, \<open>Log_Flush\<close>, \<open>Logger\<close>: \<^verbatim>\<open>Util.hpp\<close>,
    \<^verbatim>\<open>Level.hpp\<close> and \<^verbatim>\<open>Message.hpp\<close>, \<^verbatim>\<open>AsyncBuffer.hpp\<close>, \<^verbatim>\<open>AsyncWorker.hpp\<close>, \<^verbatim>\<open>ThreadPool.hpp\<close>, \<^verbatim>\<open>LogFlush.hpp\<close>,
    \<^verbatim>\<open>AsyncLogger.hpp\<close> with \<^verbatim>\<open>Manager.hpp\<close> and \<^verbatim>\<open>MyLog.hpp\<close>. The double buffer loses nothing and no wakeup is lost,
    stopping drains it; the pool is a bounded queue that always finishes its work; rolling files split the log at the
    limit; and, composed, what \<open>Push\<close> accepted is on disk when the writer has ended.
  \<^item> \<open>Backup_Client\<close>, \<open>Backup_Writer\<close>, \<open>Backup_Server\<close>: \<^verbatim>\<open>CliBackupLog.hpp\<close> and \<^verbatim>\<open>ServerBackupLog.cpp\<close>. What the client
    reports is what it sent, and every socket is closed; the server hands on what was sent to it with the right token and
    nothing else, counts its connections exactly, and keeps a gapless window on the log in its numbered files.
  \<^item> \<open>Server_Main\<close>: \<^verbatim>\<open>Service::RunModule\<close> and \<^verbatim>\<open>main\<close> of \<^verbatim>\<open>Test.cpp\<close>, from the two configurations to the exit code.

  \<^bold>\<open>Bounds and termination.\<close> No definition takes fuel. Loops over system calls (\<open>read_loop\<close>, \<open>write_loop\<close>, \<open>fwrite_loop\<close>,
  \<open>send_loop\<close>, \<open>poll_loop\<close>) are functions with a termination proof: each round moves a byte or uses up an outcome, and
  the list of outcomes is finite, because the system does not interrupt a call for ever. Three loops that may not end are partial
  functions whose value is \<open>None\<close> then: the growth of the buffer (\<open>grow\<close>, which ends for every configuration
  that is accepted), the base64 encoder (\<open>encode_loop\<close>, which ends below 4 GiB) and the breaking of its output into lines
  (\<open>break_loop\<close>, which ends for a positive distance). For the transition systems, progress is bounded by a rank
  (\<open>turns\<close>, \<open>work_left\<close>): an execution of the threads' own steps has at most that length, and one that cannot go on
  has finished its work.

  \<^bold>\<open>Not modelled.\<close> \<^verbatim>\<open>bundle.h\<close> beyond \<^verbatim>\<open>pack\<close> and \<^verbatim>\<open>unpack\<close>: a library from outside, whose lists of encoders, measurements,
  archives and tests nothing in the server calls, over a C interface that is not in the repository.
  \<^verbatim>\<open>FileUtil::ScanDirectory\<close>, which has no caller. The inside of libevent, OpenSSL, jsoncpp and the compressors. The overloads of
  base64 for \<^verbatim>\<open>string_view\<close>, which are the same templates. The mutexes of the session store, the limiter and the data
  manager: requests are handled by one thread. Memory exhaustion and exceptions thrown by tasks or callbacks. The
  pages, the benchmark, the examples and the tests.
\<close>

end
